(* ===== verification/Prelude.thy ===== *)
theory Prelude
  imports Main "HOL-Library.Word" "HOL-Library.Monad_Syntax"
begin

text \<open>
  Shared vocabulary of the development: the fixed-width integers of the C sources, the
  reading of \<open>None\<close> as undefined behaviour or non-termination, bounds-checked array
  access, little-endian loads and stores, and the generic lemmas about them.
\<close>

unbundle bit_operations_syntax

type_synonym u8 = "8 word"
type_synonym u16 = "16 word"
type_synonym u32 = "32 word"
type_synonym u64 = "64 word"

named_theorems word_array "reading an array, a bitmap or a byte buffer after an update"

section \<open>Arrays with bounds\<close>

text \<open>An access outside a C array is undefined; the model returns \<open>None\<close>.\<close>

definition aget :: "'a list \<Rightarrow> nat \<Rightarrow> 'a option" where
  "aget xs i = (if i < length xs then Some (xs ! i) else None)"

definition aset :: "'a list \<Rightarrow> nat \<Rightarrow> 'a \<Rightarrow> 'a list option" where
  "aset xs i x = (if i < length xs then Some (xs[i := x]) else None)"

lemma aget_Some [simp]: "aget xs i = Some x \<longleftrightarrow> i < length xs \<and> xs ! i = x"
  by (auto simp: aget_def)

lemma aset_Some [simp]: "aset xs i x = Some ys \<longleftrightarrow> i < length xs \<and> ys = xs[i := x]"
  by (auto simp: aset_def)

lemma aget_in [simp]: "i < length xs \<Longrightarrow> aget xs i = Some (xs ! i)"
  by (simp add: aget_def)

lemma aset_in [simp]: "i < length xs \<Longrightarrow> aset xs i x = Some (xs[i := x])"
  by (simp add: aset_def)

text \<open>Unsigned division; a zero divisor raises a CPU exception.\<close>

definition udiv :: "'a::len word \<Rightarrow> 'a word \<Rightarrow> 'a word option" where
  "udiv a b = (if b = 0 then None else Some (a div b))"

definition umod :: "'a::len word \<Rightarrow> 'a word \<Rightarrow> 'a word option" where
  "umod a b = (if b = 0 then None else Some (a mod b))"

lemma udiv_nonzero [simp]: "b \<noteq> 0 \<Longrightarrow> udiv a b = Some (a div b)" "b \<noteq> 0 \<Longrightarrow> umod a b = Some (a mod b)"
  by (simp_all add: udiv_def umod_def)

lemma find_SomeD: "find P xs = Some x \<Longrightarrow> x \<in> set xs \<and> P x"
  by (induction xs) (auto split: if_splits)

section \<open>Single bits of a word\<close>

lemma bit_set_one:
  fixes w :: "'a::len word"
  assumes "n < LENGTH('a)"
  shows "bit (w OR 2 ^ n) k \<longleftrightarrow> bit w k \<or> k = n"
  using assms by (auto simp: bit_simps dest: bit_imp_le_length)

lemma bit_clear_one:
  fixes w :: "'a::len word"
  assumes "n < LENGTH('a)"
  shows "bit (w AND NOT (2 ^ n)) k \<longleftrightarrow> bit w k \<and> k \<noteq> n"
  using assms by (auto simp: bit_simps dest: bit_imp_le_length)

lemma all_ones_iff:
  fixes w :: "'a::len word"
  shows "w = - 1 \<longleftrightarrow> (\<forall>n < LENGTH('a). bit w n)"
  by (auto intro!: bit_word_eqI)

lemma all_bits_set_32: "(0xFFFFFFFF :: u32) = - 1"
  by simp

lemma less_exp_not_bit:
  fixes w :: "'a::len word"
  assumes "w < 2 ^ n" "n \<le> k"
  shows "\<not> bit w k"
proof
  assume b: "bit w k"
  then have k: "k < LENGTH('a)" by (rule bit_imp_le_length)
  have "bit (unat w) k" using b k by (simp add: bit_unsigned_iff)
  then have "odd (unat w div 2 ^ k)" by (simp add: bit_iff_odd)
  then have "2 ^ k \<le> unat w" by (metis div_less even_zero not_less)
  moreover have "(2 :: nat) ^ n \<le> 2 ^ k" using assms(2) by simp
  moreover have "unat w < 2 ^ n"
  proof -
    have "n < LENGTH('a)" using assms(2) k by simp
    then have "unat (of_nat (2 ^ n) :: 'a word) = 2 ^ n" unfolding unat_of_nat by (intro mod_less) simp
    with assms(1) show ?thesis by (simp add: word_less_nat_alt)
  qed
  ultimately show False by linarith
qed

section \<open>Word arithmetic without wrap-around\<close>

lemma unat_plus_one:
  fixes i u :: "'a::len word"
  assumes "i < u"
  shows "unat (i + 1) = unat i + 1"
proof -
  have "unat i < unat u" using assms by (simp add: word_less_nat_alt)
  moreover have "unat u < 2 ^ LENGTH('a)" by (rule unsigned_less)
  ultimately have "unat i + 1 < 2 ^ LENGTH('a)" by linarith
  then show ?thesis by (simp add: unat_word_ariths)
qed

lemma unat_plus_no_wrap:
  fixes a b :: "'a::len word"
  assumes "unat a + unat b < 2 ^ LENGTH('a)"
  shows "unat (a + b) = unat a + unat b"
  using assms by (simp add: unat_word_ariths)

lemma unat_of_nat32: "i < 2 ^ 32 \<Longrightarrow> unat (of_nat i :: u32) = i"
  by (simp add: unat_of_nat)

lemma unat_bound32: "unat (n :: u32) < 2 ^ 32"
  by (rule order_less_le_trans [OF unsigned_less]) simp

lemma of_nat_eq_iff_32: "a < 2 ^ 32 \<Longrightarrow> b < 2 ^ 32 \<Longrightarrow> (of_nat a :: u32) = of_nat b \<longleftrightarrow> a = b"
  by (metis unat_of_nat32)

lemma eq_of_nat: "unat w = k \<Longrightarrow> w = of_nat k"
  by auto

lemma unat_pred: "(n :: 'a::len word) \<noteq> 0 \<Longrightarrow> unat (n - 1) = unat n - 1"
  by (metis unat_minus_one)

lemma unat_align_down:
  fixes x :: "'a::len word"
  shows "unat (x AND NOT (mask n)) = unat x div 2 ^ n * 2 ^ n"
proof -
  have "x AND NOT (mask n) = push_bit n (drop_bit n x)"
    by (rule bit_word_eqI) (auto simp: bit_simps)
  then have "unat (x AND NOT (mask n)) = take_bit LENGTH('a) (push_bit n (drop_bit n (unat x)))"
    by (simp only: unsigned_push_bit_eq unat_drop_bit_eq)
  then have "unat (x AND NOT (mask n)) = take_bit LENGTH('a) (unat x div 2 ^ n * 2 ^ n)"
    by (simp only: push_bit_eq_mult drop_bit_eq_div)
  moreover have "unat x div 2 ^ n * 2 ^ n < 2 ^ LENGTH('a)"
    using unsigned_less [of x] by (metis div_times_less_eq_dividend le_less_trans)
  ultimately show ?thesis by (simp add: take_bit_nat_eq_self)
qed

lemma unat_align_4096:
  fixes x :: u64
  shows "unat (x AND - 4096) = unat x div 4096 * 4096"
  using unat_align_down [of x 12] by (simp add: mask_eq_exp_minus_1)

section \<open>Little-endian bytes\<close>

text \<open>The byte order of the i686 memory image and of the ext2 disk format.\<close>

definition le16 :: "u16 \<Rightarrow> u8 list" where
  "le16 w = [ucast w, ucast (drop_bit 8 w)]"

definition le32 :: "u32 \<Rightarrow> u8 list" where
  "le32 w = [ucast w, ucast (drop_bit 8 w), ucast (drop_bit 16 w), ucast (drop_bit 24 w)]"

definition of_le16 :: "u8 \<Rightarrow> u8 \<Rightarrow> u16" where
  "of_le16 a b = ucast a OR push_bit 8 (ucast b)"

definition of_le32 :: "u8 \<Rightarrow> u8 \<Rightarrow> u8 \<Rightarrow> u8 \<Rightarrow> u32" where
  "of_le32 a b c d =
     ucast a OR push_bit 8 (ucast b) OR push_bit 16 (ucast c) OR push_bit 24 (ucast d)"

definition of_le64 :: "u32 \<Rightarrow> u32 \<Rightarrow> u64" where
  "of_le64 lo hi = ucast lo OR push_bit 32 (ucast hi)"

text \<open>Loads from a byte-addressed memory; addresses wrap at 32 bits.\<close>

definition ld32 :: "(u32 \<Rightarrow> u8) \<Rightarrow> u32 \<Rightarrow> u32" where
  "ld32 m a = of_le32 (m a) (m (a + 1)) (m (a + 2)) (m (a + 3))"

definition ld64 :: "(u32 \<Rightarrow> u8) \<Rightarrow> u32 \<Rightarrow> u64" where
  "ld64 m a = of_le64 (ld32 m a) (ld32 m (a + 4))"

lemma length_le16 [simp]: "length (le16 w) = 2"
  by (simp add: le16_def)

lemma length_le32 [simp]: "length (le32 w) = 4"
  by (simp add: le32_def)

lemma of_le16_le16 [simp]: "of_le16 (le16 w ! 0) (le16 w ! 1) = w"
proof (rule bit_word_eqI)
  fix n assume "n < LENGTH(16)"
  then show "bit (of_le16 (le16 w ! 0) (le16 w ! 1)) n \<longleftrightarrow> bit w n"
    by (cases "n < 8") (auto simp: of_le16_def le16_def bit_simps)
qed

lemma of_le32_le32 [simp]:
  "of_le32 (le32 w ! 0) (le32 w ! 1) (le32 w ! 2) (le32 w ! 3) = w"
proof (rule bit_word_eqI)
  fix n assume "n < LENGTH(32)"
  then consider "n < 8" | "8 \<le> n \<and> n < 16" | "16 \<le> n \<and> n < 24" | "24 \<le> n \<and> n < 32"
    by fastforce
  then show "bit (of_le32 (le32 w ! 0) (le32 w ! 1) (le32 w ! 2) (le32 w ! 3)) n \<longleftrightarrow> bit w n"
    by cases (auto simp: of_le32_def le32_def bit_simps)
qed

end
