(* ===== verification/Pmm.thy ===== *)
theory Pmm
  imports Prelude
begin

text \<open>
  The physical memory manager: \<open>kernel/memory/pmm.c\<close>.  A bitmap of 32768 words has one bit for each page of 4 GB, set when
  the page is in use.  \<open>pmm_init\<close> builds it from the memory map of the boot loader; \<open>pmm_alloc_page\<close> and \<open>pmm_free_page\<close> work on
  it.  The abstraction is the set \<open>free_pages\<close> of the pages that can be handed out.
\<close>

abbreviation (input) PAGE_SIZE :: "'a::numeral" where "PAGE_SIZE \<equiv> 4096"
abbreviation (input) MAX_PAGES :: "'a::numeral" where "MAX_PAGES \<equiv> 1048576"
abbreviation (input) BITMAP_ENTRY_BITS :: "'a::numeral" where "BITMAP_ENTRY_BITS \<equiv> 32"
abbreviation (input) PAGE_TABLE_COUNT :: "'a::numeral" where "PAGE_TABLE_COUNT \<equiv> 256"
abbreviation (input) KERNEL_HIGHER_HALF :: u32 where "KERNEL_HIGHER_HALF \<equiv> 0xC0000000"
abbreviation (input) BITMAP_ALL_BITS_SET :: u32 where "BITMAP_ALL_BITS_SET \<equiv> 0xFFFFFFFF"
abbreviation (input) MEMORY_4GB_LIMIT :: u64 where "MEMORY_4GB_LIMIT \<equiv> 0x100000000"
abbreviation (input) MULTIBOOT_MEMORY_AVAILABLE :: u32 where "MULTIBOOT_MEMORY_AVAILABLE \<equiv> 1"

record pmm =
  pmm_bitmap :: "u32 list"
  usable_end_words :: u32
  last_alloc :: u32

record mmap_entry =
  mm_size :: u32
  mm_addr :: u64
  mm_len :: u64
  mm_type :: u32

definition clear_bit :: "u32 \<Rightarrow> u32 list \<Rightarrow> u32 list option" where
  "clear_bit b bitmap = do {
     w \<leftarrow> aget bitmap (unat (b div BITMAP_ENTRY_BITS));
     aset bitmap (unat (b div BITMAP_ENTRY_BITS))
       (w AND NOT (push_bit (unat (b mod BITMAP_ENTRY_BITS)) 1)) }"

definition set_bit_c :: "u32 \<Rightarrow> u32 list \<Rightarrow> u32 list option" where
  "set_bit_c b bitmap = do {
     w \<leftarrow> aget bitmap (unat (b div BITMAP_ENTRY_BITS));
     aset bitmap (unat (b div BITMAP_ENTRY_BITS))
       (w OR push_bit (unat (b mod BITMAP_ENTRY_BITS)) 1) }"

definition test_bit_c :: "u32 \<Rightarrow> u32 list \<Rightarrow> u32 option" where
  "test_bit_c b bitmap = do {
     w \<leftarrow> aget bitmap (unat (b div BITMAP_ENTRY_BITS));
     Some (drop_bit (unat (b mod BITMAP_ENTRY_BITS)) w AND 1) }"

definition load_mmap_entry :: "(u32 \<Rightarrow> u8) \<Rightarrow> u32 \<Rightarrow> mmap_entry" where
  "load_mmap_entry mem p =
     \<lparr>mm_size = ld32 mem p, mm_addr = ld64 mem (p + 4), mm_len = ld64 mem (p + 12),
      mm_type = ld32 mem (p + 20)\<rparr>"

definition pmm_fill :: "nat \<Rightarrow> u32 list \<Rightarrow> u32 list option" where
  "pmm_fill n bitmap =
     fold (\<lambda>i acc. do { bm \<leftarrow> acc; aset bm i BITMAP_ALL_BITS_SET }) [0..<n] (Some bitmap)"

partial_function (option) pmm_clear_range :: "u64 \<Rightarrow> u64 \<Rightarrow> u32 list \<Rightarrow> u32 list option" where
  "pmm_clear_range addr limit bitmap =
     (if addr < limit then do {
        bm \<leftarrow> (if addr < MEMORY_4GB_LIMIT then clear_bit (ucast (addr div PAGE_SIZE)) bitmap
               else Some bitmap);
        pmm_clear_range (addr + PAGE_SIZE) limit bm }
      else Some bitmap)"

partial_function (option) pmm_set_range :: "u32 \<Rightarrow> u32 \<Rightarrow> u32 list \<Rightarrow> u32 list option" where
  "pmm_set_range addr limit bitmap =
     (if addr < limit then do {
        bm \<leftarrow> set_bit_c (addr div PAGE_SIZE) bitmap;
        pmm_set_range (addr + PAGE_SIZE) limit bm }
      else Some bitmap)"

definition region_start :: "mmap_entry \<Rightarrow> u64" where
  "region_start e = (mm_addr e + PAGE_SIZE - 1) AND NOT (PAGE_SIZE - 1)"

definition region_end :: "mmap_entry \<Rightarrow> u64" where
  "region_end e = (mm_addr e + mm_len e) AND NOT (PAGE_SIZE - 1)"

definition pmm_init_entry :: "mmap_entry \<Rightarrow> u64 \<times> u32 list \<Rightarrow> (u64 \<times> u32 list) option" where
  "pmm_init_entry e = (\<lambda>(usable_end, bitmap).
     if mm_type e = MULTIBOOT_MEMORY_AVAILABLE then
       let start = region_start e; limit = region_end e;
           usable_end' = (if usable_end < limit then limit else usable_end)
       in do { bm \<leftarrow> pmm_clear_range start limit bitmap; Some (usable_end', bm) }
     else Some (usable_end, bitmap))"

partial_function (option) pmm_init_entries ::
  "(u32 \<Rightarrow> u8) \<Rightarrow> u32 \<Rightarrow> u32 \<Rightarrow> u64 \<times> u32 list \<Rightarrow> (u64 \<times> u32 list) option" where
  "pmm_init_entries mem entry mmap_end st =
     (if entry < mmap_end then do {
        st' \<leftarrow> pmm_init_entry (load_mmap_entry mem entry) st;
        pmm_init_entries mem (entry + mm_size (load_mmap_entry mem entry) + 4) mmap_end st' }
      else Some st)"

definition usable_words :: "u64 \<Rightarrow> u32" where
  "usable_words usable_end =
     (ucast ((usable_end + PAGE_SIZE - 1) div PAGE_SIZE) + BITMAP_ENTRY_BITS - 1) div BITMAP_ENTRY_BITS"

text \<open>The linker symbols \<open>_kernel_start\<close> and \<open>_kernel_end\<close> are arguments.\<close>

definition pmm_init :: "u32 \<Rightarrow> u32 \<Rightarrow> (u32 \<Rightarrow> u8) \<Rightarrow> u32 \<Rightarrow> u32 \<Rightarrow> pmm \<Rightarrow> pmm option" where
  "pmm_init kernel_start kernel_end mem mmap len s = do {
     bm0 \<leftarrow> pmm_fill (MAX_PAGES div BITMAP_ENTRY_BITS) (pmm_bitmap s);
     (usable_end, bm1) \<leftarrow> pmm_init_entries mem mmap (mmap + len) (0, bm0);
     bm2 \<leftarrow> pmm_fill (PAGE_TABLE_COUNT div BITMAP_ENTRY_BITS) bm1;
     bm3 \<leftarrow> pmm_set_range kernel_start (kernel_end - KERNEL_HIGHER_HALF) bm2;
     Some (s\<lparr>pmm_bitmap := bm3, usable_end_words := usable_words usable_end\<rparr>) }"

definition ffs :: "u32 \<Rightarrow> nat" where
  "ffs w = (case find (bit w) [0..<32] of None \<Rightarrow> 0 | Some n \<Rightarrow> Suc n)"

partial_function (option) pmm_alloc_scan :: "u32 \<Rightarrow> u32 \<Rightarrow> pmm \<Rightarrow> (u32 \<times> pmm) option" where
  "pmm_alloc_scan start i s = do {
     w \<leftarrow> aget (pmm_bitmap s) (unat i);
     if w \<noteq> BITMAP_ALL_BITS_SET \<and> 0 < ffs (NOT w) then
       let b = ffs (NOT w) - 1 in do {
         bm \<leftarrow> aset (pmm_bitmap s) (unat i) (w OR push_bit b 1);
         Some ((i * BITMAP_ENTRY_BITS + of_nat b) * PAGE_SIZE,
               s\<lparr>pmm_bitmap := bm, last_alloc := i\<rparr>) }
     else
       let i' = (if usable_end_words s \<le> i + 1 then 0 else i + 1) in
       if i' \<noteq> start then pmm_alloc_scan start i' s else Some (0, s) }"

definition pmm_alloc_page :: "pmm \<Rightarrow> (u32 \<times> pmm) option" where
  "pmm_alloc_page s =
     (if usable_end_words s = 0 then Some (0, s)
      else pmm_alloc_scan (last_alloc s) (last_alloc s) s)"

definition pmm_free_page :: "u32 \<Rightarrow> pmm \<Rightarrow> pmm option" where
  "pmm_free_page addr s = do {
     bm \<leftarrow> clear_bit (addr div PAGE_SIZE) (pmm_bitmap s);
     Some (s\<lparr>pmm_bitmap := bm\<rparr>) }"

section \<open>Bits as pages\<close>

definition page_used :: "u32 list \<Rightarrow> nat \<Rightarrow> bool" where
  "page_used bm p \<longleftrightarrow> bit (bm ! (p div 32)) (p mod 32)"

lemma unat_div32 [simp]: "unat (b div 32 :: u32) = unat b div 32"
  by (simp add: unat_div_distrib)
lemma unat_mod32 [simp]: "unat (b mod 32 :: u32) = unat b mod 32"
  by (simp add: unat_mod_distrib)

lemma clear_bit_Some:
  assumes "unat b div 32 < length bm"
  obtains bm' where "clear_bit b bm = Some bm'" and "length bm' = length bm"
    and "\<And>p. page_used bm' p \<longleftrightarrow> page_used bm p \<and> p \<noteq> unat b"
proof
  let ?bm = "bm[unat b div 32 := bm ! (unat b div 32) AND NOT (push_bit (unat b mod 32) 1)]"
  show "clear_bit b bm = Some ?bm" using assms by (simp add: clear_bit_def)
  show "length ?bm = length bm" by simp
  fix p
  have "p = unat b \<longleftrightarrow> p div 32 = unat b div 32 \<and> p mod 32 = unat b mod 32"
    by (metis div_mult_mod_eq)
  then show "page_used ?bm p \<longleftrightarrow> page_used bm p \<and> p \<noteq> unat b"
    using assms by (auto simp: page_used_def nth_list_update bit_clear_one)
qed

lemma set_bit_c_Some:
  assumes "unat b div 32 < length bm"
  obtains bm' where "set_bit_c b bm = Some bm'" and "length bm' = length bm"
    and "\<And>p. page_used bm' p \<longleftrightarrow> page_used bm p \<or> p = unat b"
proof
  let ?bm = "bm[unat b div 32 := bm ! (unat b div 32) OR push_bit (unat b mod 32) 1]"
  show "set_bit_c b bm = Some ?bm" using assms by (simp add: set_bit_c_def)
  show "length ?bm = length bm" by simp
  fix p
  have "p = unat b \<longleftrightarrow> p div 32 = unat b div 32 \<and> p mod 32 = unat b mod 32"
    by (metis div_mult_mod_eq)
  then show "page_used ?bm p \<longleftrightarrow> page_used bm p \<or> p = unat b"
    using assms by (auto simp: page_used_def nth_list_update bit_set_one)
qed

lemma ffs_NOT:
  assumes "w \<noteq> BITMAP_ALL_BITS_SET"
  obtains b where "ffs (NOT w) = Suc b" and "b < 32" and "\<not> bit w b" and "\<And>k. k < b \<Longrightarrow> bit w k"
proof -
  from assms have "w \<noteq> -1" by (simp add: all_bits_set_32)
  then obtain n where n: "n < 32" "\<not> bit w n" by (auto simp: all_ones_iff)
  then have "find (bit (NOT w)) [0..<32] \<noteq> None"
    by (auto simp: find_None_iff bit_simps)
  then obtain b where b: "find (bit (NOT w)) [0..<32] = Some b" by auto
  then have "b < 32 \<and> bit (NOT w) b \<and> (\<forall>k<b. \<not> bit (NOT w) k)"
    by (auto simp: find_Some_iff)
  then have "b < 32" "\<not> bit w b" "\<And>k. k < b \<Longrightarrow> bit w k"
    by (auto simp: bit_simps)
  with b show thesis using that by (simp add: ffs_def)
qed

text \<open>Reference: the words in the order the scan visits them, and the allocation in one word.\<close>

definition scan_order :: "nat \<Rightarrow> nat \<Rightarrow> nat \<Rightarrow> nat list" where
  "scan_order u start i = (if start \<le> i then [i..<u] @ [0..<start] else [i..<start])"

definition word_has_free :: "pmm \<Rightarrow> nat \<Rightarrow> bool" where
  "word_has_free s j \<longleftrightarrow> pmm_bitmap s ! j \<noteq> BITMAP_ALL_BITS_SET"

definition take_first :: "pmm \<Rightarrow> nat \<Rightarrow> u32 \<times> pmm" where
  "take_first s j = (let b = ffs (NOT (pmm_bitmap s ! j)) - 1 in
     ((of_nat j * 32 + of_nat b) * PAGE_SIZE,
      s\<lparr>pmm_bitmap := (pmm_bitmap s)[j := pmm_bitmap s ! j OR push_bit b 1],
        last_alloc := of_nat j\<rparr>))"

lemma pmm_alloc_scan_eq:
  assumes "start < usable_end_words s" and "i < usable_end_words s"
    and "unat (usable_end_words s) \<le> length (pmm_bitmap s)"
  shows "pmm_alloc_scan start i s =
    (case find (word_has_free s) (scan_order (unat (usable_end_words s)) (unat start) (unat i)) of
       None \<Rightarrow> Some (0, s) | Some j \<Rightarrow> Some (take_first s j))"
  using assms(2)
proof (induction "length (scan_order (unat (usable_end_words s)) (unat start) (unat i))"
    arbitrary: i rule: less_induct)
  case less
  let ?u = "unat (usable_end_words s)"
  let ?i' = "if usable_end_words s \<le> i + 1 then 0 else i + 1"
  have iu: "unat i < ?u" and su: "unat start < ?u"
    using less.prems assms(1) by (simp_all add: word_less_nat_alt)
  then have i1: "unat (i + 1) = unat i + 1"
    using unat_plus_one less.prems by blast
  have i': "unat ?i' = (if unat i + 1 = ?u then 0 else unat i + 1)"
    using iu i1 by (auto simp: word_le_nat_alt)
  have inb: "unat i < length (pmm_bitmap s)" using iu assms(3) by simp
  have order: "scan_order ?u (unat start) (unat i) =
      unat i # (if ?i' = start then [] else scan_order ?u (unat start) (unat ?i'))"
  proof -
    have "?i' = start \<longleftrightarrow> unat ?i' = unat start" by (simp only: word_unat_eq_iff)
    then show ?thesis using iu su i'
      by (auto simp: scan_order_def upt_conv_Cons)
  qed
  show ?case
  proof (cases "word_has_free s (unat i)")
    case True
    then obtain b where "ffs (NOT (pmm_bitmap s ! unat i)) = Suc b"
      using ffs_NOT unfolding word_has_free_def by blast
    with True inb show ?thesis
      by (subst pmm_alloc_scan.simps) (simp add: order word_has_free_def take_first_def)
  next
    case False
    have nxt: "?i' < usable_end_words s" 
      using i' iu su by (simp add: word_less_nat_alt split: if_splits)
    have "pmm_alloc_scan start i s = (if ?i' \<noteq> start then pmm_alloc_scan start ?i' s else Some (0, s))"
      using False inb by (subst pmm_alloc_scan.simps) (simp add: word_has_free_def Let_def)
    moreover have "?i' \<noteq> start \<Longrightarrow> pmm_alloc_scan start ?i' s =
      (case find (word_has_free s) (scan_order ?u (unat start) (unat ?i')) of
       None \<Rightarrow> Some (0, s) | Some j \<Rightarrow> Some (take_first s j))"
      by (rule less.hyps) (use order nxt in auto)
    ultimately show ?thesis using False order by simp
  qed
qed

definition pmm_ok :: "pmm \<Rightarrow> bool" where
  "pmm_ok s \<longleftrightarrow> length (pmm_bitmap s) = 32768 \<and> unat (usable_end_words s) \<le> 32768 \<and>
     (usable_end_words s \<noteq> 0 \<longrightarrow> last_alloc s < usable_end_words s) \<and>
     page_used (pmm_bitmap s) 0"

definition managed :: "pmm \<Rightarrow> nat set" where
  "managed s = {p. p div 32 < unat (usable_end_words s)}"

definition free_pages :: "pmm \<Rightarrow> nat set" where
  "free_pages s = {p \<in> managed s. \<not> page_used (pmm_bitmap s) p}"

lemma managed_bound: "pmm_ok s \<Longrightarrow> p \<in> managed s \<Longrightarrow> p < 1048576"
  by (auto simp: pmm_ok_def managed_def)

lemma page_zero_not_free: "pmm_ok s \<Longrightarrow> 0 \<notin> free_pages s"
  by (simp add: pmm_ok_def free_pages_def)

lemma word_has_free_iff: "word_has_free s j \<longleftrightarrow> (\<exists>p. p div 32 = j \<and> \<not> page_used (pmm_bitmap s) p)"
proof
  assume "word_has_free s j"
  then obtain b where "b < 32" "\<not> bit (pmm_bitmap s ! j) b"
    unfolding word_has_free_def using ffs_NOT by blast
  then show "\<exists>p. p div 32 = j \<and> \<not> page_used (pmm_bitmap s) p"
    by (intro exI [of _ "32 * j + b"]) (simp add: page_used_def)
next
  assume "\<exists>p. p div 32 = j \<and> \<not> page_used (pmm_bitmap s) p"
  then show "word_has_free s j"
    unfolding word_has_free_def all_bits_set_32 all_ones_iff page_used_def by fastforce
qed

lemma take_first_page:
  assumes ok: "pmm_ok s" and j: "j < unat (usable_end_words s)" and free: "word_has_free s j"
  obtains b where "b < 32" and "32 * j + b \<in> free_pages s"
    and "\<And>p. p div 32 = j \<Longrightarrow> p \<in> free_pages s \<Longrightarrow> 32 * j + b \<le> p"
    and "unat (fst (take_first s j)) = (32 * j + b) * 4096"
    and "pmm_ok (snd (take_first s j))"
    and "usable_end_words (snd (take_first s j)) = usable_end_words s"
    and "\<And>p. page_used (pmm_bitmap (snd (take_first s j))) p \<longleftrightarrow> page_used (pmm_bitmap s) p \<or> p = 32 * j + b"
proof -
  let ?w = "pmm_bitmap s ! j"
  from free obtain b where b: "ffs (NOT ?w) = Suc b" "b < 32" "\<not> bit ?w b" "\<And>k. k < b \<Longrightarrow> bit ?w k"
    unfolding word_has_free_def using ffs_NOT by blast
  have len: "length (pmm_bitmap s) = 32768" and u: "unat (usable_end_words s) \<le> 32768"
    using ok by (auto simp: pmm_ok_def)
  have used: "page_used (pmm_bitmap (snd (take_first s j))) p \<longleftrightarrow> page_used (pmm_bitmap s) p \<or> p = 32 * j + b" for p
  proof -
    have "p = 32 * j + b \<longleftrightarrow> p div 32 = j \<and> p mod 32 = b"
      using b(2) by auto
    then show ?thesis
      using b len j u by (auto simp: take_first_def page_used_def nth_list_update bit_set_one)
  qed
  have addr: "unat (fst (take_first s j)) = (32 * j + b) * 4096"
  proof -
    have "fst (take_first s j) = of_nat ((32 * j + b) * 4096)"
      by (simp add: take_first_def b(1) Let_def)
    moreover have "(32 * j + b) * 4096 < 2 ^ 32" using j u b(2) by simp
    ultimately show ?thesis by (simp only: unat_of_nat) simp
  qed
  have la: "of_nat j < usable_end_words s"
    using j u by (simp add: word_less_nat_alt unat_of_nat)
  have zero: "page_used (pmm_bitmap s) 0" using ok by (simp add: pmm_ok_def)
  show thesis
  proof (rule that)
    show "b < 32" by (fact b(2))
    show "32 * j + b \<in> free_pages s"
      using b j by (simp add: free_pages_def managed_def page_used_def)
    show "32 * j + b \<le> p" if "p div 32 = j" and "p \<in> free_pages s" for p
    proof -
      have "b \<le> p mod 32"
        using that b(4) [of "p mod 32"] by (force simp: free_pages_def page_used_def)
      then show ?thesis using that(1) by (metis add_le_cancel_left mult_div_mod_eq)
    qed
    show "unat (fst (take_first s j)) = (32 * j + b) * 4096" by (fact addr)
    show "pmm_ok (snd (take_first s j))"
      unfolding pmm_ok_def used
      using len u la zero by (simp add: take_first_def Let_def)
    show "usable_end_words (snd (take_first s j)) = usable_end_words s"
      by (simp add: take_first_def Let_def)
    show "\<And>p. page_used (pmm_bitmap (snd (take_first s j))) p \<longleftrightarrow> page_used (pmm_bitmap s) p \<or> p = 32 * j + b"
      by (fact used)
  qed
qed

lemma find_scan_order:
  assumes "start < u"
  shows "find P (scan_order u start start) = None \<longleftrightarrow> (\<forall>j<u. \<not> P j)"
    and "find P (scan_order u start start) = Some j \<Longrightarrow> j < u \<and> P j"
  using assms by (auto simp: scan_order_def find_None_iff dest!: find_SomeD split: if_splits)

lemma pmm_alloc_page_cases:
  assumes ok: "pmm_ok s"
  obtains (none) "free_pages s = {}" and "pmm_alloc_page s = Some (0, s)"
  | (page) a s' p where "pmm_alloc_page s = Some (a, s')" and "p \<in> free_pages s" and "unat a = p * 4096"
      and "pmm_ok s'" and "usable_end_words s' = usable_end_words s" and "unat (last_alloc s') = p div 32"
      and "\<And>q. page_used (pmm_bitmap s') q \<longleftrightarrow> page_used (pmm_bitmap s) q \<or> q = p"
      and "find (word_has_free s) (scan_order (unat (usable_end_words s)) (unat (last_alloc s))
             (unat (last_alloc s))) = Some (p div 32)"
      and "\<And>q. q div 32 = p div 32 \<Longrightarrow> q \<in> free_pages s \<Longrightarrow> p \<le> q"
proof (cases "usable_end_words s = 0")
  case True
  then show thesis
    by (intro none) (auto simp: free_pages_def managed_def pmm_alloc_page_def)
next
  case False
  let ?u = "unat (usable_end_words s)" and ?l = "unat (last_alloc s)"
  have lt: "last_alloc s < usable_end_words s" and len: "?u \<le> length (pmm_bitmap s)"
    using ok False by (auto simp: pmm_ok_def)
  then have lu: "?l < ?u" by (simp add: word_less_nat_alt)
  have eq: "pmm_alloc_page s = (case find (word_has_free s) (scan_order ?u ?l ?l) of
       None \<Rightarrow> Some (0, s) | Some j \<Rightarrow> Some (take_first s j))"
    using pmm_alloc_scan_eq [OF lt lt len] False by (simp add: pmm_alloc_page_def)
  show thesis
  proof (cases "find (word_has_free s) (scan_order ?u ?l ?l)")
    case None
    then have "\<forall>j<?u. \<not> word_has_free s j" using find_scan_order(1) [OF lu] by blast
    then have "free_pages s = {}"
      by (auto simp: free_pages_def managed_def word_has_free_iff)
    with None eq show thesis by (intro none) auto
  next
    case (Some j)
    then have "j < ?u" "word_has_free s j" using find_scan_order(2) [OF lu] by blast+
    then obtain b where b: "b < 32" "32 * j + b \<in> free_pages s"
      "\<And>p. p div 32 = j \<Longrightarrow> p \<in> free_pages s \<Longrightarrow> 32 * j + b \<le> p"
      "unat (fst (take_first s j)) = (32 * j + b) * 4096" "pmm_ok (snd (take_first s j))"
      "usable_end_words (snd (take_first s j)) = usable_end_words s"
      "\<And>p. page_used (pmm_bitmap (snd (take_first s j))) p \<longleftrightarrow> page_used (pmm_bitmap s) p \<or> p = 32 * j + b"
      using take_first_page [OF ok] by blast
    have "(32 * j + b) div 32 = j" using b(1) by simp
    moreover have "unat (last_alloc (snd (take_first s j))) = j"
      using \<open>j < ?u\<close> unat_bound32 [of "usable_end_words s"] by (simp add: take_first_def Let_def unat_of_nat)
    ultimately show thesis using b Some eq
      by (intro page [of "fst (take_first s j)" "snd (take_first s j)" "32 * j + b"]) auto
  qed
qed

lemma free_pages_after_alloc:
  assumes "usable_end_words s' = usable_end_words s"
    and "\<And>q. page_used (pmm_bitmap s') q \<longleftrightarrow> page_used (pmm_bitmap s) q \<or> q = p"
  shows "free_pages s' = free_pages s - {p}"
  using assms by (auto simp: free_pages_def managed_def)

lemma pmm_free_page_eq:
  assumes "pmm_ok s" and "4096 \<le> a"
  obtains s' where "pmm_free_page a s = Some s'" and "pmm_ok s'" and "usable_end_words s' = usable_end_words s"
    and "last_alloc s' = last_alloc s"
    and "\<And>q. page_used (pmm_bitmap s') q \<longleftrightarrow> page_used (pmm_bitmap s) q \<and> q \<noteq> unat a div 4096"
proof -
  have ua: "unat (a div 4096) = unat a div 4096" by (simp add: unat_div_distrib)
  have "unat a < 2 ^ 32" using unsigned_less [of a] by simp
  then have "unat (a div 4096) div 32 < length (pmm_bitmap s)"
    using assms(1) by (simp add: ua pmm_ok_def)
  then obtain bm where bm: "clear_bit (a div 4096) (pmm_bitmap s) = Some bm"
    "length bm = length (pmm_bitmap s)"
    "\<And>q. page_used bm q \<longleftrightarrow> page_used (pmm_bitmap s) q \<and> q \<noteq> unat a div 4096"
    using clear_bit_Some [of "a div 4096" "pmm_bitmap s"] by (metis ua)
  have "unat a div 4096 \<noteq> 0" using assms(2) by (simp add: word_le_nat_alt)
  with bm show thesis
    using assms by (intro that [of "s\<lparr>pmm_bitmap := bm\<rparr>"]) (auto simp: pmm_free_page_def pmm_ok_def)
qed

section \<open>The interface the virtual memory manager relies on\<close>

fun alloc_many :: "('s \<Rightarrow> (u32 \<times> 's) option) \<Rightarrow> nat \<Rightarrow> 's \<Rightarrow> (u32 list \<times> 's) option" where
  "alloc_many alloc 0 s = Some ([], s)"
| "alloc_many alloc (Suc n) s = do {
     (a, s1) \<leftarrow> alloc s;
     (as, s2) \<leftarrow> alloc_many alloc n s1;
     Some (a # as, s2) }"

locale page_allocator =
  fixes alloc :: "'s \<Rightarrow> (u32 \<times> 's) option"
    and free :: "u32 \<Rightarrow> 's \<Rightarrow> 's option"
    and inv :: "'s \<Rightarrow> bool"
    and pages :: "'s \<Rightarrow> nat set"
    and avail :: "'s \<Rightarrow> nat set"
  assumes alloc_returns: "inv s \<Longrightarrow> \<exists>a s'. alloc s = Some (a, s') \<and> inv s' \<and> pages s' = pages s"
    and alloc_fail: "inv s \<Longrightarrow> alloc s = Some (0, s') \<Longrightarrow> avail s = {} \<and> s' = s"
    and alloc_page: "inv s \<Longrightarrow> alloc s = Some (a, s') \<Longrightarrow> a \<noteq> 0 \<Longrightarrow>
      unat a mod 4096 = 0 \<and> unat a div 4096 \<in> avail s \<and> avail s' = avail s - {unat a div 4096}"
    and avail_nonzero: "inv s \<Longrightarrow> 0 \<notin> avail s"
    and avail_pages: "avail s \<subseteq> pages s"
    and pages_bound: "inv s \<Longrightarrow> p \<in> pages s \<Longrightarrow> p < 1048576"
    and free_returns: "inv s \<Longrightarrow> 4096 \<le> a \<Longrightarrow> \<exists>s'. free a s = Some s' \<and> inv s' \<and> pages s' = pages s \<and>
      avail s' = avail s \<union> ({unat a div 4096} \<inter> pages s)"
begin

lemma alloc_aligned: "inv s \<Longrightarrow> alloc s = Some (a, s') \<Longrightarrow> a \<noteq> 0 \<Longrightarrow> 4096 \<le> a"
  using alloc_page [of s a s'] avail_nonzero [of s]
  by (cases "unat a < 4096") (auto simp: word_le_nat_alt)

lemma alloc_free_restores:
  assumes "inv s" and "alloc s = Some (a, s1)" and "a \<noteq> 0"
  obtains s2 where "free a s1 = Some s2" and "inv s2" and "avail s2 = avail s"
proof -
  have s1: "inv s1 \<and> pages s1 = pages s" using alloc_returns [OF assms(1)] assms(2) by simp
  have "4096 \<le> a" using alloc_aligned assms by blast
  then obtain s2 where s2: "free a s1 = Some s2" "inv s2"
    "avail s2 = avail s1 \<union> ({unat a div 4096} \<inter> pages s1)"
    using free_returns [of s1 a] s1 by blast
  have "avail s2 = avail s"
    using s2(3) s1 alloc_page [OF assms] avail_pages [of s] by auto
  with s2 show thesis using that by simp
qed

lemma alloc_many_spec:
  assumes "inv s"
  shows "\<exists>as s'. alloc_many alloc n s = Some (as, s') \<and> inv s' \<and> length as = n \<and>
    distinct (filter (\<lambda>a. a \<noteq> 0) as) \<and>
    (\<forall>a \<in> set as. a \<noteq> 0 \<longrightarrow> unat a mod 4096 = 0 \<and> unat a div 4096 \<in> avail s - avail s') \<and>
    avail s' \<subseteq> avail s"
  using assms
proof (induction n arbitrary: s)
  case 0
  then show ?case by auto
next
  case (Suc n)
  obtain a s1 where a: "alloc s = Some (a, s1)" "inv s1" using alloc_returns Suc.prems by blast
  from Suc.IH [OF a(2)] obtain as s' where IH: "alloc_many alloc n s1 = Some (as, s')" "inv s'"
    "length as = n" "distinct (filter (\<lambda>a. a \<noteq> 0) as)" "avail s' \<subseteq> avail s1"
    "\<forall>a \<in> set as. a \<noteq> 0 \<longrightarrow> unat a mod 4096 = 0 \<and> unat a div 4096 \<in> avail s1 - avail s'" by blast
  have sub: "avail s1 \<subseteq> avail s"
    using alloc_page [OF Suc.prems a(1)] alloc_fail [OF Suc.prems] a(1) by (cases "a = 0") auto
  have here: "unat a mod 4096 = 0 \<and> unat a div 4096 \<in> avail s - avail s1" if "a \<noteq> 0"
    using alloc_page [OF Suc.prems a(1) that] by simp
  then have "a \<noteq> 0 \<Longrightarrow> a \<notin> set as" using IH(6) by blast
  then have "distinct (filter (\<lambda>a. a \<noteq> 0) (a # as))" using IH(4) by simp
  moreover have "\<forall>x \<in> set (a # as). x \<noteq> 0 \<longrightarrow> unat x mod 4096 = 0 \<and> unat x div 4096 \<in> avail s - avail s'"
  proof (intro ballI impI)
    fix x assume x: "x \<in> set (a # as)" "x \<noteq> 0"
    show "unat x mod 4096 = 0 \<and> unat x div 4096 \<in> avail s - avail s'"
    proof (cases "x = a")
      case True
      with x(2) have "a \<noteq> 0" by simp
      with here IH(5) show ?thesis unfolding True by blast
    next
      case False
      with x have "x \<in> set as" by simp
      with IH(6) x(2) sub show ?thesis by blast
    qed
  qed
  moreover have "alloc_many alloc (Suc n) s = Some (a # as, s')" using a(1) IH(1) by simp
  moreover have "length (a # as) = Suc n" "avail s' \<subseteq> avail s" using IH(3,5) sub by auto
  ultimately show ?case using IH(2) by blast
qed

end

interpretation pmm_pages: page_allocator pmm_alloc_page pmm_free_page pmm_ok managed free_pages
proof
  fix s a s' p
  show "\<exists>a s'. pmm_alloc_page s = Some (a, s') \<and> pmm_ok s' \<and> managed s' = managed s" if ok: "pmm_ok s"
    using ok
  proof (cases rule: pmm_alloc_page_cases)
    case none
    with ok show ?thesis by simp
  next
    case (page a s1 p)
    then have "managed s1 = managed s" by (simp add: managed_def)
    with page(1,4) show ?thesis by blast
  qed
  show "free_pages s = {} \<and> s' = s" if ok: "pmm_ok s" and eq: "pmm_alloc_page s = Some (0, s')"
    using ok
  proof (cases rule: pmm_alloc_page_cases)
    case none
    with eq show ?thesis by simp
  next
    case (page a s1 p)
    from page(1,3) eq have "p = 0" by simp
    with page(2) page_zero_not_free [OF ok] show ?thesis by simp
  qed
  show "unat a mod 4096 = 0 \<and> unat a div 4096 \<in> free_pages s \<and> free_pages s' = free_pages s - {unat a div 4096}"
    if ok: "pmm_ok s" and eq: "pmm_alloc_page s = Some (a, s')" and "a \<noteq> 0"
    using ok
  proof (cases rule: pmm_alloc_page_cases)
    case none
    with eq \<open>a \<noteq> 0\<close> show ?thesis by simp
  next
    case (page a1 s1 p)
    from page(1) eq have [simp]: "a1 = a" "s1 = s'" by simp_all
    from page(3) have "unat a div 4096 = p" by simp
    with page(2,3) free_pages_after_alloc [OF page(5,7)] show ?thesis by simp
  qed
  show "0 \<notin> free_pages s" if "pmm_ok s"
    using that by (rule page_zero_not_free)
  show "free_pages s \<subseteq> managed s" by (auto simp: free_pages_def)
  show "p < 1048576" if "pmm_ok s" "p \<in> managed s" using that by (rule managed_bound)
  show "\<exists>s'. pmm_free_page a s = Some s' \<and> pmm_ok s' \<and> managed s' = managed s \<and>
      free_pages s' = free_pages s \<union> ({unat a div 4096} \<inter> managed s)" if ok: "pmm_ok s" and a: "4096 \<le> a"
  proof -
    obtain s' where "pmm_free_page a s = Some s'" "pmm_ok s'" "usable_end_words s' = usable_end_words s"
      "\<And>q. page_used (pmm_bitmap s') q \<longleftrightarrow> page_used (pmm_bitmap s) q \<and> q \<noteq> unat a div 4096"
      by (rule pmm_free_page_eq [OF ok a]) blast
    then show ?thesis by (auto simp: free_pages_def managed_def)
  qed
qed

section \<open>Initialisation from the boot memory map\<close>

lemma pmm_fill_eq:
  "n \<le> length bm \<Longrightarrow> pmm_fill n bm = Some (replicate n BITMAP_ALL_BITS_SET @ drop n bm)"
proof (induction n)
  case 0
  then show ?case by (simp add: pmm_fill_def)
next
  case (Suc n)
  then have "pmm_fill (Suc n) bm = aset (replicate n BITMAP_ALL_BITS_SET @ drop n bm) n BITMAP_ALL_BITS_SET"
    by (simp add: pmm_fill_def)
  moreover have "drop n bm = bm ! n # drop (Suc n) bm"
    using Suc.prems by (simp add: Cons_nth_drop_Suc)
  moreover have "(replicate n BITMAP_ALL_BITS_SET @ bm ! n # drop (Suc n) bm)[n := BITMAP_ALL_BITS_SET] =
      replicate (Suc n) BITMAP_ALL_BITS_SET @ drop (Suc n) bm"
    using list_update_length [of "replicate n BITMAP_ALL_BITS_SET"]
    by (simp add: replicate_append_same flip: append_Cons)
  ultimately show ?case using Suc.prems by (simp only: aset_def) simp
qed

lemma page_used_fill:
  assumes "n \<le> length bm"
  shows "page_used (replicate n BITMAP_ALL_BITS_SET @ drop n bm) p \<longleftrightarrow> p div 32 < n \<or> page_used bm p"
  using assms by (auto simp: page_used_def nth_append all_bits_set_32)

lemma multiple_step:
  fixes a e n :: nat
  assumes "a < e" and "a mod n = 0" and "e mod n = 0"
  shows "a + n \<le> e"
proof -
  obtain i j where "a = n * i" "e = n * j" using assms(2,3) by (auto elim!: dvdE simp: mod_eq_0_iff_dvd)
  with assms(1) have "n * Suc i \<le> n * j" by (metis Suc_leI mult_less_cancel1 nat_mult_le_cancel_disj)
  with \<open>a = n * i\<close> \<open>e = n * j\<close> show ?thesis by simp
qed

lemma multiple_split:
  fixes a e n p :: nat
  assumes "a < e" and "a mod n = 0"
  shows "a \<le> n * p \<and> n * p < e \<longleftrightarrow> n * p = a \<or> a + n \<le> n * p \<and> n * p < e"
  using assms multiple_step [of a "n * p" n] by auto

lemma pmm_clear_range_spec:
  assumes "unat a mod 4096 = 0" and "unat e mod 4096 = 0" and "length bm = 32768"
  shows "\<exists>bm'. pmm_clear_range a e bm = Some bm' \<and> length bm' = 32768 \<and>
    (\<forall>p < 1048576. page_used bm' p \<longleftrightarrow>
       page_used bm p \<and> \<not> (unat a \<le> 4096 * p \<and> 4096 * p < unat e))"
  using assms(1,3)
proof (induction "unat e - unat a" arbitrary: a bm rule: less_induct)
  case less
  show ?case
  proof (cases "a < e")
    case False
    then show ?thesis
      using less.prems by (subst pmm_clear_range.simps) (auto simp: word_less_nat_alt)
  next
    case True
    then have lt: "unat a < unat e" by (simp add: word_less_nat_alt)
    have le: "unat a + 4096 \<le> unat e"
      by (rule multiple_step [OF lt less.prems(1) assms(2)])
    moreover have "unat e < 2 ^ 64" using unsigned_less [of e] by simp
    ultimately have nxt: "unat (a + 4096) = unat a + 4096"
      by (simp add: unat_word_ariths)
    let ?upd = "if a < 0x100000000 then clear_bit (ucast (a div 4096)) bm else Some bm"
    obtain bm1 where bm1: "?upd = Some bm1" "length bm1 = 32768"
      "\<And>p. p < 1048576 \<Longrightarrow> page_used bm1 p \<longleftrightarrow> page_used bm p \<and> 4096 * p \<noteq> unat a"
    proof (cases "a < 0x100000000")
      case True
      then have small: "unat a < 4294967296" by (simp add: word_less_nat_alt)
      have idx: "unat (ucast (a div 4096) :: u32) = unat a div 4096"
        using small by (simp add: unsigned_ucast_eq unat_div_distrib take_bit_nat_eq_self)
      have "unat (ucast (a div 4096) :: u32) div 32 < length bm"
        using small less.prems(2) by (simp add: idx)
      then obtain bm1 where "clear_bit (ucast (a div 4096)) bm = Some bm1" "length bm1 = length bm"
        "\<And>p. page_used bm1 p \<longleftrightarrow> page_used bm p \<and> p \<noteq> unat (ucast (a div 4096) :: u32)"
        using clear_bit_Some by blast
      moreover have "4096 * p = unat a \<longleftrightarrow> p = unat a div 4096" for p
        using less.prems(1) by auto
      ultimately show thesis
        using True less.prems(2) by (intro that [of bm1]) (auto simp: idx)
    next
      case False
      then have "4294967296 \<le> unat a" by (simp add: word_less_nat_alt)
      with False less.prems(2) show thesis by (intro that [of bm]) auto
    qed
    have "\<exists>bm'. pmm_clear_range (a + 4096) e bm1 = Some bm' \<and> length bm' = 32768 \<and>
      (\<forall>p < 1048576. page_used bm' p \<longleftrightarrow>
         page_used bm1 p \<and> \<not> (unat (a + 4096) \<le> 4096 * p \<and> 4096 * p < unat e))"
      by (rule less.hyps) (use lt nxt less.prems(1) bm1(2) in auto)
    then obtain bm' where bm': "pmm_clear_range (a + 4096) e bm1 = Some bm'" "length bm' = 32768"
      "\<And>p. p < 1048576 \<Longrightarrow> page_used bm' p \<longleftrightarrow>
         page_used bm1 p \<and> \<not> (unat a + 4096 \<le> 4096 * p \<and> 4096 * p < unat e)"
      unfolding nxt by blast
    have "pmm_clear_range a e bm = Some bm'"
      using True bm1(1) bm'(1) by (subst pmm_clear_range.simps) simp
    moreover have "page_used bm' p \<longleftrightarrow>
        page_used bm p \<and> \<not> (unat a \<le> 4096 * p \<and> 4096 * p < unat e)" if "p < 1048576" for p
    proof -
      have "unat a \<le> 4096 * p \<and> 4096 * p < unat e \<longleftrightarrow>
          4096 * p = unat a \<or> unat a + 4096 \<le> 4096 * p \<and> 4096 * p < unat e"
        using multiple_split [OF lt less.prems(1)] .
      with bm'(3) [OF that] bm1(3) [OF that] show ?thesis by blast
    qed
    ultimately show ?thesis using bm'(2) by blast
  qed
qed

lemma pmm_set_range_spec:
  assumes "unat a mod 4096 = 0" and "unat e \<le> 4294963200" and "length bm = 32768"
  shows "\<exists>bm'. pmm_set_range a e bm = Some bm' \<and> length bm' = 32768 \<and>
    (\<forall>p. page_used bm' p \<longleftrightarrow>
       page_used bm p \<or> (unat a \<le> 4096 * p \<and> 4096 * p < unat e))"
  using assms(1,3)
proof (induction "unat e - unat a" arbitrary: a bm rule: less_induct)
  case less
  show ?case
  proof (cases "a < e")
    case False
    then show ?thesis
      using less.prems by (subst pmm_set_range.simps) (auto simp: word_less_nat_alt)
  next
    case True
    then have lt: "unat a < unat e" by (simp add: word_less_nat_alt)
    then have nxt: "unat (a + 4096) = unat a + 4096"
      using assms(2) by (simp add: unat_word_ariths)
    have idx: "unat (a div 4096) = unat a div 4096" by (simp add: unat_div_distrib)
    have "unat (a div 4096) div 32 < length bm"
      using lt assms(2) less.prems(2) by (simp add: idx)
    then obtain bm1 where bm1: "set_bit_c (a div 4096) bm = Some bm1" "length bm1 = length bm"
      "\<And>p. page_used bm1 p \<longleftrightarrow> page_used bm p \<or> p = unat (a div 4096)"
      using set_bit_c_Some by blast
    have "\<exists>bm'. pmm_set_range (a + 4096) e bm1 = Some bm' \<and> length bm' = 32768 \<and>
      (\<forall>p. page_used bm' p \<longleftrightarrow>
         page_used bm1 p \<or> (unat (a + 4096) \<le> 4096 * p \<and> 4096 * p < unat e))"
      by (rule less.hyps) (use lt nxt less.prems bm1(2) in auto)
    then obtain bm' where bm': "pmm_set_range (a + 4096) e bm1 = Some bm'" "length bm' = 32768"
      "\<And>p. page_used bm' p \<longleftrightarrow>
         page_used bm1 p \<or> (unat a + 4096 \<le> 4096 * p \<and> 4096 * p < unat e)"
      unfolding nxt by blast
    have "pmm_set_range a e bm = Some bm'"
      using True bm1(1) bm'(1) by (subst pmm_set_range.simps) simp
    moreover have "page_used bm' p \<longleftrightarrow>
        page_used bm p \<or> (unat a \<le> 4096 * p \<and> 4096 * p < unat e)" for p
    proof -
      have "p = unat (a div 4096) \<longleftrightarrow> 4096 * p = unat a"
        using less.prems(1) by (auto simp: idx)
      with bm'(3) [of p] bm1(3) [of p] multiple_split [OF lt less.prems(1), of p]
      show ?thesis by blast
    qed
    ultimately show ?thesis using bm'(2) by blast
  qed
qed

text \<open>An entry as the memory map means it: the pages that lie wholly inside the region.\<close>

definition entry_ok :: "mmap_entry \<Rightarrow> bool" where
  "entry_ok e \<longleftrightarrow> unat (mm_addr e) + unat (mm_len e) + 4096 \<le> 2 ^ 64"

definition available :: "mmap_entry \<Rightarrow> nat \<Rightarrow> bool" where
  "available e p \<longleftrightarrow> mm_type e = MULTIBOOT_MEMORY_AVAILABLE \<and> unat (mm_addr e) \<le> 4096 * p \<and>
     4096 * p + 4096 \<le> unat (mm_addr e) + unat (mm_len e)"

lemma region_bounds:
  assumes "entry_ok e"
  shows "unat (region_start e) = (unat (mm_addr e) + 4095) div 4096 * 4096"
    and "unat (region_end e) = (unat (mm_addr e) + unat (mm_len e)) div 4096 * 4096"
proof -
  have "unat (mm_addr e + 4096 - 1) = unat (mm_addr e) + 4095"
    using assms by (simp add: entry_ok_def unat_word_ariths)
  then show "unat (region_start e) = (unat (mm_addr e) + 4095) div 4096 * 4096"
    by (simp add: region_start_def unat_align_4096)
  have "unat (mm_addr e + mm_len e) = unat (mm_addr e) + unat (mm_len e)"
    using assms by (simp add: entry_ok_def unat_word_ariths)
  then show "unat (region_end e) = (unat (mm_addr e) + unat (mm_len e)) div 4096 * 4096"
    by (simp add: region_end_def unat_align_4096)
qed

lemma round_up_le:
  fixes a p n :: nat
  assumes "0 < n"
  shows "(a + (n - 1)) div n * n \<le> n * p \<longleftrightarrow> a \<le> n * p"
proof -
  have "(a + (n - 1)) div n \<le> p \<longleftrightarrow> a + (n - 1) < n * Suc p"
    using assms by (metis div_less_iff_less_mult less_Suc_eq_le mult.commute)
  also have "\<dots> \<longleftrightarrow> a \<le> n * p" using assms by (auto simp: less_Suc_eq_le)
  finally show ?thesis using assms by (simp add: mult.commute [of n p])
qed

lemma round_down_less:
  fixes a p n :: nat
  assumes "0 < n"
  shows "n * p < a div n * n \<longleftrightarrow> n * p + n \<le> a"
proof -
  have "p < a div n \<longleftrightarrow> n * Suc p \<le> a"
    using assms by (metis Suc_le_eq less_eq_div_iff_mult_less_eq mult.commute)
  then show ?thesis using assms by (simp add: mult.commute [of n p] add.commute)
qed

lemma region_available:
  assumes "entry_ok e" and "mm_type e = 1"
  shows "unat (region_start e) \<le> 4096 * p \<and> 4096 * p < unat (region_end e) \<longleftrightarrow> available e p"
proof -
  have "unat (region_start e) \<le> 4096 * p \<longleftrightarrow> unat (mm_addr e) \<le> 4096 * p"
    using round_up_le [of 4096 "unat (mm_addr e)" p] unfolding region_bounds(1) [OF assms(1)] by simp
  moreover have "4096 * p < unat (region_end e) \<longleftrightarrow>
      4096 * p + 4096 \<le> unat (mm_addr e) + unat (mm_len e)"
    unfolding region_bounds(2) [OF assms(1)] by (rule round_down_less) simp
  ultimately show ?thesis using assms(2) by (simp only: available_def simp_thms)
qed

lemma pmm_init_entry_spec:
  assumes "entry_ok e" and "length bm = 32768"
  shows "\<exists>ue' bm'. pmm_init_entry e (ue, bm) = Some (ue', bm') \<and> length bm' = 32768 \<and>
    ue' = (if mm_type e = 1 then max ue (region_end e) else ue) \<and>
    (\<forall>p < 1048576. page_used bm' p \<longleftrightarrow> page_used bm p \<and> \<not> available e p)"
proof (cases "mm_type e = 1")
  case True
  have "unat (region_start e) mod 4096 = 0" "unat (region_end e) mod 4096 = 0"
    by (simp_all add: region_bounds [OF assms(1)])
  from pmm_clear_range_spec [OF this assms(2)] obtain bm' where
    "pmm_clear_range (region_start e) (region_end e) bm = Some bm'" "length bm' = 32768"
    "\<And>p. p < 1048576 \<Longrightarrow> page_used bm' p \<longleftrightarrow> page_used bm p \<and> \<not> available e p"
    unfolding region_available [OF assms(1) True] by blast
  with True show ?thesis by (auto simp: pmm_init_entry_def Let_def max_def)
next
  case False
  with assms(2) show ?thesis by (auto simp: pmm_init_entry_def available_def)
qed

text \<open>The entries the walk visits, as a list.\<close>

partial_function (option) mmap_entries :: "(u32 \<Rightarrow> u8) \<Rightarrow> u32 \<Rightarrow> u32 \<Rightarrow> mmap_entry list option" where
  "mmap_entries mem entry mmap_end =
     (if entry < mmap_end then do {
        es \<leftarrow> mmap_entries mem (entry + mm_size (load_mmap_entry mem entry) + 4) mmap_end;
        Some (load_mmap_entry mem entry # es) }
      else Some [])"

definition usable_of :: "mmap_entry list \<Rightarrow> u64 \<Rightarrow> u64" where
  "usable_of es ue = fold (\<lambda>e u. if mm_type e = 1 then max u (region_end e) else u) es ue"

lemma pmm_init_entries_spec:
  assumes "mmap_entries mem a z = Some es" and "\<forall>e \<in> set es. entry_ok e" and "length bm = 32768"
  shows "\<exists>bm'. pmm_init_entries mem a z (ue, bm) = Some (usable_of es ue, bm') \<and> length bm' = 32768 \<and>
    (\<forall>p < 1048576. page_used bm' p \<longleftrightarrow> page_used bm p \<and> \<not> (\<exists>e \<in> set es. available e p))"
proof -
  let ?P = "\<lambda>mem a z es. (\<forall>e \<in> set es. entry_ok e) \<longrightarrow> (\<forall>ue bm. length bm = 32768 \<longrightarrow>
    (\<exists>bm'. pmm_init_entries mem a z (ue, bm) = Some (usable_of es ue, bm') \<and> length bm' = 32768 \<and>
    (\<forall>p < 1048576. page_used bm' p \<longleftrightarrow> page_used bm p \<and> \<not> (\<exists>e \<in> set es. available e p))))"
  have "?P mem a z es"
  proof (rule mmap_entries.raw_induct [where P = ?P, OF _ assms(1)])
    fix walk mem a z es
    assume IH: "\<And>mem a z es. walk mem a z = Some es \<Longrightarrow> ?P mem a z es"
      and step: "(if a < z then walk mem (a + mm_size (load_mmap_entry mem a) + 4) z \<bind>
        (\<lambda>es. Some (load_mmap_entry mem a # es)) else Some []) = Some es"
    show "?P mem a z es"
    proof (intro impI allI)
      fix ue and bm :: "u32 list"
      assume ok: "\<forall>e \<in> set es. entry_ok e" and len: "length bm = 32768"
      show "\<exists>bm'. pmm_init_entries mem a z (ue, bm) = Some (usable_of es ue, bm') \<and> length bm' = 32768 \<and>
        (\<forall>p < 1048576. page_used bm' p \<longleftrightarrow> page_used bm p \<and> \<not> (\<exists>e \<in> set es. available e p))"
      proof (cases "a < z")
        case False
        with step have "es = []" by simp
        with False len show ?thesis by (subst pmm_init_entries.simps) (simp add: usable_of_def)
      next
        case True
        let ?e = "load_mmap_entry mem a"
        from step True obtain es1 where es1: "walk mem (a + mm_size ?e + 4) z = Some es1" "es = ?e # es1"
          by (auto split: bind_splits)
        obtain ue1 bm1 where e1: "pmm_init_entry ?e (ue, bm) = Some (ue1, bm1)" "length bm1 = 32768"
          "ue1 = (if mm_type ?e = 1 then max ue (region_end ?e) else ue)"
          "\<forall>p < 1048576. page_used bm1 p \<longleftrightarrow> page_used bm p \<and> \<not> available ?e p"
          using pmm_init_entry_spec [of ?e bm ue] ok len es1(2) by auto
        obtain bm' where b: "pmm_init_entries mem (a + mm_size ?e + 4) z (ue1, bm1) = Some (usable_of es1 ue1, bm')"
          "length bm' = 32768"
          "\<forall>p < 1048576. page_used bm' p \<longleftrightarrow> page_used bm1 p \<and> \<not> (\<exists>e \<in> set es1. available e p)"
          using IH [OF es1(1)] ok es1(2) e1(2) by (metis list.set_intros(2))
        have "pmm_init_entries mem a z (ue, bm) = Some (usable_of es ue, bm')"
          using True e1(1,3) b(1) es1(2) by (subst pmm_init_entries.simps) (simp add: usable_of_def)
        with b(2,3) e1(4) es1(2) show ?thesis by auto
      qed
    qed
  qed
  with assms(2,3) show ?thesis by blast
qed

lemma usable_of_aligned:
  assumes "unat ue mod 4096 = 0" and "\<forall>e \<in> set es. entry_ok e"
  shows "unat (usable_of es ue) mod 4096 = 0"
  using assms
  by (induction es arbitrary: ue) (auto simp: usable_of_def max_def region_bounds)

lemma usable_of_ge:
  "ue \<le> usable_of es ue \<and> (\<forall>e \<in> set es. mm_type e = 1 \<longrightarrow> region_end e \<le> usable_of es ue)"
proof (induction es arbitrary: ue)
  case Nil
  show ?case by (simp add: usable_of_def)
next
  case (Cons e es)
  let ?ue = "if mm_type e = 1 then max ue (region_end e) else ue"
  have "usable_of (e # es) ue = usable_of es ?ue" by (simp add: usable_of_def)
  moreover have "ue \<le> ?ue" "mm_type e = 1 \<Longrightarrow> region_end e \<le> ?ue" by auto
  ultimately show ?case using Cons.IH [of ?ue] by (auto intro: order_trans)
qed

lemma usable_of_le:
  assumes "ue \<le> m" and "\<forall>e \<in> set es. mm_type e = 1 \<longrightarrow> region_end e \<le> m"
  shows "usable_of es ue \<le> m"
  using assms by (induction es arbitrary: ue) (auto simp: usable_of_def)

lemma usable_words_eq:
  assumes "unat ue \<le> 4294967296" and "unat ue mod 4096 = 0"
  shows "unat (usable_words ue) = (unat ue div 4096 + 31) div 32"
proof -
  have "unat (ue + 4096 - 1) = unat ue + 4095"
    using assms(1) by (simp add: unat_word_ariths)
  then have "unat ((ue + 4096 - 1) div 4096) = unat ue div 4096"
    using assms(2) by (simp add: unat_div_distrib div_add1_eq [of "unat ue" 4095])
  then have "unat (ucast ((ue + 4096 - 1) div 4096) :: u32) = unat ue div 4096"
    using assms(1) by (simp add: unsigned_ucast_eq take_bit_nat_eq_self)
  then have "unat (ucast ((ue + 4096 - 1) div 4096) + 32 - 1 :: u32) = unat ue div 4096 + 31"
    using assms(1) by (simp add: unat_word_ariths)
  then show ?thesis by (simp add: usable_words_def)
qed

lemma pmm_init_bitmap:
  assumes walk: "mmap_entries mem mmap (mmap + len) = Some es" and ok: "\<forall>e \<in> set es. entry_ok e"
    and ks: "unat ks mod 4096 = 0" and ke: "unat (ke - 0xC0000000) \<le> 4294963200"
    and len: "length (pmm_bitmap s) = 32768"
  obtains s' where "pmm_init ks ke mem mmap len s = Some s'" and "length (pmm_bitmap s') = 32768"
    and "usable_end_words s' = usable_words (usable_of es 0)" and "last_alloc s' = last_alloc s"
    and "\<And>p. p < 1048576 \<Longrightarrow> page_used (pmm_bitmap s') p \<longleftrightarrow>
      \<not> (\<exists>e \<in> set es. available e p) \<or> p < 256 \<or> unat ks \<le> 4096 * p \<and> 4096 * p < unat (ke - 0xC0000000)"
proof -
  let ?b0 = "replicate 32768 BITMAP_ALL_BITS_SET @ drop 32768 (pmm_bitmap s)"
  have f0: "pmm_fill 32768 (pmm_bitmap s) = Some ?b0" using pmm_fill_eq [of 32768 "pmm_bitmap s"] len by simp
  have u0: "page_used ?b0 p" if "p < 1048576" for p
    using page_used_fill [of 32768 "pmm_bitmap s" p] len that
    by (simp add: div_less_iff_less_mult)
  obtain b1 where b1: "pmm_init_entries mem mmap (mmap + len) (0, ?b0) = Some (usable_of es 0, b1)"
    "length b1 = 32768"
    "\<forall>p < 1048576. page_used b1 p \<longleftrightarrow> page_used ?b0 p \<and> \<not> (\<exists>e \<in> set es. available e p)"
    using pmm_init_entries_spec [OF walk ok, of ?b0 0] len by auto
  let ?b2 = "replicate 8 BITMAP_ALL_BITS_SET @ drop 8 b1"
  have f2: "pmm_fill 8 b1 = Some ?b2" using pmm_fill_eq [of 8 b1] b1(2) by simp
  have u2: "page_used ?b2 p \<longleftrightarrow> p < 256 \<or> page_used b1 p" for p
    using page_used_fill [of 8 b1 p] b1(2) by auto
  obtain b3 where b3: "pmm_set_range ks (ke - 0xC0000000) ?b2 = Some b3" "length b3 = 32768"
    "\<forall>p. page_used b3 p \<longleftrightarrow>
       page_used ?b2 p \<or> (unat ks \<le> 4096 * p \<and> 4096 * p < unat (ke - 0xC0000000))"
    using pmm_set_range_spec [OF ks ke, of ?b2] b1(2) by auto
  show thesis
  proof (rule that)
    show "pmm_init ks ke mem mmap len s =
        Some (s\<lparr>pmm_bitmap := b3, usable_end_words := usable_words (usable_of es 0)\<rparr>)"
      using f0 b1(1) f2 b3(1) by (simp add: pmm_init_def)
  qed (use b3(2,3) b1(3) u0 u2 in auto)
qed

lemma available_below_end:
  assumes "available e p" and "entry_ok e"
  shows "p < unat (region_end e) div 4096"
proof -
  have "4096 * Suc p \<le> unat (mm_addr e) + unat (mm_len e)" using assms(1) by (simp add: available_def)
  then have "Suc p \<le> (unat (mm_addr e) + unat (mm_len e)) div 4096"
    by (simp add: less_eq_div_iff_mult_less_eq)
  then show ?thesis using assms(2) by (simp add: region_bounds)
qed

lemma div32_less: "p < n \<Longrightarrow> p div 32 < (n + 31) div (32::nat)"
  using div_le_mono [of "p + 32" "n + 31" 32] by simp

lemma usable_of_below_4gb:
  assumes "\<forall>e \<in> set es. entry_ok e" and "\<forall>e \<in> set es. mm_type e = 1 \<longrightarrow> unat (mm_addr e) + unat (mm_len e) \<le> 4294967296"
  shows "unat (usable_of es 0) \<le> 4294967296" and "unat (usable_of es 0) mod 4096 = 0"
proof -
  have "unat (region_end e) \<le> 4294967296" if "e \<in> set es" "mm_type e = 1" for e
    using that assms by (fastforce simp: region_bounds)
  then have "usable_of es 0 \<le> 0x100000000"
    by (intro usable_of_le) (auto simp: word_le_nat_alt)
  then show "unat (usable_of es 0) \<le> 4294967296" by (simp add: word_le_nat_alt)
  show "unat (usable_of es 0) mod 4096 = 0"
    by (rule usable_of_aligned) (use assms(1) in auto)
qed

text \<open>C1. Initialisation from the boot memory map.  For a memory map whose available regions end
  at or below 4 GB, \<open>pmm_init\<close> terminates, establishes the allocator's invariant, and the free pages
  are exactly the pages that lie wholly inside an available region, outside the first 256 pages, and
  outside the kernel image.\<close>

theorem pmm_init_free_pages:
  assumes "mmap_entries mem mmap (mmap + len) = Some es" and "\<forall>e \<in> set es. entry_ok e"
    and "\<forall>e \<in> set es. mm_type e = 1 \<longrightarrow> unat (mm_addr e) + unat (mm_len e) \<le> 4294967296"
    and "unat ks mod 4096 = 0" and "unat (ke - 0xC0000000) \<le> 4294963200"
    and "length (pmm_bitmap s) = 32768" and "last_alloc s = 0"
  shows "\<exists>s'. pmm_init ks ke mem mmap len s = Some s' \<and> pmm_ok s' \<and>
    free_pages s' = {p. (\<exists>e \<in> set es. available e p) \<and> 256 \<le> p \<and>
      \<not> (unat ks \<le> 4096 * p \<and> 4096 * p < unat (ke - 0xC0000000))}"
proof -
  obtain s' where s': "pmm_init ks ke mem mmap len s = Some s'" "length (pmm_bitmap s') = 32768"
    "usable_end_words s' = usable_words (usable_of es 0)" "last_alloc s' = last_alloc s"
    "\<And>p. p < 1048576 \<Longrightarrow> page_used (pmm_bitmap s') p \<longleftrightarrow>
      \<not> (\<exists>e \<in> set es. available e p) \<or> p < 256 \<or> unat ks \<le> 4096 * p \<and> 4096 * p < unat (ke - 0xC0000000)"
    by (rule pmm_init_bitmap [OF assms(1,2,4,5,6)]) (rule that)
  have u: "unat (usable_of es 0) \<le> 4294967296" "unat (usable_of es 0) mod 4096 = 0"
    using usable_of_below_4gb assms(2,3) by blast+
  have w: "unat (usable_end_words s') = (unat (usable_of es 0) div 4096 + 31) div 32"
    using usable_words_eq [OF u] s'(3) by simp
  have bound: "unat (usable_end_words s') \<le> 32768" using u(1) by (simp add: w)
  have top: "p < unat (usable_of es 0) div 4096" if "e \<in> set es" and "available e p" for e p
    using available_below_end [of e p] usable_of_ge [of 0 es] that assms(2)
    by (fastforce simp: word_le_nat_alt available_def)
  have av: "p \<in> managed s' \<and> p < 1048576" if "e \<in> set es" and "available e p" for e p
  proof -
    have "unat (usable_of es 0) div 4096 \<le> 4294967296 div 4096" using u(1) by (rule div_le_mono)
    then have "p < 1048576" using top [OF that] by simp
    moreover have "p div 32 < (unat (usable_of es 0) div 4096 + 31) div 32"
      using top [OF that] by (rule div32_less)
    ultimately show ?thesis by (simp add: managed_def w)
  qed
  have mg: "p < 1048576" if "p \<in> managed s'" for p
    using that bound by (simp add: managed_def)
  have "p \<in> free_pages s' \<longleftrightarrow> (\<exists>e \<in> set es. available e p) \<and> 256 \<le> p \<and>
      \<not> (unat ks \<le> 4096 * p \<and> 4096 * p < unat (ke - 0xC0000000))" for p
    using av [of _ p] mg [of p] s'(5) [of p]
    unfolding free_pages_def mem_Collect_eq not_less [symmetric] by blast
  then have "free_pages s' = {p. (\<exists>e \<in> set es. available e p) \<and> 256 \<le> p \<and>
      \<not> (unat ks \<le> 4096 * p \<and> 4096 * p < unat (ke - 0xC0000000))}" by blast
  moreover have "pmm_ok s'"
    using s'(2,4) s'(5) [of 0] bound assms(7) by (simp add: pmm_ok_def word_gt_0)
  ultimately show ?thesis using s'(1) by blast
qed

definition one_entry_mem :: "u32 \<Rightarrow> u8" where
  "one_entry_mem = (\<lambda>a. 0)(0 := 20, 6 := 0x10, 14 := 0x70, 20 := 1)"

lemma one_entry_walk:
  "mmap_entries one_entry_mem 0 (0 + 24) =
     Some [\<lparr>mm_size = 20, mm_addr = 0x100000, mm_len = 0x700000, mm_type = 1\<rparr>]"
  by (subst mmap_entries.simps, subst mmap_entries.simps)
     (simp add: one_entry_mem_def load_mmap_entry_def ld32_def ld64_def of_le32_def of_le64_def)

theorem pmm_init_free_pages_witness:
  "\<exists>s'. pmm_init 0x100000 0xC0200000 one_entry_mem 0 24
       \<lparr>pmm_bitmap = replicate 32768 0, usable_end_words = 0, last_alloc = 0\<rparr> = Some s' \<and> pmm_ok s' \<and>
     1000 \<in> free_pages s' \<and> 300 \<notin> free_pages s'"
  using pmm_init_free_pages [OF one_entry_walk, where ks = "0x100000" and ke = "0xC0200000" and
      s = "\<lparr>pmm_bitmap = replicate 32768 0, usable_end_words = 0, last_alloc = 0\<rparr>"]
  by (auto simp: entry_ok_def available_def)

text \<open>C19. Allocation is a next-fit search.  From a good state
  \<open>pmm_alloc_page\<close> always returns.  It returns 0, changing nothing, exactly when no page is free;
  otherwise it returns the address of the lowest free page of the first bitmap word with a free page
  in the cyclic order that starts at \<open>last_alloc\<close>, removes exactly that page from the free pages, leaves
  \<open>last_alloc\<close> at that word, where the next search starts, and keeps the invariant.\<close>

theorem pmm_alloc_next_fit:
  assumes "pmm_ok s"
  shows "free_pages s = {} \<and> pmm_alloc_page s = Some (0, s) \<or>
    (\<exists>p a s'. pmm_alloc_page s = Some (a, s') \<and> p \<in> free_pages s \<and> unat a = p * 4096 \<and> pmm_ok s' \<and>
       free_pages s' = free_pages s - {p} \<and> usable_end_words s' = usable_end_words s \<and>
       unat (last_alloc s') = p div 32 \<and>
       find (word_has_free s) (scan_order (unat (usable_end_words s)) (unat (last_alloc s))
         (unat (last_alloc s))) = Some (p div 32) \<and>
       (\<forall>q \<in> free_pages s. q div 32 = p div 32 \<longrightarrow> p \<le> q))"
  using assms
proof (cases rule: pmm_alloc_page_cases)
  case none
  then show ?thesis by simp
next
  case (page a s' p)
  with free_pages_after_alloc [OF page(5,7)] show ?thesis by blast
qed

definition two_word_pmm :: pmm where
  "two_word_pmm = \<lparr>pmm_bitmap = (replicate 32768 0xFFFFFFFF)[1 := 0xFFFFFFF7], usable_end_words = 2,
     last_alloc = 0\<rparr>"

lemma two_word_pmm_ok: "pmm_ok two_word_pmm"
  by (simp add: two_word_pmm_def pmm_ok_def page_used_def all_bits_set_32)

lemma two_word_pmm_free: "35 \<in> free_pages two_word_pmm"
  by (simp add: two_word_pmm_def free_pages_def managed_def page_used_def bit_numeral_rec)

theorem pmm_alloc_next_fit_witness:
  "\<exists>p a s'. pmm_alloc_page two_word_pmm = Some (a, s') \<and> p \<in> free_pages two_word_pmm \<and> unat a = p * 4096 \<and>
     free_pages s' = free_pages two_word_pmm - {p} \<and> unat (last_alloc s') = p div 32 \<and> pmm_ok s'"
  using pmm_alloc_next_fit [OF two_word_pmm_ok] two_word_pmm_free by blast

text \<open>C20. No page is handed out twice.  Any number of successive calls of
  \<open>pmm_alloc_page\<close> returns, the addresses returned are page aligned and pairwise different, and every
  page handed out was free before and is not free afterwards.\<close>

theorem pmm_alloc_no_double:
  assumes "pmm_ok s"
  shows "\<exists>as s'. alloc_many pmm_alloc_page n s = Some (as, s') \<and> pmm_ok s' \<and> length as = n \<and>
    distinct (filter (\<lambda>a. a \<noteq> 0) as) \<and>
    (\<forall>a \<in> set as. a \<noteq> 0 \<longrightarrow> unat a mod 4096 = 0 \<and> unat a div 4096 \<in> free_pages s - free_pages s') \<and>
    free_pages s' \<subseteq> free_pages s"
  by (rule pmm_pages.alloc_many_spec [OF assms])

theorem pmm_alloc_no_double_witness:
  "\<exists>as s'. alloc_many pmm_alloc_page 2 two_word_pmm = Some (as, s') \<and> length as = 2 \<and>
     distinct (filter (\<lambda>a. a \<noteq> 0) as)"
  using pmm_alloc_no_double [OF two_word_pmm_ok, of 2] by blast

text \<open>C21. Freeing a page that was just allocated restores the set of
  free pages, and the page can be allocated again.\<close>

theorem pmm_alloc_free_roundtrip:
  assumes "pmm_ok s" and "pmm_alloc_page s = Some (a, s1)" and "a \<noteq> 0"
  shows "\<exists>s2. pmm_free_page a s1 = Some s2 \<and> pmm_ok s2 \<and> free_pages s2 = free_pages s"
  using pmm_pages.alloc_free_restores [OF assms] by blast

lemma two_word_pmm_alloc: "\<exists>a s'. pmm_alloc_page two_word_pmm = Some (a, s') \<and> a \<noteq> 0"
proof -
  obtain a s' where a: "pmm_alloc_page two_word_pmm = Some (a, s')"
    using pmm_pages.alloc_returns [OF two_word_pmm_ok] by blast
  then have "a \<noteq> 0"
    using pmm_pages.alloc_fail [OF two_word_pmm_ok, of s'] two_word_pmm_free by auto
  with a show ?thesis by blast
qed

theorem pmm_alloc_free_roundtrip_witness:
  "\<exists>a s1 s2. pmm_alloc_page two_word_pmm = Some (a, s1) \<and> pmm_free_page a s1 = Some s2 \<and>
     free_pages s2 = free_pages two_word_pmm"
  using two_word_pmm_alloc pmm_alloc_free_roundtrip [OF two_word_pmm_ok] by blast

subsection \<open>Memory above 4 GB\<close>

text \<open>The bitmap has 32768 words.  When \<open>usable_end_words\<close> exceeds that and no word below has a
  free page, the scan reads past the bitmap.\<close>

lemma pmm_alloc_overrun:
  assumes "length (pmm_bitmap s) = 32768" and "32768 < unat (usable_end_words s)"
    and "\<forall>w \<in> set (pmm_bitmap s). w = 0xFFFFFFFF" and "last_alloc s = 0"
  shows "pmm_alloc_page s = None"
proof -
  have "pmm_alloc_scan 0 (of_nat j) s = None" if "j \<le> 32768" for j :: nat
    using that
  proof (induction rule: inc_induct)
    case base
    then show ?case using assms(1) by (subst pmm_alloc_scan.simps) (simp add: aget_def)
  next
    case (step j)
    have j: "unat (of_nat j :: u32) = j" using step.hyps by (simp only: unat_of_nat) simp
    have "pmm_bitmap s ! j = 0xFFFFFFFF" using assms(1,3) step.hyps by simp
    moreover have "unat (of_nat j + 1 :: u32) = j + 1" using j step.hyps by (simp add: unat_word_ariths)
    then have "\<not> usable_end_words s \<le> of_nat j + 1" "of_nat j + 1 \<noteq> (0 :: u32)"
      using assms(2) step.hyps by (auto simp: word_le_nat_alt)
    ultimately show ?case
      using step.IH step.hyps assms(1) j
      by (subst pmm_alloc_scan.simps) (simp add: add.commute)
  qed
  from this [of 0] assms(2,4) show ?thesis by (auto simp: pmm_alloc_page_def)
qed

lemma pmm_init_above_4gb:
  "\<exists>e. entry_ok e \<and> mm_type e = 1 \<and> unat (usable_words (usable_of [e] 0)) = 65536"
  by (intro exI [of _ "\<lparr>mm_size = 20, mm_addr = 0x100000000, mm_len = 0x100000000, mm_type = 1\<rparr>"])
     (simp add: entry_ok_def usable_of_def usable_words_def region_end_def)

end
