(* ===== verification/Cstring.thy ===== *)
theory Cstring
  imports Prelude
begin

text \<open>
  \<open>lib/string.c\<close>: the memory and string routines on a flat 32-bit byte memory.  Address arithmetic wraps
  at 2^32 as it does on the machine; a string routine that finds no NUL does not return (\<open>None\<close>).
\<close>

type_synonym memory = "u32 \<Rightarrow> u8"

section \<open>Memory routines\<close>

text \<open>The loop of \<open>memcmp\<close> from index \<open>i\<close> on.\<close>

function memcmp_from :: "memory \<Rightarrow> u32 \<Rightarrow> u32 \<Rightarrow> u32 \<Rightarrow> u32 \<Rightarrow> int" where
  "memcmp_from m a b i n =
     (if i < n then
        if m (a + i) < m (b + i) then - 1 else if m (b + i) < m (a + i) then 1 else memcmp_from m a b (i + 1) n
      else 0)"
  by pat_completeness auto
termination
proof (relation "measure (\<lambda>(_, _, _, i, n). unat n - unat i)", goal_cases)
  case (2 m a b i n)
  then have "unat (i + 1) = unat i + 1" "unat i < unat n"
    by (simp_all add: unat_plus_one word_less_nat_alt)
  then show ?case by simp
qed simp

declare memcmp_from.simps [simp del]

definition memcmp :: "memory \<Rightarrow> u32 \<Rightarrow> u32 \<Rightarrow> u32 \<Rightarrow> int" where
  "memcmp m aptr bptr sz = memcmp_from m aptr bptr 0 sz"

text \<open>One assignment \<open>dst[i] = src[i]\<close>, and the ascending and descending copy loops.\<close>

definition copy_byte :: "u32 \<Rightarrow> u32 \<Rightarrow> nat \<Rightarrow> memory \<Rightarrow> memory" where
  "copy_byte dst src i m = m(dst + of_nat i := m (src + of_nat i))"

definition memcpy :: "memory \<Rightarrow> u32 \<Rightarrow> u32 \<Rightarrow> u32 \<Rightarrow> memory" where
  "memcpy m dst src sz = fold (copy_byte dst src) [0..<unat sz] m"

definition memmove :: "memory \<Rightarrow> u32 \<Rightarrow> u32 \<Rightarrow> u32 \<Rightarrow> memory" where
  "memmove m dst src sz =
     (if dst < src then fold (copy_byte dst src) [0..<unat sz] m
      else fold (copy_byte dst src) (rev [0..<unat sz]) m)"

definition memset :: "memory \<Rightarrow> u32 \<Rightarrow> int \<Rightarrow> u32 \<Rightarrow> memory" where
  "memset m buf val sz = fold (\<lambda>i m. m(buf + of_nat i := of_int val)) [0..<unat sz] m"

section \<open>String routines\<close>

partial_function (option) strlen_from :: "memory \<Rightarrow> u32 \<Rightarrow> u32 \<Rightarrow> u32 option" where
  "strlen_from m str len = (if m (str + len) \<noteq> 0 then strlen_from m str (len + 1) else Some len)"

definition strlen :: "memory \<Rightarrow> u32 \<Rightarrow> u32 option" where
  "strlen m str = strlen_from m str 0"

partial_function (option) strcpy :: "memory \<Rightarrow> u32 \<Rightarrow> u32 \<Rightarrow> memory option" where
  "strcpy m dest src =
     (if m src \<noteq> 0 then strcpy (m(dest := m src)) (dest + 1) (src + 1) else Some (m(dest := m src)))"

partial_function (option) strcmp :: "memory \<Rightarrow> u32 \<Rightarrow> u32 \<Rightarrow> int option" where
  "strcmp m s1 s2 =
     (if m s1 \<noteq> 0 \<and> m s1 = m s2 then strcmp m (s1 + 1) (s2 + 1) else Some (uint (m s1) - uint (m s2)))"

partial_function (option) strncmp :: "memory \<Rightarrow> u32 \<Rightarrow> u32 \<Rightarrow> u32 \<Rightarrow> int option" where
  "strncmp m s1 s2 n =
     (if n \<noteq> 0 \<and> m s1 \<noteq> 0 \<and> m s1 = m s2 then strncmp m (s1 + 1) (s2 + 1) (n - 1)
      else if n = 0 then Some 0 else Some (uint (m s1) - uint (m s2)))"

section \<open>Blocks of memory\<close>

text \<open>\<open>bytes m p n\<close> are the \<open>n\<close> bytes at \<open>p\<close>; \<open>cstr m p s\<close> says that the NUL-terminated string at \<open>p\<close>
  has the characters \<open>s\<close>.\<close>

definition bytes :: "memory \<Rightarrow> u32 \<Rightarrow> nat \<Rightarrow> u8 list" where
  "bytes m p n = map (\<lambda>i. m (p + of_nat i)) [0..<n]"

primrec cstr :: "memory \<Rightarrow> u32 \<Rightarrow> u8 list \<Rightarrow> bool" where
  "cstr m p [] \<longleftrightarrow> m p = 0"
| "cstr m p (c # cs) \<longleftrightarrow> c \<noteq> 0 \<and> m p = c \<and> cstr m (p + 1) cs"

text \<open>\<open>p\<close> lies outside the \<open>n\<close> bytes at \<open>q\<close>, in wrapping arithmetic.\<close>

definition outside :: "u32 \<Rightarrow> u32 \<Rightarrow> nat \<Rightarrow> bool" where
  "outside p q n \<longleftrightarrow> n \<le> unat (p - q)"

lemma length_bytes [simp]: "length (bytes m p n) = n"
  by (simp add: bytes_def)

lemma bytes_0 [simp]: "bytes m p 0 = []"
  by (simp add: bytes_def)

lemma bytes_Suc: "bytes m p (Suc n) = m p # bytes m (p + 1) n"
  by (simp add: bytes_def map_upt_Suc add.assoc del: upt_Suc)

section \<open>Copying\<close>

text \<open>Memory after the \<open>n\<close> bytes at \<open>src\<close> were copied, all at once, to \<open>dst\<close>.\<close>

definition moved :: "memory \<Rightarrow> u32 \<Rightarrow> u32 \<Rightarrow> nat \<Rightarrow> memory" where
  "moved m dst src n = (\<lambda>p. if unat (p - dst) < n then m (src + (p - dst)) else m p)"

lemma moved_0 [simp]: "moved m dst src 0 = m"
  by (simp add: moved_def)

lemma diff_eq_of_nat: "k < 2 ^ 32 \<Longrightarrow> unat (p - q :: u32) = k \<longleftrightarrow> p = q + of_nat k"
proof
  assume h: "unat (p - q) = k"
  have "p = q + of_nat (unat (p - q))" by simp
  with h show "p = q + of_nat k" by simp
qed (simp add: unat_of_nat32)

lemma moved_Suc:
  assumes "n < 2 ^ 32"
  shows "moved m dst src (Suc n) = (moved m dst src n)(dst + of_nat n := m (src + of_nat n))"
  using diff_eq_of_nat [OF assms] by (auto simp: moved_def fun_eq_iff less_Suc_eq unat_of_nat32 [OF assms])

lemma unat_pred32: "(x :: u32) \<noteq> 0 \<Longrightarrow> unat x = Suc (unat (x - 1))"
  by (metis Suc_eq_plus1 add.commute diff_add_cancel unat_minus_one unat_plus_one word_neq_0_conv word_pred_def
      Suc_pred' unat_gt_0)

lemma moved_shift:
  assumes "n < 2 ^ 32" "\<And>i. i < n \<Longrightarrow> src + (1 + of_nat i) \<noteq> dst"
  shows "moved (m(dst := m src)) (dst + 1) (src + 1) n = moved m dst src (Suc n)"
proof
  fix x
  let ?d = "x - dst"
  have e: "x - (dst + 1) = ?d - 1" "src + 1 + (x - (dst + 1)) = src + ?d" by simp_all
  show "moved (m(dst := m src)) (dst + 1) (src + 1) n x = moved m dst src (Suc n) x"
  proof (cases "?d = 0")
    case True
    then have "x = dst" by simp
    moreover have "\<not> unat (- 1 :: u32) < n" using assms(1) by (simp add: unsigned_minus_1_eq_mask mask_eq_exp_minus_1)
    ultimately show ?thesis by (simp add: moved_def)
  next
    case False
    then have d: "unat ?d = Suc (unat (?d - 1))" and x: "x \<noteq> dst" by (simp_all add: unat_pred32)
    have "src + ?d \<noteq> dst" if "unat (?d - 1) < n" using assms(2) [OF that] by simp
    then show ?thesis unfolding moved_def e d using x by simp
  qed
qed

lemma copy_up:
  assumes "n \<le> 2 ^ 32" "\<And>k i. k < n \<Longrightarrow> i < k \<Longrightarrow> src + of_nat k \<noteq> dst + of_nat i"
  shows "fold (copy_byte dst src) [0..<n] m = moved m dst src n"
  using assms
proof (induction n)
  case (Suc n)
  have n: "n < 2 ^ 32" using Suc.prems(1) by simp
  have "\<not> unat (src + of_nat n - dst) < n"
  proof
    assume L: "unat (src + of_nat n - dst) < n"
    then have "src + of_nat n = dst + of_nat (unat (src + of_nat n - dst))" by simp
    with Suc.prems(2) [of n "unat (src + of_nat n - dst)"] L show False by simp
  qed
  then have r: "moved m dst src n (src + of_nat n) = m (src + of_nat n)" by (simp add: moved_def)
  have "copy_byte dst src n (moved m dst src n) = moved m dst src (Suc n)"
    unfolding copy_byte_def r moved_Suc [OF n] ..
  with Suc show ?case by simp
qed simp

lemma copy_down:
  assumes "n \<le> 2 ^ 32" "\<And>k i. i < n \<Longrightarrow> k < i \<Longrightarrow> src + of_nat k \<noteq> dst + of_nat i"
  shows "fold (copy_byte dst src) (rev [0..<n]) m = moved m dst src n"
  using assms
proof (induction n arbitrary: m)
  case (Suc n)
  have n: "n < 2 ^ 32" using Suc.prems(1) by simp
  let ?m = "copy_byte dst src n m"
  have keep: "?m (src + (p - dst)) = m (src + (p - dst))" if "unat (p - dst) < n" for p
    using Suc.prems(2) [of n "unat (p - dst)"] that by (simp add: copy_byte_def)
  have "moved ?m dst src n = moved m dst src (Suc n)"
    unfolding moved_Suc [OF n]
    by (rule ext) (use keep in \<open>simp add: moved_def, simp add: copy_byte_def unat_of_nat32 [OF n]\<close>)
  moreover have "fold (copy_byte dst src) (rev [0..<n]) ?m = moved ?m dst src n"
    by (rule Suc.IH) (use Suc.prems in auto)
  ultimately show ?case by simp
qed simp

lemma plus_of_nat_less:
  assumes "unat p + n \<le> 2 ^ 32" "i < n"
  shows "unat (p + of_nat i :: u32) = unat p + i"
  using assms by (subst unat_plus_no_wrap) (auto simp: unat_of_nat32)

lemma memcpy_moved:
  assumes "\<And>i j. i < unat n \<Longrightarrow> j < unat n \<Longrightarrow> src + of_nat i \<noteq> dst + of_nat j"
  shows "memcpy m dst src n = moved m dst src (unat n)"
  unfolding memcpy_def using assms unat_bound32 [of n] by (intro copy_up) auto

lemma memset_loop:
  assumes "n \<le> 2 ^ 32"
  shows "fold (\<lambda>i m. m(p + of_nat i := v)) [0..<n] m = (\<lambda>q :: u32. if unat (q - p) < n then v else m q)"
  using assms
proof (induction n)
  case (Suc n)
  then have n: "n < 2 ^ 32" by simp
  with Suc show ?case
    by (auto simp: fun_eq_iff less_Suc_eq diff_eq_of_nat [OF n] unat_of_nat32 [OF n])
qed simp

text \<open>C34. \<open>memmove\<close> copies every byte as it was before the call, also when the two
  areas overlap, and changes nothing outside the destination.\<close>

theorem memmove_overlap:
  assumes "unat dst + unat n \<le> 2 ^ 32" "unat src + unat n \<le> 2 ^ 32"
  shows "bytes (memmove m dst src n) dst (unat n) = bytes m src (unat n) \<and>
    (\<forall>p. unat n \<le> unat (p - dst) \<longrightarrow> memmove m dst src n p = m p)"
proof -
  have ne: "src + of_nat k \<noteq> dst + of_nat i" if "unat src + k \<noteq> unat dst + i" "k < unat n" "i < unat n" for k i
    using that plus_of_nat_less [OF assms(1), of i] plus_of_nat_less [OF assms(2), of k] by metis
  have n: "unat n \<le> 2 ^ 32" using unat_bound32 [of n] by simp
  have "memmove m dst src n = moved m dst src (unat n)"
  proof (cases "dst < src")
    case True
    then have "unat dst < unat src" by (simp add: word_less_nat_alt)
    then show ?thesis unfolding memmove_def if_P [OF True] by (intro copy_up [OF n] ne) auto
  next
    case False
    then have "unat src \<le> unat dst" by (simp add: word_less_nat_alt)
    then show ?thesis unfolding memmove_def if_not_P [OF False] by (intro copy_down [OF n] ne) auto
  qed
  then show ?thesis using unat_bound32 [of n] by (auto simp: bytes_def moved_def unat_of_nat32)
qed

theorem memmove_overlap_witness:
  "bytes (memmove (\<lambda>p. ucast p) 0x102 0x100 4) 0x102 4 = [0, 1, 2, 3]"
  using memmove_overlap [of "0x102" 4 "0x100" "\<lambda>p. ucast p"] by (simp add: bytes_def upt_rec)

section \<open>Strings\<close>

lemma strlen_from_cstr: "cstr m (p + len) s \<Longrightarrow> strlen_from m p len = Some (len + of_nat (length s))"
  by (induction s arbitrary: len) (auto simp: strlen_from.simps [of m p] add.assoc)

lemma strlen_cstr: "cstr m p s \<Longrightarrow> strlen m p = Some (of_nat (length s))"
  unfolding strlen_def using strlen_from_cstr [of m p 0 s] by simp

lemma cstr_cong:
  "(\<And>i. i \<le> length s \<Longrightarrow> m' (p + of_nat i) = m (p + of_nat i)) \<Longrightarrow> cstr m' p s = cstr m p s"
proof (induction s arbitrary: p)
  case (Cons c s)
  have "cstr m' (p + 1) s = cstr m (p + 1) s"
    by (rule Cons.IH) (use Cons.prems [of "Suc i" for i] in \<open>simp add: add.assoc\<close>)
  moreover have "m' p = m p" using Cons.prems [of 0] by simp
  ultimately show ?case by simp
next
  case Nil
  from Nil [of 0] show ?case by simp
qed

lemma strcpy_moved:
  assumes "cstr m src s" "length s < 2 ^ 32"
    "\<And>i j. i \<le> length s \<Longrightarrow> j \<le> length s \<Longrightarrow> src + of_nat i \<noteq> dst + of_nat j"
  shows "strcpy m dst src = Some (moved m dst src (length s + 1))"
  using assms
proof (induction s arbitrary: m src dst)
  case Nil
  then show ?case by (subst strcpy.simps) (auto simp: moved_def fun_eq_iff unat_eq_zero)
next
  case (Cons c s)
  let ?m = "m(dst := m src)"
  have ne: "src + of_nat i \<noteq> dst + of_nat j" if "i \<le> Suc (length s)" "j \<le> Suc (length s)" for i j
    using Cons.prems(3) that by simp
  have "cstr ?m (src + 1) s"
    using Cons.prems(1) ne [of "Suc i" 0 for i] by (subst cstr_cong [where m = m]) (auto simp: add.assoc)
  then have "strcpy ?m (dst + 1) (src + 1) = Some (moved ?m (dst + 1) (src + 1) (length s + 1))"
    by (rule Cons.IH) (use Cons.prems(2) ne [of "Suc i" "Suc j" for i j] in \<open>auto simp: add.assoc\<close>)
  moreover have "moved ?m (dst + 1) (src + 1) (length s + 1) = moved m dst src (Suc (length s) + 1)"
    using moved_shift [of "length s + 1" src dst m] Cons.prems(2) ne [of "Suc i" 0 for i] by (simp add: add.assoc)
  ultimately show ?case using Cons.prems(1) by (subst strcpy.simps) simp
qed

lemma cstr_shift: "cstr m src s = cstr (\<lambda>p. m (src + (p - dst))) dst s"
proof (induction s arbitrary: src dst)
  case (Cons c s)
  have "src + 1 + (p - (dst + 1)) = src + (p - dst)" for p by simp
  with Cons.IH [of "src + 1" "dst + 1"] show ?case by simp
qed simp

lemma cstr_moved:
  assumes "cstr m src s" "length s < 2 ^ 32"
  shows "cstr (moved m dst src (length s + 1)) dst s"
proof -
  have "cstr (moved m dst src (length s + 1)) dst s = cstr (\<lambda>p. m (src + (p - dst))) dst s"
    using assms(2) by (intro cstr_cong) (simp add: moved_def unat_of_nat32)
  also have "\<dots> \<longleftrightarrow> cstr m src s"
    by (rule sym, rule cstr_shift)
  finally show ?thesis using assms(1) by simp
qed

text \<open>C35. When the destination does not overlap the source string, \<open>strcpy\<close> returns;
  it leaves the same string at the destination and the rest of memory as it was, exactly as a \<open>memcpy\<close>
  of \<open>strlen(src) + 1\<close> bytes does.\<close>

theorem strcpy_correct:
  assumes "cstr m src s" "length s + 1 < 2 ^ 32"
    "\<And>i j. i \<le> length s \<Longrightarrow> j \<le> length s \<Longrightarrow> src + of_nat i \<noteq> dst + of_nat j"
  shows "strcpy m dst src = Some (memcpy m dst src (of_nat (length s) + 1)) \<and>
    strlen m src = Some (of_nat (length s)) \<and>
    (\<exists>m'. strcpy m dst src = Some m' \<and> cstr m' dst s \<and> (\<forall>p. length s < unat (p - dst) \<longrightarrow> m' p = m p))"
proof -
  have n: "unat (of_nat (length s) + 1 :: u32) = length s + 1"
    using assms(2) unat_of_nat32 [of "length s + 1"] by (simp add: add.commute)
  have "memcpy m dst src (of_nat (length s) + 1) = moved m dst src (length s + 1)"
    unfolding n [symmetric] using assms(3) by (intro memcpy_moved) (simp add: n)
  moreover have "strcpy m dst src = Some (moved m dst src (length s + 1))"
    using assms by (intro strcpy_moved) simp_all
  moreover have "cstr (moved m dst src (length s + 1)) dst s"
    using assms by (intro cstr_moved) simp_all
  ultimately show ?thesis using strlen_cstr [OF assms(1)] by (auto simp: moved_def)
qed

theorem strcpy_correct_witness:
  "\<exists>m'. strcpy ((\<lambda>_. 0)(0 := 0x68, 1 := 0x69)) 16 0 = Some m' \<and> cstr m' 16 [0x68, 0x69]"
proof -
  let ?m = "(\<lambda>_. 0)(0 := 0x68, 1 := 0x69) :: memory"
  have c: "cstr ?m 0 [0x68, 0x69]" by simp
  have "0 + of_nat i \<noteq> (16 + of_nat j :: u32)" if "i \<le> length [0x68, 0x69 :: u8]" "j \<le> length [0x68, 0x69 :: u8]" for i j
    using that unat_of_nat32 [of i] unat_of_nat32 [of "16 + j"] by auto
  from strcpy_correct [OF c _ this] show ?thesis by auto
qed

text \<open>C36. On two NUL-terminated strings \<open>strcmp\<close> returns, and the sign of its result is
  their lexicographic order as unsigned bytes; it is zero exactly when they are equal.\<close>

theorem strcmp_order:
  assumes "cstr m p s" "cstr m q t"
  shows "\<exists>r. strcmp m p q = Some r \<and> (r = 0 \<longleftrightarrow> s = t) \<and> (r < 0 \<longleftrightarrow> ord_class.lexordp s t)"
  using assms
proof (induction s arbitrary: p q t)
  case Nil
  then show ?case by (cases t) (auto simp: strcmp.simps [of m p] uint_0_iff word_neq_0_conv word_less_def)
next
  case (Cons c s)
  show ?case
  proof (cases t)
    case Nil
    with Cons.prems show ?thesis by (auto simp: strcmp.simps [of m p] uint_0_iff not_less)
  next
    case (Cons d t')
    show ?thesis
    proof (cases "c = d")
      case True
      with Cons Cons.prems Cons.IH [of "p + 1" "q + 1" t'] show ?thesis by (auto simp: strcmp.simps [of m p])
    next
      case False
      with Cons Cons.prems show ?thesis by (auto simp: strcmp.simps [of m p] word_less_def word_uint_eq_iff)
    qed
  qed
qed

theorem strcmp_order_witness:
  "\<exists>r. strcmp ((\<lambda>_. 0)(0 := 0x61, 1 := 0x62, 16 := 0x62)) 0 16 = Some r \<and> r < 0"
  using strcmp_order [of "(\<lambda>_. 0)(0 := 0x61, 1 := 0x62, 16 := 0x62)" 0 "[0x61, 0x62]" 16 "[0x62]"] by auto

end
