(* ===== verification/Buffer.thy ===== *)
theory Buffer
  imports Prelude
begin

text \<open>
  Byte buffers: the blocks and on-disk structures the file system code copies with
  \<open>memcpy\<close> and reads through pointers to packed structs.  An access that leaves the buffer is
  undefined behaviour and gives \<open>None\<close>.
\<close>

definition buf_get :: "u8 list \<Rightarrow> nat \<Rightarrow> nat \<Rightarrow> u8 list option" where
  "buf_get b off n = (if off + n \<le> length b then Some (take n (drop off b)) else None)"

definition buf_put :: "u8 list \<Rightarrow> nat \<Rightarrow> u8 list \<Rightarrow> u8 list option" where
  "buf_put b off xs =
     (if off + length xs \<le> length b then Some (take off b @ xs @ drop (off + length xs) b) else None)"

definition dec16 :: "u8 list \<Rightarrow> u16" where
  "dec16 xs = of_le16 (xs ! 0) (xs ! 1)"

definition dec32 :: "u8 list \<Rightarrow> u32" where
  "dec32 xs = of_le32 (xs ! 0) (xs ! 1) (xs ! 2) (xs ! 3)"

definition get8 :: "u8 list \<Rightarrow> nat \<Rightarrow> u8 option" where
  "get8 b off = aget b off"

definition get16 :: "u8 list \<Rightarrow> nat \<Rightarrow> u16 option" where
  "get16 b off = map_option dec16 (buf_get b off 2)"

definition get32 :: "u8 list \<Rightarrow> nat \<Rightarrow> u32 option" where
  "get32 b off = map_option dec32 (buf_get b off 4)"

definition put8 :: "u8 list \<Rightarrow> nat \<Rightarrow> u8 \<Rightarrow> u8 list option" where
  "put8 b off w = buf_put b off [w]"

definition put16 :: "u8 list \<Rightarrow> nat \<Rightarrow> u16 \<Rightarrow> u8 list option" where
  "put16 b off w = buf_put b off (le16 w)"

definition put32 :: "u8 list \<Rightarrow> nat \<Rightarrow> u32 \<Rightarrow> u8 list option" where
  "put32 b off w = buf_put b off (le32 w)"

section \<open>Laws\<close>

lemma dec16_le16 [simp]: "dec16 (le16 w) = w"
  using of_le16_le16 by (simp only: dec16_def)

lemma dec32_le32 [simp]: "dec32 (le32 w) = w"
  using of_le32_le32 by (simp only: dec32_def)

lemma not_bit_u8: "8 \<le> n \<Longrightarrow> \<not> bit (w :: u8) n"
  using bit_imp_le_length [of w n] by auto

lemma le16_dec16 [simp]: "length xs = 2 \<Longrightarrow> le16 (dec16 xs) = xs"
proof -
  assume "length xs = 2"
  then obtain a b where "xs = [a, b]" by (auto simp: numeral_2_eq_2 length_Suc_conv)
  moreover have "ucast (of_le16 a b) = a" "ucast (drop_bit 8 (of_le16 a b)) = b"
    by (auto intro!: bit_word_eqI simp: of_le16_def bit_simps not_bit_u8)
  ultimately show ?thesis by (simp add: le16_def dec16_def)
qed

lemma le32_dec32 [simp]: "length xs = 4 \<Longrightarrow> le32 (dec32 xs) = xs"
proof -
  assume "length xs = 4"
  then obtain a b c d where "xs = [a, b, c, d]" by (auto simp: eval_nat_numeral length_Suc_conv)
  moreover have "ucast (of_le32 a b c d) = a" "ucast (drop_bit 8 (of_le32 a b c d)) = b"
    "ucast (drop_bit 16 (of_le32 a b c d)) = c" "ucast (drop_bit 24 (of_le32 a b c d)) = d"
    by (auto intro!: bit_word_eqI simp: of_le32_def bit_simps not_bit_u8)
  ultimately show ?thesis by (simp add: le32_def dec32_def)
qed

lemma buf_get_in [simp]: "off + n \<le> length b \<Longrightarrow> buf_get b off n = Some (take n (drop off b))"
  by (simp add: buf_get_def)

lemma buf_put_in: "off + length xs \<le> length b \<Longrightarrow>
    buf_put b off xs = Some (take off b @ xs @ drop (off + length xs) b)"
  by (simp add: buf_put_def)

lemma buf_put_Some:
  "buf_put b off xs = Some b' \<longleftrightarrow>
     off + length xs \<le> length b \<and> b' = take off b @ xs @ drop (off + length xs) b"
  by (auto simp: buf_put_def)

lemma buf_put_length: "buf_put b off xs = Some b' \<Longrightarrow> length b' = length b"
  by (auto simp: buf_put_Some)

lemma buf_get_put_same:
  "buf_put b off xs = Some b' \<Longrightarrow> n = length xs \<Longrightarrow> buf_get b' off n = Some xs"
  by (auto simp: buf_put_Some buf_get_def)

lemma buf_get_put_other:
  assumes "buf_put b off xs = Some b'" and "o' + n \<le> off \<or> off + length xs \<le> o'"
  shows "buf_get b' o' n = buf_get b o' n"
  using assms(2)
proof
  assume "o' + n \<le> off"
  moreover from assms(1) have "b' = take off b @ xs @ drop (off + length xs) b" "off + length xs \<le> length b"
    by (auto simp: buf_put_Some)
  ultimately show ?thesis by (simp add: buf_get_def drop_take min.absorb1)
next
  assume le: "off + length xs \<le> o'"
  from assms(1) have b': "b' = take off b @ xs @ drop (off + length xs) b" "off + length xs \<le> length b"
    by (auto simp: buf_put_Some)
  have "drop o' b' = drop o' b"
    using le b'(2) by (simp add: b'(1))
  with b' show ?thesis by (auto simp: buf_get_def)
qed

lemma buf_put_id: "buf_get b off n = Some xs \<Longrightarrow> buf_put b off xs = Some b"
proof -
  assume "buf_get b off n = Some xs"
  then have le: "off + n \<le> length b" and xs: "xs = take n (drop off b)"
    by (auto simp: buf_get_def split: if_splits)
  have "take off b @ take n (drop off b) @ drop (off + n) b = b"
    by (metis append_take_drop_id drop_drop add.commute)
  with le xs show ?thesis by (simp add: buf_put_def)
qed

lemma nth_buf_put:
  assumes "buf_put b off xs = Some b'" and "i < length b"
  shows "b' ! i = (if off \<le> i \<and> i < off + length xs then xs ! (i - off) else b ! i)"
  using assms by (auto simp: buf_put_Some nth_append min_def)

lemma get_put_lengths:
  "put8 b off w8 = Some b' \<Longrightarrow> length b' = length b"
  "put16 b off w16 = Some b' \<Longrightarrow> length b' = length b"
  "put32 b off w32 = Some b' \<Longrightarrow> length b' = length b"
  by (auto simp: put8_def put16_def put32_def dest: buf_put_length)

lemma put_in:
  "off < length b \<Longrightarrow> \<exists>b'. put8 b off w8 = Some b'"
  "off + 2 \<le> length b \<Longrightarrow> \<exists>b'. put16 b off w16 = Some b'"
  "off + 4 \<le> length b \<Longrightarrow> \<exists>b'. put32 b off w32 = Some b'"
  by (auto simp: put8_def put16_def put32_def buf_put_def)

lemma get32_put32_same [word_array]: "put32 b off w = Some b' \<Longrightarrow> get32 b' off = Some w"
  by (auto simp: put32_def get32_def dest: buf_get_put_same [where n = 4])

lemma get32_put32_other [word_array]:
  "put32 b off w = Some b' \<Longrightarrow> o' + 4 \<le> off \<or> off + 4 \<le> o' \<Longrightarrow> get32 b' o' = get32 b o'"
  using buf_get_put_other [of b off "le32 w" b' o' 4] by (simp add: put32_def get32_def)

lemma get32_in: "off + 4 \<le> length b \<Longrightarrow> get32 b off = Some (dec32 (take 4 (drop off b)))"
  by (simp add: get32_def)

lemma get32_replicate [simp]: "off + 4 \<le> n \<Longrightarrow> get32 (replicate n 0) off = Some 0"
  by (simp add: get32_def dec32_def of_le32_def)

end
