(* ===== verification/Device.thy ===== *)
theory Device
  imports Buffer
begin

text \<open>
  Block devices: \<open>struct block_device\<close> with its table of operations
  (\<open>include/drivers/block_device.h\<close>), the registry of \<open>drivers/block_device.c\<close>, and the interface
  \<open>block_storage\<close> that the file system relies on and a driver has to provide.
\<close>

section \<open>The device structure\<close>

record bdev =
  bd_major :: u32
  bd_minor :: u32
  bd_block_size :: u32
  bd_capacity :: u32
  bd_base_port :: u16
  bd_drive_type :: u8
  bd_is_exists :: bool
  bd_name :: string

text \<open>
  The operations run on the state \<open>'d\<close> of the driver and its hardware.  A read gets the contents of
  the caller's buffer and returns the contents afterwards, so that a failing read shows what it left
  behind.  An operation that does not return, or that accesses memory outside the buffer, gives
  \<open>None\<close>.  A NULL entry of the C table is a field with value \<open>None\<close>.
\<close>

type_synonym 'd read_op = "bdev \<Rightarrow> u32 \<Rightarrow> u8 list \<Rightarrow> 'd \<Rightarrow> (int \<times> u8 list \<times> 'd) option"
type_synonym 'd write_op = "bdev \<Rightarrow> u32 \<Rightarrow> u8 list \<Rightarrow> 'd \<Rightarrow> (int \<times> 'd) option"
type_synonym 'd reads_op = "bdev \<Rightarrow> u32 \<Rightarrow> u32 \<Rightarrow> u8 list \<Rightarrow> 'd \<Rightarrow> (int \<times> u8 list \<times> 'd) option"
type_synonym 'd writes_op = "bdev \<Rightarrow> u32 \<Rightarrow> u32 \<Rightarrow> u8 list \<Rightarrow> 'd \<Rightarrow> (int \<times> 'd) option"

record 'd block_device_ops =
  op_read_block :: "'d read_op option"
  op_write_block :: "'d write_op option"
  op_read_blocks :: "'d reads_op option"
  op_write_blocks :: "'d writes_op option"

record 'd block_device =
  bd_info :: bdev
  bd_ops :: "'d block_device_ops option"

section \<open>The registry\<close>

text \<open>
  Devices are known by address; 0 is NULL.  The registry is the array of 16 pointers together with
  the structures they point to.
\<close>

abbreviation (input) MAX_BLOCK_DEVICES :: nat where "MAX_BLOCK_DEVICES \<equiv> 16"

record 'd bdev_registry =
  block_devices :: "u32 list"
  bdev_at :: "u32 \<Rightarrow> 'd block_device"

function register_from :: "nat \<Rightarrow> u32 \<Rightarrow> u32 list \<Rightarrow> int \<times> u32 list" where
  "register_from i dev slots =
     (if i < MAX_BLOCK_DEVICES then
        if slots ! i = 0 then (0, slots[i := dev]) else register_from (i + 1) dev slots
      else (- 1, slots))"
  by pat_completeness auto
termination by (relation "measure (\<lambda>(i, _, _). 16 - i)") auto

definition block_device_register :: "u32 \<Rightarrow> 'd bdev_registry \<Rightarrow> int \<times> 'd bdev_registry" where
  "block_device_register dev r =
     (if dev = 0 \<or> bd_ops (bdev_at r dev) = None then (- 1, r)
      else let (ret, slots) = register_from 0 dev (block_devices r)
           in (ret, r\<lparr>block_devices := slots\<rparr>))"

function unregister_from :: "nat \<Rightarrow> u32 \<Rightarrow> u32 list \<Rightarrow> int \<times> u32 list" where
  "unregister_from i dev slots =
     (if i < MAX_BLOCK_DEVICES then
        if slots ! i = dev then (0, slots[i := 0]) else unregister_from (i + 1) dev slots
      else (- 1, slots))"
  by pat_completeness auto
termination by (relation "measure (\<lambda>(i, _, _). 16 - i)") auto

definition block_device_unregister :: "u32 \<Rightarrow> 'd bdev_registry \<Rightarrow> int \<times> 'd bdev_registry" where
  "block_device_unregister dev r =
     (if dev = 0 then (- 1, r)
      else let (ret, slots) = unregister_from 0 dev (block_devices r)
           in (ret, r\<lparr>block_devices := slots\<rparr>))"

function get_from :: "nat \<Rightarrow> u32 \<Rightarrow> u32 \<Rightarrow> 'd bdev_registry \<Rightarrow> u32" where
  "get_from i major minor r =
     (if i < MAX_BLOCK_DEVICES then
        let p = block_devices r ! i in
        if p \<noteq> 0 \<and> bd_major (bd_info (bdev_at r p)) = major \<and> bd_minor (bd_info (bdev_at r p)) = minor
        then p else get_from (i + 1) major minor r
      else 0)"
  by pat_completeness auto
termination by (relation "measure (\<lambda>(i, _, _, _). 16 - i)") auto

definition block_device_get :: "u32 \<Rightarrow> u32 \<Rightarrow> 'd bdev_registry \<Rightarrow> u32" where
  "block_device_get major minor r = get_from 0 major minor r"

definition block_device_put :: "u32 \<Rightarrow> 'd bdev_registry \<Rightarrow> 'd bdev_registry" where
  "block_device_put dev r = r"

declare register_from.simps [simp del] unregister_from.simps [simp del] get_from.simps [simp del]

section \<open>The registry as a search over the slots\<close>

lemma register_from_eq:
  assumes "i \<le> 16"
  shows "register_from i dev slots =
    (case find (\<lambda>j. slots ! j = 0) [i..<16] of None \<Rightarrow> (- 1, slots) | Some j \<Rightarrow> (0, slots[j := dev]))"
  using assms
proof (induction rule: inc_induct)
  case base
  then show ?case by (simp add: register_from.simps)
next
  case (step i)
  then show ?case by (subst register_from.simps) (simp add: upt_conv_Cons)
qed

lemma unregister_from_eq:
  assumes "i \<le> 16"
  shows "unregister_from i dev slots =
    (case find (\<lambda>j. slots ! j = dev) [i..<16] of None \<Rightarrow> (- 1, slots) | Some j \<Rightarrow> (0, slots[j := 0]))"
  using assms
proof (induction rule: inc_induct)
  case base
  then show ?case by (simp add: unregister_from.simps)
next
  case (step i)
  then show ?case by (subst unregister_from.simps) (simp add: upt_conv_Cons)
qed

definition has_id :: "'d bdev_registry \<Rightarrow> u32 \<Rightarrow> u32 \<Rightarrow> u32 \<Rightarrow> bool" where
  "has_id r major minor p \<longleftrightarrow>
     p \<noteq> 0 \<and> bd_major (bd_info (bdev_at r p)) = major \<and> bd_minor (bd_info (bdev_at r p)) = minor"

lemma get_from_eq:
  assumes "i \<le> 16"
  shows "get_from i major minor r =
    (case find (\<lambda>j. has_id r major minor (block_devices r ! j)) [i..<16] of None \<Rightarrow> 0
     | Some j \<Rightarrow> block_devices r ! j)"
  using assms
proof (induction rule: inc_induct)
  case base
  then show ?case by (simp add: get_from.simps)
next
  case (step i)
  then show ?case by (subst get_from.simps) (simp add: upt_conv_Cons has_id_def Let_def)
qed

lemma find_upt_Some:
  "find P [0..<n] = Some j \<longleftrightarrow> j < n \<and> P j \<and> (\<forall>k < j. \<not> P k)"
  by (auto simp: find_Some_iff)

text \<open>The registry as a table from device numbers to devices.\<close>

lemma get_first: "block_device_get major minor r =
    (case find (\<lambda>j. has_id r major minor (block_devices r ! j)) [0..<16] of None \<Rightarrow> 0 | Some j \<Rightarrow> block_devices r ! j)"
  unfolding block_device_get_def by (rule get_from_eq) simp

lemma get_none: "block_device_get major minor r = 0 \<longleftrightarrow> (\<forall>j < 16. \<not> has_id r major minor (block_devices r ! j))"
proof (cases "find (\<lambda>j. has_id r major minor (block_devices r ! j)) [0..<16]")
  case None
  then have "block_device_get major minor r = 0" by (simp add: get_first)
  moreover have "\<forall>j < 16. \<not> has_id r major minor (block_devices r ! j)" using None by (simp add: find_None_iff)
  ultimately show ?thesis by simp
next
  case (Some j)
  then have "j < 16" "has_id r major minor (block_devices r ! j)" by (auto simp: find_upt_Some)
  then show ?thesis using Some by (auto simp: get_first has_id_def)
qed

lemma get_only:
  assumes "j < 16" "\<And>i. i < 16 \<Longrightarrow> has_id r major minor (block_devices r ! i) \<longleftrightarrow> i = j"
  shows "block_device_get major minor r = block_devices r ! j"
proof -
  have "find (\<lambda>j. has_id r major minor (block_devices r ! j)) [0..<16] = Some j" using assms by (auto simp: find_upt_Some)
  then show ?thesis by (simp add: get_first)
qed

lemma get_cong:
  assumes "\<And>i. i < 16 \<Longrightarrow> block_devices r' ! i \<noteq> block_devices r ! i \<Longrightarrow>
      \<not> has_id r' major minor (block_devices r' ! i) \<and> \<not> has_id r major minor (block_devices r ! i)"
    and "bdev_at r' = bdev_at r"
  shows "block_device_get major minor r' = block_device_get major minor r"
proof -
  have h: "has_id r' major minor p = has_id r major minor p" for p using assms(2) by (simp add: has_id_def)
  have "find (\<lambda>j. has_id r' major minor (block_devices r' ! j)) [0..<16] = find (\<lambda>j. has_id r major minor (block_devices r ! j)) [0..<16]"
  proof (rule find_cong [OF refl])
    fix i assume "i \<in> set [0..<16]"
    then show "has_id r' major minor (block_devices r' ! i) = has_id r major minor (block_devices r ! i)"
      using assms(1) [of i] h by (cases "block_devices r' ! i = block_devices r ! i") auto
  qed
  moreover have "block_devices r' ! j = block_devices r ! j" if "find (\<lambda>j. has_id r major minor (block_devices r ! j)) [0..<16] = Some j" for j
    using that assms(1) [of j] by (auto simp: find_upt_Some)
  ultimately show ?thesis by (auto simp: get_first split: option.split)
qed

text \<open>C33. The registry is a table from device numbers to devices.  When a slot is free
  and no registered device has the numbers of \<open>dev\<close>, registering \<open>dev\<close> succeeds; a lookup of its numbers then returns
  \<open>dev\<close> itself, and a lookup of any other numbers what it returned before.  Unregistering \<open>dev\<close> succeeds and restores
  every lookup, so its numbers give NULL again.\<close>

theorem block_device_register_get:
  assumes "length (block_devices r) = 16" and "dev \<noteq> 0" and "bd_ops (bdev_at r dev) \<noteq> None" and "0 \<in> set (block_devices r)"
    and "block_device_get (bd_major (bd_info (bdev_at r dev))) (bd_minor (bd_info (bdev_at r dev))) r = 0"
  shows "\<exists>r1 r2. block_device_register dev r = (0, r1) \<and>
    (\<forall>major minor. block_device_get major minor r1 =
       (if major = bd_major (bd_info (bdev_at r dev)) \<and> minor = bd_minor (bd_info (bdev_at r dev)) then dev
        else block_device_get major minor r)) \<and>
    block_device_unregister dev r1 = (0, r2) \<and>
    (\<forall>major minor. block_device_get major minor r2 = block_device_get major minor r)"
proof -
  let ?s = "block_devices r" and ?M = "bd_major (bd_info (bdev_at r dev))" and ?N = "bd_minor (bd_info (bdev_at r dev))"
  obtain j0 where "j0 < 16" "?s ! j0 = 0" using assms(1,4) by (metis in_set_conv_nth)
  then obtain j where j: "find (\<lambda>j. ?s ! j = 0) [0..<16] = Some j"
    by (cases "find (\<lambda>j. ?s ! j = 0) [0..<16]") (auto simp: find_None_iff)
  then have lt: "j < 16" "?s ! j = 0" by (auto simp: find_upt_Some)
  let ?r1 = "r\<lparr>block_devices := ?s[j := dev]\<rparr>"
  have id: "has_id r major minor dev \<longleftrightarrow> major = ?M \<and> minor = ?N" for major minor using assms(2) by (auto simp: has_id_def)
  have id1: "has_id ?r1 major minor p \<longleftrightarrow> has_id r major minor p" for major minor p by (simp add: has_id_def)
  have nth: "?s[j := dev] ! i = (if i = j then dev else ?s ! i)" if "i < 16" for i using that assms(1) by simp
  have other: "\<not> has_id r ?M ?N (?s ! i)" if "i < 16" for i using assms(5) that by (simp add: get_none)
  have fresh: "?s ! i \<noteq> dev" if "i < 16" for i using other [OF that] id by auto
  have reg: "block_device_register dev r = (0, ?r1)"
    using assms(2,3) j by (simp add: block_device_register_def register_from_eq)
  have own: "block_device_get ?M ?N ?r1 = dev"
    using get_only [OF lt(1), of ?r1 ?M ?N] nth other id by (simp add: id1 lt(1))
  have rest: "block_device_get major minor ?r1 = block_device_get major minor r" if "\<not> (major = ?M \<and> minor = ?N)" for major minor
    by (rule get_cong) (use nth lt id that in \<open>auto simp: id1 has_id_def split: if_splits\<close>)
  have "find (\<lambda>k. ?s[j := dev] ! k = dev) [0..<16] = Some j"
    using lt nth fresh by (auto simp: find_upt_Some)
  then have "block_device_unregister dev ?r1 = (0, ?r1\<lparr>block_devices := ?s[j := dev, j := 0]\<rparr>)"
    using assms(2) by (simp add: block_device_unregister_def unregister_from_eq)
  moreover have "?s[j := dev, j := 0] = ?s" using lt by (metis list_update_id list_update_overwrite)
  ultimately have "block_device_unregister dev ?r1 = (0, r)" by simp
  with reg own rest show ?thesis by (intro exI [of _ ?r1] exI [of _ r]) simp
qed

definition sample_bdev :: "u32 \<Rightarrow> unit block_device" where
  "sample_bdev minor = \<lparr>bd_info = \<lparr>bd_major = 3, bd_minor = minor, bd_block_size = 512, bd_capacity = 0,
     bd_base_port = 0x1F0, bd_drive_type = 0, bd_is_exists = True, bd_name = ''hda''\<rparr>,
   bd_ops = Some \<lparr>op_read_block = None, op_write_block = None, op_read_blocks = None, op_write_blocks = None\<rparr>\<rparr>"

text \<open>The device at \<open>0x1000\<close> with minor number 0 is registered; the one at \<open>0x2000\<close>, with minor number 1, is added and removed.\<close>

definition sample_registry :: "unit bdev_registry" where
  "sample_registry = \<lparr>block_devices = 0x1000 # replicate 15 0, bdev_at = (\<lambda>p. sample_bdev (if p = 0x2000 then 1 else 0))\<rparr>"

theorem block_device_register_get_witness:
  "\<exists>r1 r2. block_device_register 0x2000 sample_registry = (0, r1) \<and> block_device_get 3 0 r1 = 0x1000 \<and>
     block_device_get 3 1 r1 = 0x2000 \<and> block_device_unregister 0x2000 r1 = (0, r2) \<and> block_device_get 3 1 r2 = 0 \<and>
     block_device_get 3 0 r2 = 0x1000"
proof -
  have g: "block_device_get 3 0 sample_registry = 0x1000" "block_device_get 3 1 sample_registry = 0"
    by (simp_all add: get_first has_id_def sample_registry_def sample_bdev_def upt_rec)
  have f: "bd_major (bd_info (bdev_at sample_registry 0x2000)) = 3" "bd_minor (bd_info (bdev_at sample_registry 0x2000)) = 1"
    "bd_ops (bdev_at sample_registry 0x2000) \<noteq> None" "length (block_devices sample_registry) = 16" "0 \<in> set (block_devices sample_registry)"
    by (simp_all add: sample_registry_def sample_bdev_def)
  from block_device_register_get [OF f(4) _ f(3) f(5)] g f(1, 2) show ?thesis by fastforce
qed

section \<open>The interface of a storage device\<close>

text \<open>
  The contract between the file system and a driver.  \<open>bd\<close> is the device structure, with its block
  size already set by the mount.  \<open>view d b\<close> is the contents of block \<open>b\<close> in driver state \<open>d\<close>, \<open>ready\<close>
  the driver's invariant and \<open>valid\<close> the blocks that exist.
\<close>

locale block_storage =
  fixes bd :: "'d block_device"
    and rd :: "'d read_op" and wr :: "'d write_op"
    and view :: "'d \<Rightarrow> u32 \<Rightarrow> u8 list"
    and ready :: "'d \<Rightarrow> bool"
    and valid :: "u32 \<Rightarrow> bool"
    and bs :: nat
  assumes has_ops: "\<exists>ops. bd_ops bd = Some ops \<and> op_read_block ops = Some rd \<and> op_write_block ops = Some wr"
    and read_returns: "ready d \<Longrightarrow> valid b \<Longrightarrow> length buf = bs \<Longrightarrow>
      \<exists>d'. rd (bd_info bd) b buf d = Some (0, view d b, d') \<and> ready d' \<and> view d' = view d"
    and write_returns: "ready d \<Longrightarrow> valid b \<Longrightarrow> length buf = bs \<Longrightarrow>
      \<exists>d'. wr (bd_info bd) b buf d = Some (0, d') \<and> ready d' \<and>
        (\<forall>c. valid c \<longrightarrow> view d' c = (if c = b then buf else view d c))"
    and view_length: "ready d \<Longrightarrow> valid b \<Longrightarrow> length (view d b) = bs"

end
