(* ===== verification/Ext2_Types.thy ===== *)
theory Ext2_Types
  imports Device
begin

text \<open>
  The on-disk structures of ext2 (\<open>include/fs/ext2/ext2.h\<close>) as records, with the packed byte layout
  the code reads and writes by casting buffers to the structs, and the VFS inode with its ext2 private
  data.  The fields after \<open>s_feature_ro_compat\<close>, which no code reads, are kept as raw bytes.
\<close>

abbreviation (input) EXT2_SUPERBLOCK_OFFSET :: nat where "EXT2_SUPERBLOCK_OFFSET \<equiv> 1024"
abbreviation (input) EXT2_MAGIC :: u16 where "EXT2_MAGIC \<equiv> 0xEF53"
abbreviation (input) EXT2_ROOT_INO :: u32 where "EXT2_ROOT_INO \<equiv> 2"
abbreviation (input) EXT2_MIN_BLOCK_SIZE :: u32 where "EXT2_MIN_BLOCK_SIZE \<equiv> 1024"
abbreviation (input) EXT2_MAX_BLOCK_SIZE :: u32 where "EXT2_MAX_BLOCK_SIZE \<equiv> 4096"
abbreviation (input) EXT2_DYNAMIC_REV :: u32 where "EXT2_DYNAMIC_REV \<equiv> 1"
abbreviation (input) EXT2_FT_UNKNOWN :: u8 where "EXT2_FT_UNKNOWN \<equiv> 0"
abbreviation (input) EXT2_FT_REG_FILE :: u8 where "EXT2_FT_REG_FILE \<equiv> 1"
abbreviation (input) EXT2_FT_DIR :: u8 where "EXT2_FT_DIR \<equiv> 2"
abbreviation (input) EXT2_FT_CHRDEV :: u8 where "EXT2_FT_CHRDEV \<equiv> 3"
abbreviation (input) EXT2_FT_BLKDEV :: u8 where "EXT2_FT_BLKDEV \<equiv> 4"
abbreviation (input) EXT2_FT_FIFO :: u8 where "EXT2_FT_FIFO \<equiv> 5"
abbreviation (input) EXT2_FT_SOCK :: u8 where "EXT2_FT_SOCK \<equiv> 6"
abbreviation (input) EXT2_FT_SYMLINK :: u8 where "EXT2_FT_SYMLINK \<equiv> 7"

text \<open>The octal constants of \<open>include/fs/types.h\<close>.\<close>

abbreviation (input) FS_FILE_TYPE_MASK :: u32 where "FS_FILE_TYPE_MASK \<equiv> 0xF000"
abbreviation (input) FS_FILE_TYPE_SOCKET :: u32 where "FS_FILE_TYPE_SOCKET \<equiv> 0xC000"
abbreviation (input) FS_FILE_TYPE_LINK :: u32 where "FS_FILE_TYPE_LINK \<equiv> 0xA000"
abbreviation (input) FS_FILE_TYPE_BLOCK :: u32 where "FS_FILE_TYPE_BLOCK \<equiv> 0x6000"
abbreviation (input) FS_FILE_TYPE_DIR :: u32 where "FS_FILE_TYPE_DIR \<equiv> 0x4000"
abbreviation (input) FS_FILE_TYPE_CHAR :: u32 where "FS_FILE_TYPE_CHAR \<equiv> 0x2000"
abbreviation (input) FS_FILE_TYPE_FIFO :: u32 where "FS_FILE_TYPE_FIFO \<equiv> 0x1000"
abbreviation (input) FS_FILE_TYPE_REGULAR :: u32 where "FS_FILE_TYPE_REGULAR \<equiv> 0x8000"

definition FS_IS_DIR :: "u32 \<Rightarrow> bool" where
  "FS_IS_DIR mode \<longleftrightarrow> mode AND FS_FILE_TYPE_MASK = FS_FILE_TYPE_DIR"

definition FS_IS_FILE :: "u32 \<Rightarrow> bool" where
  "FS_IS_FILE mode \<longleftrightarrow> mode AND FS_FILE_TYPE_MASK = FS_FILE_TYPE_REGULAR"

section \<open>Layout\<close>

definition at16 :: "u8 list \<Rightarrow> nat \<Rightarrow> u16" where
  "at16 b off = dec16 (take 2 (drop off b))"

definition at32 :: "u8 list \<Rightarrow> nat \<Rightarrow> u32" where
  "at32 b off = dec32 (take 4 (drop off b))"

definition enc32s :: "u32 list \<Rightarrow> u8 list" where
  "enc32s ws = concat (map le32 ws)"

text \<open>1024 bytes on disk.\<close>

record ext2_superblock =
  s_inodes_count :: u32
  s_blocks_count :: u32
  s_r_blocks_count :: u32
  s_free_blocks_count :: u32
  s_free_inodes_count :: u32
  s_first_data_block :: u32
  s_log_block_size :: u32
  s_log_frag_size :: u32
  s_blocks_per_group :: u32
  s_frags_per_group :: u32
  s_inodes_per_group :: u32
  s_mtime :: u32
  s_wtime :: u32
  s_mnt_count :: u16
  s_max_mnt_count :: u16
  s_magic :: u16
  s_state :: u16
  s_errors :: u16
  s_minor_rev_level :: u16
  s_lastcheck :: u32
  s_checkinterval :: u32
  s_creator_os :: u32
  s_rev_level :: u32
  s_def_resuid :: u16
  s_def_resgid :: u16
  s_first_ino :: u32
  s_inode_size :: u16
  s_block_group_nr :: u16
  s_feature_compat :: u32
  s_feature_incompat :: u32
  s_feature_ro_compat :: u32
  s_rest :: "u8 list"

definition dec_superblock :: "u8 list \<Rightarrow> ext2_superblock" where
  "dec_superblock b =
     \<lparr>s_inodes_count = at32 b 0, s_blocks_count = at32 b 4, s_r_blocks_count = at32 b 8,
      s_free_blocks_count = at32 b 12, s_free_inodes_count = at32 b 16,
      s_first_data_block = at32 b 20, s_log_block_size = at32 b 24,
      s_log_frag_size = at32 b 28, s_blocks_per_group = at32 b 32,
      s_frags_per_group = at32 b 36, s_inodes_per_group = at32 b 40, s_mtime = at32 b 44,
      s_wtime = at32 b 48, s_mnt_count = at16 b 52, s_max_mnt_count = at16 b 54,
      s_magic = at16 b 56, s_state = at16 b 58, s_errors = at16 b 60,
      s_minor_rev_level = at16 b 62, s_lastcheck = at32 b 64,
      s_checkinterval = at32 b 68, s_creator_os = at32 b 72, s_rev_level = at32 b 76,
      s_def_resuid = at16 b 80, s_def_resgid = at16 b 82, s_first_ino = at32 b 84,
      s_inode_size = at16 b 88, s_block_group_nr = at16 b 90,
      s_feature_compat = at32 b 92, s_feature_incompat = at32 b 96,
      s_feature_ro_compat = at32 b 100, s_rest = take 920 (drop 104 b)\<rparr>"

definition enc_superblock :: "ext2_superblock \<Rightarrow> u8 list" where
  "enc_superblock x =
     le32 (s_inodes_count x) @ le32 (s_blocks_count x) @ le32 (s_r_blocks_count x) @
     le32 (s_free_blocks_count x) @ le32 (s_free_inodes_count x) @
     le32 (s_first_data_block x) @ le32 (s_log_block_size x) @
     le32 (s_log_frag_size x) @ le32 (s_blocks_per_group x) @
     le32 (s_frags_per_group x) @ le32 (s_inodes_per_group x) @ le32 (s_mtime x) @
     le32 (s_wtime x) @ le16 (s_mnt_count x) @ le16 (s_max_mnt_count x) @
     le16 (s_magic x) @ le16 (s_state x) @ le16 (s_errors x) @
     le16 (s_minor_rev_level x) @ le32 (s_lastcheck x) @ le32 (s_checkinterval x) @
     le32 (s_creator_os x) @ le32 (s_rev_level x) @ le16 (s_def_resuid x) @
     le16 (s_def_resgid x) @ le32 (s_first_ino x) @ le16 (s_inode_size x) @
     le16 (s_block_group_nr x) @ le32 (s_feature_compat x) @
     le32 (s_feature_incompat x) @ le32 (s_feature_ro_compat x) @ s_rest x"

text \<open>32 bytes on disk.\<close>

record ext2_group_desc =
  bg_block_bitmap :: u32
  bg_inode_bitmap :: u32
  bg_inode_table :: u32
  bg_free_blocks_count :: u16
  bg_free_inodes_count :: u16
  bg_used_dirs_count :: u16
  bg_pad :: u16
  bg_reserved :: "u8 list"

definition dec_group_desc :: "u8 list \<Rightarrow> ext2_group_desc" where
  "dec_group_desc b =
     \<lparr>bg_block_bitmap = at32 b 0, bg_inode_bitmap = at32 b 4, bg_inode_table = at32 b 8,
      bg_free_blocks_count = at16 b 12, bg_free_inodes_count = at16 b 14,
      bg_used_dirs_count = at16 b 16, bg_pad = at16 b 18,
      bg_reserved = take 12 (drop 20 b)\<rparr>"

definition enc_group_desc :: "ext2_group_desc \<Rightarrow> u8 list" where
  "enc_group_desc x =
     le32 (bg_block_bitmap x) @ le32 (bg_inode_bitmap x) @ le32 (bg_inode_table x) @
     le16 (bg_free_blocks_count x) @ le16 (bg_free_inodes_count x) @
     le16 (bg_used_dirs_count x) @ le16 (bg_pad x) @ bg_reserved x"

text \<open>128 bytes on disk.\<close>

record ext2_inode =
  i_mode :: u16
  i_uid :: u16
  i_size :: u32
  i_atime :: u32
  i_ctime :: u32
  i_mtime :: u32
  i_dtime :: u32
  i_gid :: u16
  i_links_count :: u16
  i_blocks :: u32
  i_flags :: u32
  i_osd1 :: u32
  i_block :: "u32 list"
  i_generation :: u32
  i_file_acl :: u32
  i_dir_acl :: u32
  i_faddr :: u32
  i_osd2 :: "u8 list"

definition dec_inode :: "u8 list \<Rightarrow> ext2_inode" where
  "dec_inode b =
     \<lparr>i_mode = at16 b 0, i_uid = at16 b 2, i_size = at32 b 4, i_atime = at32 b 8,
      i_ctime = at32 b 12, i_mtime = at32 b 16, i_dtime = at32 b 20, i_gid = at16 b 24,
      i_links_count = at16 b 26, i_blocks = at32 b 28, i_flags = at32 b 32,
      i_osd1 = at32 b 36, i_block = map (\<lambda>i. at32 b (40 + 4 * i)) [0..<15],
      i_generation = at32 b 100, i_file_acl = at32 b 104, i_dir_acl = at32 b 108,
      i_faddr = at32 b 112, i_osd2 = take 12 (drop 116 b)\<rparr>"

definition enc_inode :: "ext2_inode \<Rightarrow> u8 list" where
  "enc_inode x =
     le16 (i_mode x) @ le16 (i_uid x) @ le32 (i_size x) @ le32 (i_atime x) @
     le32 (i_ctime x) @ le32 (i_mtime x) @ le32 (i_dtime x) @ le16 (i_gid x) @
     le16 (i_links_count x) @ le32 (i_blocks x) @ le32 (i_flags x) @ le32 (i_osd1 x) @
     enc32s (i_block x) @ le32 (i_generation x) @ le32 (i_file_acl x) @
     le32 (i_dir_acl x) @ le32 (i_faddr x) @ i_osd2 x"

text \<open>\<open>memset(&raw, 0, sizeof(raw))\<close>.\<close>

definition zero_inode :: ext2_inode where
  "zero_inode = dec_inode (replicate 128 0)"

section \<open>The VFS inode\<close>

text \<open>
  \<open>struct inode\<close> with the \<open>ext2_inode_data_t\<close> behind its \<open>fs_data\<close> pointer.  The superblock an inode
  belongs to is the state the operations run on.
\<close>

record inode =
  v_ino :: u32
  v_mode :: u32
  v_size :: u32
  v_uid :: u32
  v_gid :: u32
  v_nlink :: u32
  v_atime :: u32
  v_mtime :: u32
  v_ctime :: u32
  v_blksize :: u32
  v_blocks :: u32
  v_flags :: u32
  v_ref_count :: u32
  v_disk_inode :: ext2_inode
  v_block_group :: u32
  v_index_in_group :: u32

section \<open>Round trips of the layout\<close>

lemma at32_le32 [simp]: "at32 (le32 w) 0 = w" "at32 (le32 w @ r) 0 = w"
  by (simp_all add: at32_def)

lemma at16_le16 [simp]: "at16 (le16 w) 0 = w" "at16 (le16 w @ r) 0 = w"
  by (simp_all add: at16_def)

lemma at_skip32 [simp]:
  "4 \<le> off \<Longrightarrow> at32 (le32 w @ r) off = at32 r (off - 4)"
  "4 \<le> off \<Longrightarrow> at16 (le32 w @ r) off = at16 r (off - 4)"
  "4 \<le> off \<Longrightarrow> drop off (le32 w @ r) = drop (off - 4) r"
  by (simp_all add: at32_def at16_def)

lemma at_skip16 [simp]:
  "2 \<le> off \<Longrightarrow> at32 (le16 w @ r) off = at32 r (off - 2)"
  "2 \<le> off \<Longrightarrow> at16 (le16 w @ r) off = at16 r (off - 2)"
  "2 \<le> off \<Longrightarrow> drop off (le16 w @ r) = drop (off - 2) r"
  by (simp_all add: at32_def at16_def)

lemma enc32s_Cons [simp]: "enc32s (w # ws) = le32 w @ enc32s ws" "enc32s [] = []"
  by (simp_all add: enc32s_def)

lemma length_enc32s [simp]: "length (enc32s ws) = 4 * length ws"
  by (induction ws) auto

lemma at32_enc32s [simp]: "i < length ws \<Longrightarrow> at32 (enc32s ws @ r) (4 * i) = ws ! i"
proof (induction ws arbitrary: i)
  case (Cons w ws)
  then show ?case by (cases i) auto
qed simp

lemma at_skip_enc32s [simp]:
  "4 * length ws \<le> off \<Longrightarrow> at32 (enc32s ws @ r) off = at32 r (off - 4 * length ws)"
  "4 * length ws \<le> off \<Longrightarrow> drop off (enc32s ws @ r) = drop (off - 4 * length ws) r"
  by (simp_all add: at32_def)

lemma length_enc [simp]:
  "length (s_rest sb) = 920 \<Longrightarrow> length (enc_superblock sb) = 1024"
  "length (bg_reserved gd) = 12 \<Longrightarrow> length (enc_group_desc gd) = 32"
  "length (i_block i) = 15 \<Longrightarrow> length (i_osd2 i) = 12 \<Longrightarrow> length (enc_inode i) = 128"
  by (simp_all add: enc_superblock_def enc_group_desc_def enc_inode_def)

lemma dec_enc_superblock [simp]: "length (s_rest sb) = 920 \<Longrightarrow> dec_superblock (enc_superblock sb) = sb"
  by (simp add: dec_superblock_def enc_superblock_def)

lemma dec_enc_group_desc [simp]: "length (bg_reserved gd) = 12 \<Longrightarrow> dec_group_desc (enc_group_desc gd) = gd"
  by (simp add: dec_group_desc_def enc_group_desc_def)

lemma dec_enc_inode [simp]:
  assumes "length (i_block i) = 15" and "length (i_osd2 i) = 12"
  shows "dec_inode (enc_inode i) = i"
proof -
  have "map (\<lambda>k. at32 (enc_inode i) (40 + 4 * k)) [0..<15] = i_block i"
    using assms by (intro nth_equalityI) (simp_all add: enc_inode_def)
  then show ?thesis using assms
    by (simp add: dec_inode_def) (simp add: enc_inode_def)
qed

lemma zero_inode_lengths [simp]: "length (i_block zero_inode) = 15" "length (i_osd2 zero_inode) = 12"
  by (simp_all add: zero_inode_def dec_inode_def)

end
