(* ===== verification/Ext2_Block.thy ===== *)
theory Ext2_Block
  imports Ext2_Types
begin

text \<open>
  Block-level operations of ext2: block I/O, the bitmap allocator, the flushes of superblock and group
  descriptors, and the block map of an inode (\<open>fs/ext2/block.c\<close>, \<open>fs/ext2/superblock.c\<close>).
\<close>

section \<open>State\<close>

text \<open>
  A mounted volume: the driver state, the heap the code allocates its buffers from, and
  \<open>ext2_fs_data_t\<close>.  The heap is seen only through its answers: the \<open>k\<close>-th call of \<open>kmalloc\<close> fails when
  \<open>heap_answers k = None\<close> and otherwise returns fresh memory with the given, arbitrary contents.  Every
  buffer is released before the operation returns, so \<open>kfree\<close> has no further effect here.
\<close>

record 'd ext2 =
  disk :: 'd
  heap_answers :: "nat \<Rightarrow> (nat \<Rightarrow> u8) option"
  heap_calls :: nat
  fs_sb :: ext2_superblock
  fs_group_desc :: "ext2_group_desc list"
  fs_dev :: "'d block_device"
  fs_groups_count :: u32
  fs_block_size :: u32
  fs_inodes_per_block :: u32
  fs_itable_blocks :: u32

text \<open>\<open>with_kmalloc n fail use\<close> runs \<open>use\<close> on a fresh buffer of \<open>n\<close> bytes, or \<open>fail\<close> when the heap is
  exhausted.\<close>

definition with_kmalloc :: "u32 \<Rightarrow> ('d ext2 \<Rightarrow> 'r) \<Rightarrow> (u8 list \<Rightarrow> 'd ext2 \<Rightarrow> 'r) \<Rightarrow> 'd ext2 \<Rightarrow> 'r" where
  "with_kmalloc n fail use s =
     (let s' = s\<lparr>heap_calls := Suc (heap_calls s)\<rparr> in
      case heap_answers s (heap_calls s) of None \<Rightarrow> fail s'
      | Some f \<Rightarrow> use (map f [0..<unat n]) s')"

section \<open>Block I/O\<close>

definition ext2_read_block :: "'d block_device \<Rightarrow> u32 \<Rightarrow> u8 list \<Rightarrow> 'd \<Rightarrow> (int \<times> u8 list \<times> 'd) option" where
  "ext2_read_block dev block buf d =
     (case bd_ops dev of None \<Rightarrow> Some (- 1, buf, d)
      | Some ops \<Rightarrow> (case op_read_block ops of None \<Rightarrow> Some (- 1, buf, d)
          | Some f \<Rightarrow> f (bd_info dev) block buf d))"

definition ext2_write_block :: "'d block_device \<Rightarrow> u32 \<Rightarrow> u8 list \<Rightarrow> 'd \<Rightarrow> (int \<times> 'd) option" where
  "ext2_write_block dev block buf d =
     (case bd_ops dev of None \<Rightarrow> Some (- 1, d)
      | Some ops \<Rightarrow> (case op_write_block ops of None \<Rightarrow> Some (- 1, d)
          | Some f \<Rightarrow> f (bd_info dev) block buf d))"

definition ext2_read_blocks ::
  "'d block_device \<Rightarrow> u32 \<Rightarrow> u32 \<Rightarrow> u8 list \<Rightarrow> 'd \<Rightarrow> (int \<times> u8 list \<times> 'd) option" where
  "ext2_read_blocks dev start count buf d =
     (case bd_ops dev of None \<Rightarrow> Some (- 1, buf, d)
      | Some ops \<Rightarrow> (case op_read_blocks ops of None \<Rightarrow> Some (- 1, buf, d)
          | Some f \<Rightarrow> f (bd_info dev) start count buf d))"

definition ext2_write_blocks ::
  "'d block_device \<Rightarrow> u32 \<Rightarrow> u32 \<Rightarrow> u8 list \<Rightarrow> 'd \<Rightarrow> (int \<times> 'd) option" where
  "ext2_write_blocks dev start count buf d =
     (case bd_ops dev of None \<Rightarrow> Some (- 1, d)
      | Some ops \<Rightarrow> (case op_write_blocks ops of None \<Rightarrow> Some (- 1, d)
          | Some f \<Rightarrow> f (bd_info dev) start count buf d))"

text \<open>The two calls on \<open>fs->dev\<close>, lifted to the volume.\<close>

definition fs_read :: "u32 \<Rightarrow> u8 list \<Rightarrow> 'd ext2 \<Rightarrow> (int \<times> u8 list \<times> 'd ext2) option" where
  "fs_read block buf s = do {
     (r, buf', d) \<leftarrow> ext2_read_block (fs_dev s) block buf (disk s);
     Some (r, buf', s\<lparr>disk := d\<rparr>) }"

definition fs_write :: "u32 \<Rightarrow> u8 list \<Rightarrow> 'd ext2 \<Rightarrow> (int \<times> 'd ext2) option" where
  "fs_write block buf s = do {
     (r, d) \<leftarrow> ext2_write_block (fs_dev s) block buf (disk s);
     Some (r, s\<lparr>disk := d\<rparr>) }"

section \<open>Flushing metadata\<close>

definition ext2_flush_superblock :: "'d ext2 \<Rightarrow> (int \<times> 'd ext2) option" where
  "ext2_flush_superblock s =
     (if fs_block_size s = 1024 then fs_write 1 (enc_superblock (fs_sb s)) s
      else with_kmalloc (fs_block_size s) (\<lambda>s. Some (- 1, s)) (\<lambda>buf s. do {
        (_, buf, s) \<leftarrow> fs_read 0 buf s;
        buf \<leftarrow> buf_put buf EXT2_SUPERBLOCK_OFFSET (enc_superblock (fs_sb s));
        fs_write 0 buf s }) s)"

definition ext2_flush_group_desc :: "u32 \<Rightarrow> 'd ext2 \<Rightarrow> (int \<times> 'd ext2) option" where
  "ext2_flush_group_desc grp s =
     (let gd_per_block = fs_block_size s div 32;
          gd_block = s_first_data_block (fs_sb s) + 1 + grp div gd_per_block
      in with_kmalloc (fs_block_size s) (\<lambda>s. Some (- 1, s)) (\<lambda>buf s. do {
        (_, buf, s) \<leftarrow> fs_read gd_block buf s;
        gd \<leftarrow> aget (fs_group_desc s) (unat grp);
        buf \<leftarrow> buf_put buf (unat ((grp mod gd_per_block) * 32)) (enc_group_desc gd);
        fs_write gd_block buf s }) s)"

section \<open>Block bitmap allocation\<close>

text \<open>The inner loop: the first clear bit of \<open>bitmap\<close> from \<open>i\<close> on, below \<open>bits\<close>.\<close>

function scan_bits :: "u8 list \<Rightarrow> nat \<Rightarrow> nat \<Rightarrow> nat option option" where
  "scan_bits bitmap i bits =
     (if i < bits then do {
        w \<leftarrow> get8 bitmap (i div 8);
        if w AND push_bit (i mod 8) 1 = 0 then Some (Some i) else scan_bits bitmap (i + 1) bits }
      else Some None)"
  by pat_completeness auto
termination by (relation "measure (\<lambda>(_, i, bits). bits - i)") auto

declare scan_bits.simps [simp del]

definition group_bits :: "ext2_superblock \<Rightarrow> u32 \<Rightarrow> u32 \<Rightarrow> u32" where
  "group_bits sb groups_count g =
     (let bits = s_blocks_per_group sb;
          rem = s_blocks_count sb - g * s_blocks_per_group sb - s_first_data_block sb
      in if g = groups_count - 1 \<and> rem < bits then rem else bits)"

primrec alloc_block_groups :: "nat list \<Rightarrow> u8 list \<Rightarrow> 'd ext2 \<Rightarrow> (u32 \<times> 'd ext2) option" where
  "alloc_block_groups [] bitmap s = Some (0, s)"
| "alloc_block_groups (g # gs) bitmap s = do {
     gd \<leftarrow> aget (fs_group_desc s) g;
     if bg_free_blocks_count gd = 0 then alloc_block_groups gs bitmap s
     else do {
       (_, bitmap, s) \<leftarrow> fs_read (bg_block_bitmap gd) bitmap s;
       r \<leftarrow> scan_bits bitmap 0 (unat (group_bits (fs_sb s) (fs_groups_count s) (of_nat g)));
       case r of None \<Rightarrow> alloc_block_groups gs bitmap s
       | Some i \<Rightarrow> do {
           w \<leftarrow> get8 bitmap (i div 8);
           bitmap \<leftarrow> put8 bitmap (i div 8) (w OR push_bit (i mod 8) 1);
           (_, s) \<leftarrow> fs_write (bg_block_bitmap gd) bitmap s;
           s \<leftarrow> Some (s\<lparr>fs_group_desc := (fs_group_desc s)[g := gd\<lparr>bg_free_blocks_count := bg_free_blocks_count gd - 1\<rparr>],
                  fs_sb := (fs_sb s)\<lparr>s_free_blocks_count := s_free_blocks_count (fs_sb s) - 1\<rparr>\<rparr>);
           (_, s) \<leftarrow> ext2_flush_group_desc (of_nat g) s;
           (_, s) \<leftarrow> ext2_flush_superblock s;
           Some (s_first_data_block (fs_sb s) + of_nat g * s_blocks_per_group (fs_sb s) + of_nat i, s) } } }"

definition ext2_alloc_block :: "'d ext2 \<Rightarrow> (u32 \<times> 'd ext2) option" where
  "ext2_alloc_block s =
     (if s_free_blocks_count (fs_sb s) = 0 then Some (0, s)
      else with_kmalloc (fs_block_size s) (\<lambda>s. Some (0, s))
        (\<lambda>bitmap s. alloc_block_groups [0..<unat (fs_groups_count s)] bitmap s) s)"

definition ext2_free_block :: "u32 \<Rightarrow> 'd ext2 \<Rightarrow> 'd ext2 option" where
  "ext2_free_block block s =
     (let rel = block - s_first_data_block (fs_sb s) in do {
      grp \<leftarrow> udiv rel (s_blocks_per_group (fs_sb s));
      index \<leftarrow> umod rel (s_blocks_per_group (fs_sb s));
      with_kmalloc (fs_block_size s) (\<lambda>s. Some s) (\<lambda>bitmap s. do {
        gd \<leftarrow> aget (fs_group_desc s) (unat grp);
        (_, bitmap, s) \<leftarrow> fs_read (bg_block_bitmap gd) bitmap s;
        w \<leftarrow> get8 bitmap (unat index div 8);
        bitmap \<leftarrow> put8 bitmap (unat index div 8) (w AND NOT (push_bit (unat index mod 8) 1));
        (_, s) \<leftarrow> fs_write (bg_block_bitmap gd) bitmap s;
        s \<leftarrow> Some (s\<lparr>fs_group_desc := (fs_group_desc s)[unat grp := gd\<lparr>bg_free_blocks_count := bg_free_blocks_count gd + 1\<rparr>],
               fs_sb := (fs_sb s)\<lparr>s_free_blocks_count := s_free_blocks_count (fs_sb s) + 1\<rparr>\<rparr>);
        (_, s) \<leftarrow> ext2_flush_group_desc grp s;
        (_, s) \<leftarrow> ext2_flush_superblock s;
        Some s }) s })"

section \<open>The block map of an inode\<close>

definition ext2_get_block_ptr :: "ext2_inode \<Rightarrow> u32 \<Rightarrow> u32 option" where
  "ext2_get_block_ptr inode block_index =
     (if 14 < block_index then Some 0 else aget (i_block inode) (unat block_index))"

definition ext2_set_block_ptr :: "ext2_inode \<Rightarrow> u32 \<Rightarrow> u32 \<Rightarrow> ext2_inode option" where
  "ext2_set_block_ptr inode block_index block =
     (if 14 < block_index then Some inode
      else map_option (\<lambda>bl. inode\<lparr>i_block := bl\<rparr>) (aset (i_block inode) (unat block_index) block))"

definition ext2_read_indirect_block ::
  "'d block_device \<Rightarrow> u32 \<Rightarrow> u8 list \<Rightarrow> u32 \<Rightarrow> 'd \<Rightarrow> (int \<times> u8 list \<times> 'd) option" where
  "ext2_read_indirect_block dev block buf count d =
     (if block = 0 then Some (- 1, buf, d) else ext2_read_block dev block buf d)"

definition ext2_write_indirect_block ::
  "'d block_device \<Rightarrow> u32 \<Rightarrow> u8 list \<Rightarrow> u32 \<Rightarrow> 'd \<Rightarrow> (int \<times> 'd) option" where
  "ext2_write_indirect_block dev block buf count d =
     (if block = 0 then Some (- 1, d) else ext2_write_block dev block buf d)"

definition ext2_alloc_indirect_block :: "'d ext2 \<Rightarrow> (u32 \<times> 'd ext2) option" where
  "ext2_alloc_indirect_block s = do {
     (blk, s) \<leftarrow> ext2_alloc_block s;
     if blk = 0 then Some (0, s)
     else with_kmalloc (fs_block_size s)
       (\<lambda>s. do { s \<leftarrow> ext2_free_block blk s; Some (0, s) })
       (\<lambda>zero s. do {
          (_, s) \<leftarrow> fs_write blk (replicate (unat (fs_block_size s)) 0) s;
          Some (blk, s) }) s }"

text \<open>\<open>ind[i]\<close> for a buffer used as an array of 32-bit block numbers.\<close>

definition ind_get :: "u8 list \<Rightarrow> u32 \<Rightarrow> u32 option" where
  "ind_get ind i = get32 ind (4 * unat i)"

definition ind_put :: "u8 list \<Rightarrow> u32 \<Rightarrow> u32 \<Rightarrow> u8 list option" where
  "ind_put ind i w = put32 ind (4 * unat i) w"

definition ext2_resolve_block_num :: "ext2_inode \<Rightarrow> u32 \<Rightarrow> u32 \<Rightarrow> 'd ext2 \<Rightarrow> (u32 \<times> 'd ext2) option" where
  "ext2_resolve_block_num inode logical_block block_size s =
     (let ptrs = block_size div 4 in
      if logical_block < 12 then do {
        r \<leftarrow> aget (i_block inode) (unat logical_block); Some (r, s) }
      else let logical_block = logical_block - 12 in
      if logical_block < ptrs then do {
        b12 \<leftarrow> aget (i_block inode) 12;
        if b12 = 0 then Some (0, s)
        else with_kmalloc block_size (\<lambda>s. Some (0, s)) (\<lambda>ind s. do {
          (_, ind, s) \<leftarrow> fs_read b12 ind s;
          r \<leftarrow> ind_get ind logical_block;
          Some (r, s) }) s }
      else let logical_block = logical_block - ptrs in
      if logical_block < ptrs * ptrs then do {
        b13 \<leftarrow> aget (i_block inode) 13;
        if b13 = 0 then Some (0, s)
        else with_kmalloc block_size (\<lambda>s. Some (0, s)) (\<lambda>ind s. do {
          (_, ind, s) \<leftarrow> fs_read b13 ind s;
          singly_blk \<leftarrow> ind_get ind (logical_block div ptrs);
          if singly_blk = 0 then Some (0, s)
          else do {
            (_, ind, s) \<leftarrow> fs_read singly_blk ind s;
            r \<leftarrow> ind_get ind (logical_block mod ptrs);
            Some (r, s) } }) s }
      else let logical_block = logical_block - ptrs * ptrs in do {
        b14 \<leftarrow> aget (i_block inode) 14;
        if b14 = 0 then Some (0, s)
        else with_kmalloc block_size (\<lambda>s. Some (0, s)) (\<lambda>ind s. do {
          (_, ind, s) \<leftarrow> fs_read b14 ind s;
          dbl_blk \<leftarrow> ind_get ind (logical_block div (ptrs * ptrs));
          let rem = logical_block mod (ptrs * ptrs) in
          if dbl_blk = 0 then Some (0, s)
          else do {
            (_, ind, s) \<leftarrow> fs_read dbl_blk ind s;
            sgl_blk \<leftarrow> ind_get ind (rem div ptrs);
            if sgl_blk = 0 then Some (0, s)
            else do {
              (_, ind, s) \<leftarrow> fs_read sgl_blk ind s;
              r \<leftarrow> ind_get ind (rem mod ptrs);
              Some (r, s) } } }) s })"

text \<open>The top-level pointer \<open>i_block[k]\<close>, allocated on demand: the pointer after the call, 0 on
  failure.\<close>

definition ensure_top :: "nat \<Rightarrow> ext2_inode \<Rightarrow> 'd ext2 \<Rightarrow> (u32 \<times> ext2_inode \<times> 'd ext2) option" where
  "ensure_top k inode s = do {
     b \<leftarrow> aget (i_block inode) k;
     if b \<noteq> 0 then Some (b, inode, s)
     else do {
       (b, s) \<leftarrow> ext2_alloc_indirect_block s;
       bl \<leftarrow> aset (i_block inode) k b;
       Some (b, inode\<lparr>i_block := bl\<rparr>, s) } }"

definition ext2_assign_block_num ::
  "ext2_inode \<Rightarrow> u32 \<Rightarrow> u32 \<Rightarrow> u32 \<Rightarrow> 'd ext2 \<Rightarrow> (int \<times> ext2_inode \<times> 'd ext2) option" where
  "ext2_assign_block_num inode logical_block phys_block block_size s =
     (let ptrs = block_size div 4 in
      if logical_block < 12 then do {
        bl \<leftarrow> aset (i_block inode) (unat logical_block) phys_block;
        Some (0, inode\<lparr>i_block := bl\<rparr>, s) }
      else let logical_block = logical_block - 12 in
      if logical_block < ptrs then do {
        (b12, inode, s) \<leftarrow> ensure_top 12 inode s;
        if b12 = 0 then Some (- 1, inode, s)
        else with_kmalloc block_size (\<lambda>s. Some (- 1, inode, s)) (\<lambda>ind s. do {
          (_, ind, s) \<leftarrow> fs_read b12 ind s;
          ind \<leftarrow> ind_put ind logical_block phys_block;
          (_, s) \<leftarrow> fs_write b12 ind s;
          Some (0, inode, s) }) s }
      else let logical_block = logical_block - ptrs in
      if logical_block < ptrs * ptrs then do {
        (b13, inode, s) \<leftarrow> ensure_top 13 inode s;
        if b13 = 0 then Some (- 1, inode, s)
        else with_kmalloc block_size (\<lambda>s. Some (- 1, inode, s)) (\<lambda>ind s. do {
          (_, ind, s) \<leftarrow> fs_read b13 ind s;
          let idx1 = logical_block div ptrs; idx2 = logical_block mod ptrs in do {
          e \<leftarrow> ind_get ind idx1;
          (singly_blk, s) \<leftarrow> (if e \<noteq> 0 then Some (e, s)
             else do {
               (e, s) \<leftarrow> ext2_alloc_indirect_block s;
               if e = 0 then Some (0, s)
               else do {
                 ind \<leftarrow> ind_put ind idx1 e;
                 (_, s) \<leftarrow> fs_write b13 ind s;
                 Some (e, s) } });
          if singly_blk = 0 then Some (- 1, inode, s)
          else do {
            (_, ind, s) \<leftarrow> fs_read singly_blk ind s;
            ind \<leftarrow> ind_put ind idx2 phys_block;
            (_, s) \<leftarrow> fs_write singly_blk ind s;
            Some (0, inode, s) } } }) s }
      else Some (- 1, inode, s))"

section \<open>Truncation\<close>

text \<open>Free the direct blocks with the given indices.\<close>

primrec free_direct :: "nat list \<Rightarrow> ext2_inode \<Rightarrow> 'd ext2 \<Rightarrow> (ext2_inode \<times> 'd ext2) option" where
  "free_direct [] inode s = Some (inode, s)"
| "free_direct (i # is) inode s = do {
     b \<leftarrow> aget (i_block inode) i;
     if b \<noteq> 0 then do {
       s \<leftarrow> ext2_free_block b s;
       free_direct is (inode\<lparr>i_block := (i_block inode)[i := 0]\<rparr>) s }
     else free_direct is inode s }"

text \<open>Free the entries of an indirect block with the given indices, clearing them in the buffer.\<close>

primrec free_entries :: "nat list \<Rightarrow> u8 list \<Rightarrow> 'd ext2 \<Rightarrow> (u8 list \<times> 'd ext2) option" where
  "free_entries [] ind s = Some (ind, s)"
| "free_entries (i # is) ind s = do {
     e \<leftarrow> get32 ind (4 * i);
     if e \<noteq> 0 then do {
       s \<leftarrow> ext2_free_block e s;
       ind \<leftarrow> put32 ind (4 * i) 0;
       free_entries is ind s }
     else free_entries is ind s }"

definition ext2_truncate_inode :: "ext2_inode \<Rightarrow> u32 \<Rightarrow> 'd ext2 \<Rightarrow> (int \<times> ext2_inode \<times> 'd ext2) option" where
  "ext2_truncate_inode inode new_size s =
     (let bs = fs_block_size s;
          old_blocks = (i_size inode + bs - 1) div bs;
          new_blocks = (new_size + bs - 1) div bs
      in do {
        (inode, s) \<leftarrow> free_direct [unat new_blocks..<min (unat old_blocks) 12] inode s;
        b12 \<leftarrow> aget (i_block inode) 12;
        (inode, s) \<leftarrow> (if 12 < old_blocks \<and> b12 \<noteq> 0 then
            with_kmalloc bs (\<lambda>s. Some (inode, s)) (\<lambda>ind s. do {
              (_, ind, s) \<leftarrow> fs_read b12 ind s;
              (ind, s) \<leftarrow> free_entries [unat (if 12 < new_blocks then new_blocks - 12 else 0)..<unat (bs div 4)] ind s;
              if new_blocks \<le> 12 then do {
                s \<leftarrow> ext2_free_block b12 s;
                Some (inode\<lparr>i_block := (i_block inode)[12 := 0]\<rparr>, s) }
              else do {
                (_, s) \<leftarrow> fs_write b12 ind s;
                Some (inode, s) } }) s
          else Some (inode, s));
        Some (0, inode\<lparr>i_size := new_size, i_blocks := new_blocks * (bs div 512)\<rparr>, s) })"

end
