(* ===== verification/Ext2_Map.thy ===== *)
theory Ext2_Map
  imports Ext2_Block
begin

text \<open>
  The block map of an inode against a reference: a tree of pointer blocks of depth 0 to 3.  The lemmas
  are proved for every device that satisfies \<open>block_storage\<close>.
\<close>

section \<open>The reference block map\<close>

definition ptr_at :: "(u32 \<Rightarrow> u8 list) \<Rightarrow> u32 \<Rightarrow> nat \<Rightarrow> u32" where
  "ptr_at V b i = at32 (V b) (4 * i)"

text \<open>Entry \<open>i\<close> of the tree of depth \<open>k\<close> with fan-out \<open>n\<close> rooted at block \<open>b\<close>; 0 is a hole.\<close>

fun tree_lookup :: "(u32 \<Rightarrow> u8 list) \<Rightarrow> nat \<Rightarrow> nat \<Rightarrow> u32 \<Rightarrow> nat \<Rightarrow> u32" where
  "tree_lookup V n 0 b i = b"
| "tree_lookup V n (Suc k) b i =
     (if b = 0 then 0 else tree_lookup V n k (ptr_at V b (i div n ^ k)) (i mod n ^ k))"

text \<open>The pointer blocks on the way to entry \<open>i\<close>.\<close>

fun tree_path :: "(u32 \<Rightarrow> u8 list) \<Rightarrow> nat \<Rightarrow> nat \<Rightarrow> u32 \<Rightarrow> nat \<Rightarrow> u32 list" where
  "tree_path V n 0 b i = []"
| "tree_path V n (Suc k) b i =
     (if b = 0 then [] else b # tree_path V n k (ptr_at V b (i div n ^ k)) (i mod n ^ k))"

text \<open>Where logical block \<open>l\<close> lives: depth, slot of \<open>i_block\<close>, index inside the tree.\<close>

definition map_place :: "nat \<Rightarrow> nat \<Rightarrow> nat \<times> nat \<times> nat" where
  "map_place n l =
     (if l < 12 then (0, l, 0)
      else if l - 12 < n then (1, 12, l - 12)
      else if l - 12 - n < n * n then (2, 13, l - 12 - n)
      else (3, 14, l - 12 - n - n * n))"

definition block_map :: "(u32 \<Rightarrow> u8 list) \<Rightarrow> nat \<Rightarrow> ext2_inode \<Rightarrow> nat \<Rightarrow> u32" where
  "block_map V n di l = (case map_place n l of (k, j, i) \<Rightarrow> tree_lookup V n k (i_block di ! j) i)"

definition map_path :: "(u32 \<Rightarrow> u8 list) \<Rightarrow> nat \<Rightarrow> ext2_inode \<Rightarrow> nat \<Rightarrow> u32 list" where
  "map_path V n di l = (case map_place n l of (k, j, i) \<Rightarrow> tree_path V n k (i_block di ! j) i)"

section \<open>Volumes in good order\<close>

definition vol_ok :: "'d block_device \<Rightarrow> ('d \<Rightarrow> bool) \<Rightarrow> nat \<Rightarrow> 'd ext2 \<Rightarrow> bool" where
  "vol_ok bd ready bs s \<longleftrightarrow> fs_dev s = bd \<and> ready (disk s) \<and> unat (fs_block_size s) = bs \<and>
     bs \<in> {1024, 2048, 4096}"

text \<open>The next call of \<open>kmalloc\<close> fails.\<close>

definition no_buffer :: "'d ext2 \<Rightarrow> bool" where
  "no_buffer s \<longleftrightarrow> heap_answers s (heap_calls s) = None"

text \<open>\<open>s'\<close> is \<open>s\<close> after an operation that left the blocks of the device and \<open>ext2_fs_data_t\<close> as they
  were.\<close>

definition quiet :: "('d \<Rightarrow> u32 \<Rightarrow> u8 list) \<Rightarrow> ('d \<Rightarrow> bool) \<Rightarrow> 'd ext2 \<Rightarrow> 'd ext2 \<Rightarrow> bool" where
  "quiet view ready s s' \<longleftrightarrow> ready (disk s') \<and> view (disk s') = view (disk s) \<and>
     (\<exists>d n. s' = s\<lparr>disk := d, heap_calls := n\<rparr>)"

lemma quiet_refl: "ready (disk s) \<Longrightarrow> quiet view ready s s"
  by (auto simp: quiet_def intro!: exI [of _ "disk s"] exI [of _ "heap_calls s"])

lemma quiet_trans: "quiet view ready s t \<Longrightarrow> quiet view ready t u \<Longrightarrow> quiet view ready s u"
  by (auto simp: quiet_def) blast

lemma quiet_vol_ok: "quiet view ready s t \<Longrightarrow> vol_ok bd ready bs s \<Longrightarrow> vol_ok bd ready bs t"
  by (auto simp: quiet_def vol_ok_def)

lemma quiet_fields:
  assumes "quiet view ready s t"
  shows "fs_sb t = fs_sb s" and "fs_group_desc t = fs_group_desc s" and "fs_dev t = fs_dev s"
    and "fs_groups_count t = fs_groups_count s" and "fs_block_size t = fs_block_size s"
    and "view (disk t) = view (disk s)" and "ready (disk t)" and "heap_answers t = heap_answers s"
  using assms by (auto simp: quiet_def)

lemma with_kmalloc_Some:
  "heap_answers s (heap_calls s) = Some f \<Longrightarrow>
     with_kmalloc n fail use s = use (map f [0..<unat n]) (s\<lparr>heap_calls := Suc (heap_calls s)\<rparr>)"
  by (simp add: with_kmalloc_def)

lemma with_kmalloc_None:
  "no_buffer s \<Longrightarrow> with_kmalloc n fail use s = fail (s\<lparr>heap_calls := Suc (heap_calls s)\<rparr>)"
  by (simp add: with_kmalloc_def no_buffer_def)

lemma kmalloc_quiet: "vol_ok bd ready bs s \<Longrightarrow> quiet view ready s (s\<lparr>heap_calls := Suc (heap_calls s)\<rparr>)"
  by (auto simp: quiet_def vol_ok_def intro!: exI [of _ "disk s"] exI [of _ "Suc (heap_calls s)"])

lemma kmalloc_answer:
  assumes "vol_ok bd ready bs s" "\<not> no_buffer s"
  obtains f where "heap_answers s (heap_calls s) = Some f" and "quiet view ready s (s\<lparr>heap_calls := Suc (heap_calls s)\<rparr>)"
  using assms kmalloc_quiet [OF assms(1)] by (auto simp: no_buffer_def)

context block_storage
begin

lemma fs_read_ok:
  assumes "vol_ok bd ready bs s" and "valid b" and "length buf = bs"
  obtains s' where "fs_read b buf s = Some (0, view (disk s) b, s')" and "quiet view ready s s'" and "heap_calls s' = heap_calls s"
proof -
  obtain ops where ops: "bd_ops bd = Some ops" "op_read_block ops = Some rd" using has_ops by blast
  have "ready (disk s)" "fs_dev s = bd" using assms(1) by (auto simp: vol_ok_def)
  then obtain d where "rd (bd_info bd) b buf (disk s) = Some (0, view (disk s) b, d)" "ready d" "view d = view (disk s)"
    using read_returns assms(2,3) by blast
  then show thesis using ops \<open>fs_dev s = bd\<close>
    by (intro that [of "s\<lparr>disk := d\<rparr>"])
       (auto simp: fs_read_def ext2_read_block_def quiet_def intro!: exI [of _ d] exI [of _ "heap_calls s"])
qed

lemma fs_write_ok:
  assumes "vol_ok bd ready bs s" and "valid b" and "length buf = bs"
  obtains d where "fs_write b buf s = Some (0, s\<lparr>disk := d\<rparr>)" and "ready d"
    and "\<And>c. valid c \<Longrightarrow> view d c = (if c = b then buf else view (disk s) c)"
proof -
  obtain ops where ops: "bd_ops bd = Some ops" "op_write_block ops = Some wr" using has_ops by blast
  have "ready (disk s)" "fs_dev s = bd" using assms(1) by (auto simp: vol_ok_def)
  then obtain d where d: "wr (bd_info bd) b buf (disk s) = Some (0, d)" "ready d"
    "\<forall>c. valid c \<longrightarrow> view d c = (if c = b then buf else view (disk s) c)"
    using write_returns assms(2,3) by blast
  show thesis by (rule that [of d]) (use d ops \<open>fs_dev s = bd\<close> in \<open>auto simp: fs_write_def ext2_write_block_def\<close>)
qed

end

lemma vol_ok_ptrs:
  assumes "vol_ok bd ready bs s"
  shows "unat (fs_block_size s div 4) = bs div 4" and "bs div 4 \<in> {256, 512, 1024}"
    and "unat (fs_block_size s div 4 * (fs_block_size s div 4)) = (bs div 4) * (bs div 4)"
proof -
  show p: "unat (fs_block_size s div 4) = bs div 4" using assms by (auto simp: vol_ok_def unat_div_distrib)
  show n: "bs div 4 \<in> {256, 512, 1024}" using assms by (auto simp: vol_ok_def)
  then have "(bs div 4) * (bs div 4) < 2 ^ 32" by auto
  then show "unat (fs_block_size s div 4 * (fs_block_size s div 4)) = (bs div 4) * (bs div 4)"
    by (simp only: unat_word_ariths(2) p) simp
qed

lemma ind_get_at: "4 * unat i + 4 \<le> length b \<Longrightarrow> ind_get b i = Some (at32 b (4 * unat i))"
  by (simp add: ind_get_def get32_in at32_def)

lemma unat_minus: "b \<le> a \<Longrightarrow> unat (a - b) = unat a - unat (b :: u32)"
  by (simp add: unat_sub)

section \<open>Resolution\<close>

text \<open>What \<open>ext2_resolve_block_num\<close> returns: a block that is behind a pointer block is taken for a hole when there is
  no buffer to read the pointer block into.\<close>

definition resolved :: "'d ext2 \<Rightarrow> (u32 \<Rightarrow> u8 list) \<Rightarrow> nat \<Rightarrow> ext2_inode \<Rightarrow> nat \<Rightarrow> u32" where
  "resolved s V n di l = (if map_path V n di l \<noteq> [] \<and> no_buffer s then 0 else block_map V n di l)"

context block_storage
begin

lemma read_ptr:
  assumes ok: "vol_ok bd ready bs s" and v: "valid b" and len: "length buf = bs" and i: "unat i < bs div 4"
  obtains s' where "fs_read b buf s = Some (0, view (disk s) b, s')" and "quiet view ready s s'"
    and "ind_get (view (disk s) b) i = Some (ptr_at (view (disk s)) b (unat i))"
    and "length (view (disk s) b) = bs" and "heap_calls s' = heap_calls s"
proof -
  obtain s' where s': "fs_read b buf s = Some (0, view (disk s) b, s')" "quiet view ready s s'" "heap_calls s' = heap_calls s"
    using fs_read_ok [OF ok v len] by blast
  have l: "length (view (disk s) b) = bs" using view_length ok v by (auto simp: vol_ok_def)
  have "4 * unat i + 4 \<le> bs" using i by linarith
  with l have "ind_get (view (disk s) b) i = Some (ptr_at (view (disk s)) b (unat i))"
    by (simp add: ind_get_at ptr_at_def)
  with s' l show thesis using that by blast
qed

text \<open>Walking a tree of depth 1, 2 or 3 from a kmalloc'ed buffer.\<close>

lemma walk1:
  assumes ok: "vol_ok bd ready bs s" and path: "\<forall>c \<in> set (tree_path (view (disk s)) (bs div 4) 1 b (unat i)). valid c"
    and nz: "b \<noteq> 0" and i: "unat i < bs div 4" and len: "length buf = bs"
  obtains s' where "do { (_, ind, s) \<leftarrow> fs_read b buf s; r \<leftarrow> ind_get ind i; Some (r, s) } =
      Some (tree_lookup (view (disk s)) (bs div 4) 1 b (unat i), s')" and "quiet view ready s s'" and "heap_calls s' = heap_calls s"
proof -
  have "valid b" using path nz by simp
  then obtain s' where "fs_read b buf s = Some (0, view (disk s) b, s')" "quiet view ready s s'" "heap_calls s' = heap_calls s"
    "ind_get (view (disk s) b) i = Some (ptr_at (view (disk s)) b (unat i))"
    using read_ptr [OF ok _ len i] by metis
  then show thesis using nz by (intro that [of s']) simp_all
qed

lemma walk2:
  assumes ok: "vol_ok bd ready bs s" and path: "\<forall>c \<in> set (tree_path (view (disk s)) (bs div 4) 2 b (unat i)). valid c"
    and nz: "b \<noteq> 0" and i: "unat i < (bs div 4) * (bs div 4)" and len: "length buf = bs"
    and p: "unat p = bs div 4"
  obtains s' where "do { (_, ind, s) \<leftarrow> fs_read b buf s; e \<leftarrow> ind_get ind (i div p);
        if e = 0 then Some (0, s) else do { (_, ind, s) \<leftarrow> fs_read e ind s; r \<leftarrow> ind_get ind (i mod p); Some (r, s) } } =
      Some (tree_lookup (view (disk s)) (bs div 4) 2 b (unat i), s')" and "quiet view ready s s'" and "heap_calls s' = heap_calls s"
proof -
  let ?n = "bs div 4" and ?V = "view (disk s)"
  have v: "valid b" using path nz by (simp add: numeral_2_eq_2)
  have u: "unat (i div p) = unat i div ?n" "unat (i mod p) = unat i mod ?n"
    using p by (simp_all add: unat_div_distrib unat_mod_distrib)
  have n: "0 < ?n" using i by (cases "?n") auto
  have lt: "unat (i div p) < ?n" using i by (simp add: u less_mult_imp_div_less)
  have lt2: "unat (i mod p) < ?n" using n by (simp add: u)
  obtain s1 where s1: "fs_read b buf s = Some (0, ?V b, s1)" "quiet view ready s s1"
    "ind_get (?V b) (i div p) = Some (ptr_at ?V b (unat i div ?n))" "length (?V b) = bs" "heap_calls s1 = heap_calls s"
    using read_ptr [OF ok v len lt] u(1) by metis
  show thesis
  proof (cases "ptr_at ?V b (unat i div ?n) = 0")
    case True
    with s1 nz show thesis by (intro that [of s1]) (simp_all add: numeral_2_eq_2)
  next
    case False
    have ok1: "vol_ok bd ready bs s1" using quiet_vol_ok [OF s1(2) ok] .
    have V1: "view (disk s1) = ?V" using quiet_fields(6) [OF s1(2)] .
    have "\<forall>c \<in> set (tree_path (view (disk s1)) ?n 1 (ptr_at ?V b (unat i div ?n)) (unat (i mod p))). valid c"
      using path nz unfolding V1 u by (simp add: numeral_2_eq_2)
    then obtain s2 where s2: "do { (_, ind, s) \<leftarrow> fs_read (ptr_at ?V b (unat i div ?n)) (?V b) s1; r \<leftarrow> ind_get ind (i mod p); Some (r, s) } =
      Some (tree_lookup (view (disk s1)) ?n 1 (ptr_at ?V b (unat i div ?n)) (unat (i mod p)), s2)" "quiet view ready s1 s2" "heap_calls s2 = heap_calls s1"
      using walk1 [OF ok1 _ False lt2 s1(4)] by metis
    have "quiet view ready s s2" using quiet_trans s1(2) s2(2) .
    with s1 s2(1, 3) False nz show thesis unfolding V1 u by (intro that [of s2]) (simp_all add: numeral_2_eq_2)
  qed
qed

lemma walk3:
  assumes ok: "vol_ok bd ready bs s" and path: "\<forall>c \<in> set (tree_path (view (disk s)) (bs div 4) 3 b (unat i)). valid c"
    and nz: "b \<noteq> 0" and i: "unat i < (bs div 4) * (bs div 4) * (bs div 4)" and len: "length buf = bs"
    and p: "unat p = bs div 4" and pp: "unat (p * p) = (bs div 4) * (bs div 4)"
  obtains s' where "do { (_, ind, s) \<leftarrow> fs_read b buf s; d \<leftarrow> ind_get ind (i div (p * p));
        if d = 0 then Some (0, s) else do { (_, ind, s) \<leftarrow> fs_read d ind s; e \<leftarrow> ind_get ind (i mod (p * p) div p);
        if e = 0 then Some (0, s) else do { (_, ind, s) \<leftarrow> fs_read e ind s; r \<leftarrow> ind_get ind (i mod (p * p) mod p); Some (r, s) } } } =
      Some (tree_lookup (view (disk s)) (bs div 4) 3 b (unat i), s')" and "quiet view ready s s'" and "heap_calls s' = heap_calls s"
proof -
  let ?n = "bs div 4" and ?V = "view (disk s)"
  have v: "valid b" using path nz by (simp add: numeral_3_eq_3)
  have u: "unat (i div (p * p)) = unat i div ?n ^ 2" "unat (i mod (p * p)) = unat i mod ?n ^ 2"
    using pp by (simp_all add: unat_div_distrib unat_mod_distrib power2_eq_square)
  have n: "0 < ?n" using i by (cases "?n") auto
  have lt: "unat (i div (p * p)) < ?n" using i by (simp add: u less_mult_imp_div_less power2_eq_square mult.commute)
  have lt2: "unat (i mod (p * p)) < ?n * ?n" using n by (simp add: u power2_eq_square)
  obtain s1 where s1: "fs_read b buf s = Some (0, ?V b, s1)" "quiet view ready s s1"
    "ind_get (?V b) (i div (p * p)) = Some (ptr_at ?V b (unat i div ?n ^ 2))" "length (?V b) = bs" "heap_calls s1 = heap_calls s"
    using read_ptr [OF ok v len lt] u(1) by metis
  show thesis
  proof (cases "ptr_at ?V b (unat i div ?n ^ 2) = 0")
    case True
    with s1 nz show thesis by (intro that [of s1]) (simp_all add: numeral_3_eq_3 numeral_2_eq_2)
  next
    case False
    have ok1: "vol_ok bd ready bs s1" using quiet_vol_ok [OF s1(2) ok] .
    have V1: "view (disk s1) = ?V" using quiet_fields(6) [OF s1(2)] .
    let ?d = "ptr_at ?V b (unat i div ?n ^ 2)"
    have pv: "\<forall>c \<in> set (tree_path (view (disk s1)) ?n 2 ?d (unat (i mod (p * p)))). valid c"
      using path nz unfolding V1 u by (simp add: numeral_3_eq_3 numeral_2_eq_2)
    obtain s2 where s2: "do { (_, ind, s) \<leftarrow> fs_read ?d (?V b) s1; e \<leftarrow> ind_get ind (i mod (p * p) div p);
        if e = 0 then Some (0, s) else do { (_, ind, s) \<leftarrow> fs_read e ind s; r \<leftarrow> ind_get ind (i mod (p * p) mod p); Some (r, s) } } =
      Some (tree_lookup (view (disk s1)) ?n 2 ?d (unat (i mod (p * p))), s2)" "quiet view ready s1 s2" "heap_calls s2 = heap_calls s1"
      by (rule walk2 [OF ok1 pv False lt2 s1(4) p]) (rule that)
    have "quiet view ready s s2" using quiet_trans s1(2) s2(2) .
    with s1 s2(1, 3) False nz show thesis unfolding V1 u
      by (intro that [of s2]) (simp_all add: numeral_3_eq_3 numeral_2_eq_2)
  qed
qed

lemma resolve_direct:
  assumes ok: "vol_ok bd ready bs s" and ib: "length (i_block di) = 15"
    and path: "\<forall>c \<in> set (map_path (view (disk s)) (bs div 4) di (unat l)). valid c"
    and direct: "unat l < 12"
  obtains s' where "ext2_resolve_block_num di l (fs_block_size s) s =
      Some (resolved s (view (disk s)) (bs div 4) di (unat l), s')" and "quiet view ready s s'"
    and "heap_calls s' = heap_calls s + of_bool (map_path (view (disk s)) (bs div 4) di (unat l) \<noteq> [])"
proof -
  let ?n = "bs div 4" and ?p = "fs_block_size s div 4" and ?V = "view (disk s)"
  note p = vol_ok_ptrs(1) [OF ok] and pp = vol_ok_ptrs(3) [OF ok]
  have bsz: "unat (fs_block_size s) = bs" and rdy: "ready (disk s)" using ok by (auto simp: vol_ok_def)
  have "l < 12" using direct by (simp add: word_less_nat_alt)
  with direct ib show thesis
    by (intro that [of s] quiet_refl rdy) (simp_all add: ext2_resolve_block_num_def resolved_def block_map_def map_path_def map_place_def)
qed

lemma resolve_single:
  assumes ok: "vol_ok bd ready bs s" and ib: "length (i_block di) = 15"
    and path: "\<forall>c \<in> set (map_path (view (disk s)) (bs div 4) di (unat l)). valid c"
    and single: "12 \<le> unat l" "unat l - 12 < bs div 4"
  obtains s' where "ext2_resolve_block_num di l (fs_block_size s) s =
      Some (resolved s (view (disk s)) (bs div 4) di (unat l), s')" and "quiet view ready s s'"
    and "heap_calls s' = heap_calls s + of_bool (map_path (view (disk s)) (bs div 4) di (unat l) \<noteq> [])"
proof -
  let ?n = "bs div 4" and ?p = "fs_block_size s div 4" and ?V = "view (disk s)"
  note p = vol_ok_ptrs(1) [OF ok] and pp = vol_ok_ptrs(3) [OF ok]
  have bsz: "unat (fs_block_size s) = bs" and rdy: "ready (disk s)" using ok by (auto simp: vol_ok_def)
  let ?i = "l - 12"
  have l: "\<not> l < 12" "unat ?i = unat l - 12" using single by (auto simp: word_less_nat_alt word_le_nat_alt unat_minus)
  have lt: "?i < ?p" using single p l by (simp add: word_less_nat_alt)
  have place: "map_place ?n (unat l) = (1, 12, unat ?i)" using single l by (simp add: map_place_def)
  show thesis
  proof (cases "i_block di ! 12 = 0")
    case True
    with l lt place ib show thesis
      by (intro that [of s] quiet_refl rdy) (simp_all add: ext2_resolve_block_num_def resolved_def block_map_def map_path_def)
  next
    case False
    then have mp: "map_path ?V ?n di (unat l) \<noteq> []" using place by (simp add: map_path_def)
    show thesis
    proof (cases "no_buffer s")
      case True
      show thesis
        by (rule that [OF _ kmalloc_quiet [OF ok]])
          (use False l lt place ib mp True in \<open>simp_all add: ext2_resolve_block_num_def resolved_def with_kmalloc_None Let_def\<close>)
    next
      case buf: False
    obtain f where f: "heap_answers s (heap_calls s) = Some f"
      and s1: "quiet view ready s (s\<lparr>heap_calls := Suc (heap_calls s)\<rparr>)" (is "quiet _ _ _ ?s1")
      using kmalloc_answer [OF ok buf] by blast
    let ?buf = "map f [0..<unat (fs_block_size s)]"
    have len: "length ?buf = bs" using bsz by simp
    have ok1: "vol_ok bd ready bs ?s1" and V1: "view (disk ?s1) = ?V"
      using quiet_vol_ok [OF s1 ok] quiet_fields(6) [OF s1] by auto
    obtain s2 where s2: "do { (_, ind, s) \<leftarrow> fs_read (i_block di ! 12) ?buf ?s1; r \<leftarrow> ind_get ind ?i; Some (r, s) } =
        Some (tree_lookup ?V ?n 1 (i_block di ! 12) (unat ?i), s2)" "quiet view ready ?s1 s2" "heap_calls s2 = heap_calls ?s1"
      using walk1 [OF ok1 _ False _ len, of ?i] path single(2) l(2) unfolding V1 map_path_def place by auto
    show thesis
      using False l lt place ib s2(1, 3) mp buf quiet_trans [OF s1 s2(2)]
      by (intro that [of s2]) (simp_all add: with_kmalloc_Some [OF f] ext2_resolve_block_num_def resolved_def block_map_def)
    qed
  qed
qed

lemma resolve_double:
  assumes ok: "vol_ok bd ready bs s" and ib: "length (i_block di) = 15"
    and path: "\<forall>c \<in> set (map_path (view (disk s)) (bs div 4) di (unat l)). valid c"
    and double: "12 + bs div 4 \<le> unat l" "unat l - 12 - bs div 4 < bs div 4 * (bs div 4)"
  obtains s' where "ext2_resolve_block_num di l (fs_block_size s) s =
      Some (resolved s (view (disk s)) (bs div 4) di (unat l), s')" and "quiet view ready s s'"
    and "heap_calls s' = heap_calls s + of_bool (map_path (view (disk s)) (bs div 4) di (unat l) \<noteq> [])"
proof -
  let ?n = "bs div 4" and ?p = "fs_block_size s div 4" and ?V = "view (disk s)"
  note p = vol_ok_ptrs(1) [OF ok] and pp = vol_ok_ptrs(3) [OF ok]
  have bsz: "unat (fs_block_size s) = bs" and rdy: "ready (disk s)" using ok by (auto simp: vol_ok_def)
  let ?i = "l - 12 - ?p"
  have l: "\<not> l < 12" "unat (l - 12) = unat l - 12" using double by (auto simp: word_less_nat_alt word_le_nat_alt unat_minus)
  have l2: "\<not> l - 12 < ?p" "unat ?i = unat l - 12 - ?n"
    using double l p by (auto simp: word_less_nat_alt word_le_nat_alt unat_minus)
  have lt: "?i < ?p * ?p" using double pp l2 by (simp add: word_less_nat_alt)
  have place: "map_place ?n (unat l) = (2, 13, unat ?i)" using double l2 by (simp add: map_place_def)
  let ?W = "\<lambda>ind s. do { (_, ind, s) \<leftarrow> fs_read (i_block di ! 13) ind s; e \<leftarrow> ind_get ind (?i div ?p);
      if e = 0 then Some (0, s) else do { (_, ind, s) \<leftarrow> fs_read e ind s; r \<leftarrow> ind_get ind (?i mod ?p); Some (r, s) } }"
  show thesis
  proof (cases "i_block di ! 13 = 0")
    case True
    with l l2 lt place ib show thesis
      by (intro that [of s] quiet_refl rdy) (simp_all add: ext2_resolve_block_num_def resolved_def block_map_def map_path_def numeral_2_eq_2)
  next
    case False
    then have mp: "map_path ?V ?n di (unat l) \<noteq> []" using place by (simp add: map_path_def numeral_2_eq_2)
    show thesis
    proof (cases "no_buffer s")
      case True
      show thesis
        by (rule that [OF _ kmalloc_quiet [OF ok]])
          (use False l l2 lt place ib mp True in \<open>simp_all add: ext2_resolve_block_num_def resolved_def with_kmalloc_None Let_def\<close>)
    next
      case buf: False
    obtain f where f: "heap_answers s (heap_calls s) = Some f"
      and s1: "quiet view ready s (s\<lparr>heap_calls := Suc (heap_calls s)\<rparr>)" (is "quiet _ _ _ ?s1")
      using kmalloc_answer [OF ok buf] by blast
    let ?buf = "map f [0..<unat (fs_block_size s)]"
    have len: "length ?buf = bs" using bsz by simp
    have ok1: "vol_ok bd ready bs ?s1" and V1: "view (disk ?s1) = ?V"
      using quiet_vol_ok [OF s1 ok] quiet_fields(6) [OF s1] by auto
    obtain s2 where s2: "?W ?buf ?s1 = Some (tree_lookup ?V ?n 2 (i_block di ! 13) (unat ?i), s2)" "quiet view ready ?s1 s2" "heap_calls s2 = heap_calls ?s1"
      using walk2 [OF ok1 _ False _ len p, of ?i] path double(2) l2(2) unfolding V1 map_path_def place by auto
    show thesis
      using False l l2 lt place ib s2(1, 3) mp buf quiet_trans [OF s1 s2(2)]
      by (intro that [of s2]) (simp_all add: with_kmalloc_Some [OF f] ext2_resolve_block_num_def resolved_def block_map_def Let_def)
    qed
  qed
qed

lemma resolve_triple:
  assumes ok: "vol_ok bd ready bs s" and ib: "length (i_block di) = 15"
    and path: "\<forall>c \<in> set (map_path (view (disk s)) (bs div 4) di (unat l)). valid c"
    and triple: "12 + bs div 4 + bs div 4 * (bs div 4) \<le> unat l"
      "unat l < 12 + bs div 4 + (bs div 4) * (bs div 4) + (bs div 4) * (bs div 4) * (bs div 4)"
  obtains s' where "ext2_resolve_block_num di l (fs_block_size s) s =
      Some (resolved s (view (disk s)) (bs div 4) di (unat l), s')" and "quiet view ready s s'"
    and "heap_calls s' = heap_calls s + of_bool (map_path (view (disk s)) (bs div 4) di (unat l) \<noteq> [])"
proof -
  let ?n = "bs div 4" and ?p = "fs_block_size s div 4" and ?V = "view (disk s)"
  note p = vol_ok_ptrs(1) [OF ok] and pp = vol_ok_ptrs(3) [OF ok]
  have bsz: "unat (fs_block_size s) = bs" and rdy: "ready (disk s)" using ok by (auto simp: vol_ok_def)
  let ?i = "l - 12 - ?p - ?p * ?p"
  have l: "\<not> l < 12" "unat (l - 12) = unat l - 12" using triple(1) by (auto simp: word_less_nat_alt word_le_nat_alt unat_minus)
  have l2: "\<not> l - 12 < ?p" "unat (l - 12 - ?p) = unat l - 12 - ?n"
    using triple(1) l p by (auto simp: word_less_nat_alt word_le_nat_alt unat_minus)
  have l3: "\<not> l - 12 - ?p < ?p * ?p" "unat ?i = unat l - 12 - ?n - ?n * ?n"
  proof -
    have "?n * ?n \<le> unat l - 12 - ?n" using triple(1) by linarith
    then have le: "?p * ?p \<le> l - 12 - ?p" by (simp only: word_le_nat_alt pp l2(2))
    then show "\<not> l - 12 - ?p < ?p * ?p" by (simp only: not_less)
    show "unat ?i = unat l - 12 - ?n - ?n * ?n" by (simp only: unat_minus [OF le] pp l2(2))
  qed
  have "\<not> unat l < 12" "\<not> unat l - 12 < ?n" "\<not> unat l - 12 - ?n < ?n * ?n" using triple(1) by linarith+
  then have place: "map_place ?n (unat l) = (3, 14, unat ?i)" by (simp only: map_place_def l3(2) if_False)
  let ?W = "\<lambda>ind s. do { (_, ind, s) \<leftarrow> fs_read (i_block di ! 14) ind s; d \<leftarrow> ind_get ind (?i div (?p * ?p));
      if d = 0 then Some (0, s) else do { (_, ind, s) \<leftarrow> fs_read d ind s; e \<leftarrow> ind_get ind (?i mod (?p * ?p) div ?p);
      if e = 0 then Some (0, s) else do { (_, ind, s) \<leftarrow> fs_read e ind s; r \<leftarrow> ind_get ind (?i mod (?p * ?p) mod ?p); Some (r, s) } } }"
  show thesis
  proof (cases "i_block di ! 14 = 0")
    case True
    with l l2 l3 place ib show thesis
      by (intro that [of s] quiet_refl rdy) (simp_all add: ext2_resolve_block_num_def resolved_def block_map_def map_path_def numeral_3_eq_3)
  next
    case False
    then have mp: "map_path ?V ?n di (unat l) \<noteq> []" using place by (simp add: map_path_def numeral_3_eq_3)
    show thesis
    proof (cases "no_buffer s")
      case True
      show thesis
        by (rule that [OF _ kmalloc_quiet [OF ok]])
          (use False l l2 l3 place ib mp True in \<open>simp_all add: ext2_resolve_block_num_def resolved_def with_kmalloc_None Let_def\<close>)
    next
      case buf: False
    obtain f where f: "heap_answers s (heap_calls s) = Some f"
      and s1: "quiet view ready s (s\<lparr>heap_calls := Suc (heap_calls s)\<rparr>)" (is "quiet _ _ _ ?s1")
      using kmalloc_answer [OF ok buf] by blast
    let ?buf = "map f [0..<unat (fs_block_size s)]"
    have len: "length ?buf = bs" using bsz by simp
    have ok1: "vol_ok bd ready bs ?s1" and V1: "view (disk ?s1) = ?V"
      using quiet_vol_ok [OF s1 ok] quiet_fields(6) [OF s1] by auto
    have "unat ?i < ?n * ?n * ?n" using l3(2) triple by linarith
    then obtain s2 where s2: "?W ?buf ?s1 = Some (tree_lookup ?V ?n 3 (i_block di ! 14) (unat ?i), s2)" "quiet view ready ?s1 s2" "heap_calls s2 = heap_calls ?s1"
      using walk3 [OF ok1 _ False _ len p pp, of ?i] path unfolding V1 map_path_def place by auto
    show thesis
      using False l l2 l3 place ib s2(1, 3) mp buf quiet_trans [OF s1 s2(2)]
      by (intro that [of s2]) (simp_all add: with_kmalloc_Some [OF f] ext2_resolve_block_num_def resolved_def block_map_def Let_def)
    qed
  qed
qed

lemma resolve_ok:
  assumes ok: "vol_ok bd ready bs s" and ib: "length (i_block di) = 15"
    and path: "\<forall>c \<in> set (map_path (view (disk s)) (bs div 4) di (unat l)). valid c"
    and bound: "unat l < 12 + bs div 4 + (bs div 4) * (bs div 4) + (bs div 4) * (bs div 4) * (bs div 4)"
  obtains s' where "ext2_resolve_block_num di l (fs_block_size s) s =
      Some (resolved s (view (disk s)) (bs div 4) di (unat l), s')" and "quiet view ready s s'"
    and "heap_calls s' = heap_calls s + of_bool (map_path (view (disk s)) (bs div 4) di (unat l) \<noteq> [])"
proof -
  consider (direct) "unat l < 12" | (single) "12 \<le> unat l" "unat l - 12 < bs div 4"
    | (double) "12 + bs div 4 \<le> unat l" "unat l - 12 - bs div 4 < bs div 4 * (bs div 4)"
    | (triple) "12 + bs div 4 + bs div 4 * (bs div 4) \<le> unat l" by linarith
  then show thesis
  proof cases
    case direct
    then show thesis by (rule resolve_direct [OF ok ib path]) (rule that)
  next
    case single
    then show thesis by (rule resolve_single [OF ok ib path]) (rule that)
  next
    case double
    then show thesis by (rule resolve_double [OF ok ib path]) (rule that)
  next
    case triple
    then show thesis using bound by (rule resolve_triple [OF ok ib path]) (rule that)
  qed
qed

end

end
