(* ===== verification/Ext2_Inode.thy ===== *)
theory Ext2_Inode
  imports Ext2_Block
begin

text \<open>
  Inodes on disk and their numbers: locating, reading, writing, allocating and deleting an inode
  (\<open>fs/ext2/inode.c\<close>), and the inode constructor of the VFS (\<open>fs/vfs/inode.c\<close>).
\<close>

section \<open>Location\<close>

definition inode_size :: "ext2_superblock \<Rightarrow> u32" where
  "inode_size sb = (if EXT2_DYNAMIC_REV \<le> s_rev_level sb then ucast (s_inode_size sb) else 128)"

definition ext2_get_inode_block :: "u32 \<Rightarrow> 'd ext2 \<Rightarrow> u32 option" where
  "ext2_get_inode_block ino s =
     (if ino = 0 then Some 0 else do {
        grp \<leftarrow> udiv (ino - 1) (s_inodes_per_group (fs_sb s));
        index \<leftarrow> umod (ino - 1) (s_inodes_per_group (fs_sb s));
        block_offset \<leftarrow> udiv (index * inode_size (fs_sb s)) (fs_block_size s);
        gd \<leftarrow> aget (fs_group_desc s) (unat grp);
        Some (bg_inode_table gd + block_offset) })"

text \<open>The block and the byte offset that \<open>ext2_read_inode_raw\<close> and \<open>ext2_write_inode_raw\<close> compute.\<close>

definition inode_slot :: "u32 \<Rightarrow> 'd ext2 \<Rightarrow> (u32 \<times> u32) option" where
  "inode_slot ino s = do {
     grp \<leftarrow> udiv (ino - 1) (s_inodes_per_group (fs_sb s));
     index \<leftarrow> umod (ino - 1) (s_inodes_per_group (fs_sb s));
     inodes_per_block \<leftarrow> udiv (fs_block_size s) (inode_size (fs_sb s));
     block_offset \<leftarrow> udiv index inodes_per_block;
     m \<leftarrow> umod index inodes_per_block;
     gd \<leftarrow> aget (fs_group_desc s) (unat grp);
     Some (bg_inode_table gd + block_offset, m * inode_size (fs_sb s)) }"

section \<open>Raw inode I/O\<close>

definition ext2_read_inode_raw :: "u32 \<Rightarrow> ext2_inode \<Rightarrow> 'd ext2 \<Rightarrow> (int \<times> ext2_inode \<times> 'd ext2) option" where
  "ext2_read_inode_raw ino inode s =
     (if ino = 0 then Some (- 1, inode, s) else do {
        (blk, offset_in_block) \<leftarrow> inode_slot ino s;
        with_kmalloc (fs_block_size s) (\<lambda>s. Some (- 1, inode, s)) (\<lambda>buf s. do {
          (ret, buf, s) \<leftarrow> fs_read blk buf s;
          if ret = 0 then do {
            raw \<leftarrow> buf_get buf (unat offset_in_block) 128;
            Some (ret, dec_inode raw, s) }
          else Some (ret, inode, s) }) s })"

definition ext2_write_inode_raw :: "u32 \<Rightarrow> ext2_inode \<Rightarrow> 'd ext2 \<Rightarrow> (int \<times> 'd ext2) option" where
  "ext2_write_inode_raw ino inode s =
     (if ino = 0 then Some (- 1, s) else do {
        (blk, offset_in_block) \<leftarrow> inode_slot ino s;
        with_kmalloc (fs_block_size s) (\<lambda>s. Some (- 1, s)) (\<lambda>buf s. do {
          (ret, buf, s) \<leftarrow> fs_read blk buf s;
          if ret \<noteq> 0 then Some (ret, s)
          else do {
            buf \<leftarrow> buf_put buf (unat offset_in_block) (enc_inode inode);
            fs_write blk buf s } }) s })"

section \<open>VFS inodes\<close>

definition inode_new :: "u32 \<Rightarrow> u32 \<Rightarrow> inode" where
  "inode_new blocksize n =
     \<lparr>v_ino = n, v_mode = 0, v_size = 0, v_uid = 0, v_gid = 0, v_nlink = 0, v_atime = 0, v_mtime = 0, v_ctime = 0,
      v_blksize = blocksize, v_blocks = 0, v_flags = 0, v_ref_count = 1,
      v_disk_inode = zero_inode, v_block_group = 0, v_index_in_group = 0\<rparr>"

text \<open>\<open>ei\<close> (136 bytes) and the \<open>inode_t\<close> (64 bytes) come from the heap.\<close>

definition ext2_read_inode :: "u32 \<Rightarrow> 'd ext2 \<Rightarrow> (inode option \<times> 'd ext2) option" where
  "ext2_read_inode n s =
     (if n = 0 then Some (None, s)
      else with_kmalloc 136 (\<lambda>s. Some (None, s)) (\<lambda>_ s. do {
        (ret, di, s) \<leftarrow> ext2_read_inode_raw n zero_inode s;
        if ret \<noteq> 0 then Some (None, s)
        else do {
          grp \<leftarrow> udiv (n - 1) (s_inodes_per_group (fs_sb s));
          index \<leftarrow> umod (n - 1) (s_inodes_per_group (fs_sb s));
          with_kmalloc 64 (\<lambda>s. Some (None, s)) (\<lambda>_ s.
            Some (Some ((inode_new (fs_block_size s) n)
              \<lparr>v_mode := ucast (i_mode di), v_size := i_size di, v_uid := ucast (i_uid di), v_gid := ucast (i_gid di),
               v_nlink := ucast (i_links_count di), v_atime := i_atime di, v_mtime := i_mtime di,
               v_ctime := i_ctime di, v_blksize := fs_block_size s, v_blocks := i_blocks di,
               v_flags := i_flags di, v_disk_inode := di, v_block_group := grp, v_index_in_group := index\<rparr>), s)) s } }) s)"

text \<open>The metadata of the VFS inode copied into its on-disk form.\<close>

definition sync_disk_inode :: "inode \<Rightarrow> inode" where
  "sync_disk_inode v = v\<lparr>v_disk_inode := (v_disk_inode v)
     \<lparr>i_mode := ucast (v_mode v), i_uid := ucast (v_uid v), i_size := v_size v, i_gid := ucast (v_gid v),
      i_links_count := ucast (v_nlink v), i_atime := v_atime v, i_mtime := v_mtime v, i_ctime := v_ctime v,
      i_blocks := v_blocks v, i_flags := v_flags v\<rparr>\<rparr>"

definition ext2_write_inode :: "inode \<Rightarrow> 'd ext2 \<Rightarrow> (int \<times> inode \<times> 'd ext2) option" where
  "ext2_write_inode v s =
     (let v = sync_disk_inode v in do {
        (ret, s) \<leftarrow> ext2_write_inode_raw (v_ino v) (v_disk_inode v) s;
        Some (ret, v, s) })"

section \<open>Inode bitmap allocation\<close>

primrec alloc_inode_groups :: "nat list \<Rightarrow> u8 list \<Rightarrow> 'd ext2 \<Rightarrow> (u32 \<times> 'd ext2) option" where
  "alloc_inode_groups [] bitmap s = Some (0, s)"
| "alloc_inode_groups (g # gs) bitmap s = do {
     gd \<leftarrow> aget (fs_group_desc s) g;
     if bg_free_inodes_count gd = 0 then alloc_inode_groups gs bitmap s
     else do {
       (_, bitmap, s) \<leftarrow> fs_read (bg_inode_bitmap gd) bitmap s;
       r \<leftarrow> scan_bits bitmap 0 (unat (s_inodes_per_group (fs_sb s)));
       case r of None \<Rightarrow> alloc_inode_groups gs bitmap s
       | Some i \<Rightarrow> do {
           w \<leftarrow> get8 bitmap (i div 8);
           bitmap \<leftarrow> put8 bitmap (i div 8) (w OR push_bit (i mod 8) 1);
           (_, s) \<leftarrow> fs_write (bg_inode_bitmap gd) bitmap s;
           s \<leftarrow> Some (s\<lparr>fs_group_desc := (fs_group_desc s)[g := gd\<lparr>bg_free_inodes_count := bg_free_inodes_count gd - 1\<rparr>],
                  fs_sb := (fs_sb s)\<lparr>s_free_inodes_count := s_free_inodes_count (fs_sb s) - 1\<rparr>\<rparr>);
           (_, s) \<leftarrow> ext2_flush_group_desc (of_nat g) s;
           (_, s) \<leftarrow> ext2_flush_superblock s;
           Some (of_nat g * s_inodes_per_group (fs_sb s) + of_nat i + 1, s) } } }"

definition ext2_alloc_inode :: "'d ext2 \<Rightarrow> (u32 \<times> 'd ext2) option" where
  "ext2_alloc_inode s =
     (if s_free_inodes_count (fs_sb s) = 0 then Some (0, s)
      else with_kmalloc (fs_block_size s) (\<lambda>s. Some (0, s))
        (\<lambda>bitmap s. alloc_inode_groups [0..<unat (fs_groups_count s)] bitmap s) s)"

definition ext2_free_inode :: "u32 \<Rightarrow> 'd ext2 \<Rightarrow> 'd ext2 option" where
  "ext2_free_inode n s = do {
     grp \<leftarrow> udiv (n - 1) (s_inodes_per_group (fs_sb s));
     index \<leftarrow> umod (n - 1) (s_inodes_per_group (fs_sb s));
     with_kmalloc (fs_block_size s) (\<lambda>s. Some s) (\<lambda>bitmap s. do {
       gd \<leftarrow> aget (fs_group_desc s) (unat grp);
       (_, bitmap, s) \<leftarrow> fs_read (bg_inode_bitmap gd) bitmap s;
       w \<leftarrow> get8 bitmap (unat index div 8);
       bitmap \<leftarrow> put8 bitmap (unat index div 8) (w AND NOT (push_bit (unat index mod 8) 1));
       (_, s) \<leftarrow> fs_write (bg_inode_bitmap gd) bitmap s;
       s \<leftarrow> Some (s\<lparr>fs_group_desc := (fs_group_desc s)[unat grp := gd\<lparr>bg_free_inodes_count := bg_free_inodes_count gd + 1\<rparr>],
              fs_sb := (fs_sb s)\<lparr>s_free_inodes_count := s_free_inodes_count (fs_sb s) + 1\<rparr>\<rparr>);
       (_, s) \<leftarrow> ext2_flush_group_desc grp s;
       (_, s) \<leftarrow> ext2_flush_superblock s;
       Some s }) s }"

section \<open>Deletion\<close>

text \<open>Free the blocks an indirect block lists, leaving the buffer as it is.\<close>

primrec free_listed :: "nat list \<Rightarrow> u8 list \<Rightarrow> 'd ext2 \<Rightarrow> 'd ext2 option" where
  "free_listed [] ind s = Some s"
| "free_listed (j # js) ind s = do {
     e \<leftarrow> get32 ind (4 * j);
     s \<leftarrow> (if e \<noteq> 0 then ext2_free_block e s else Some s);
     free_listed js ind s }"

definition ext2_delete_inode :: "inode \<Rightarrow> 'd ext2 \<Rightarrow> (int \<times> inode \<times> 'd ext2) option" where
  "ext2_delete_inode v s = do {
     (di, s) \<leftarrow> free_direct [0..<12] (v_disk_inode v) s;
     b12 \<leftarrow> aget (i_block di) 12;
     s \<leftarrow> (if b12 \<noteq> 0 then do {
         s \<leftarrow> with_kmalloc (fs_block_size s) (\<lambda>s. Some s) (\<lambda>ind s. do {
           (_, ind, s) \<leftarrow> fs_read b12 ind s;
           free_listed [0..<unat (fs_block_size s div 4)] ind s }) s;
         ext2_free_block b12 s }
       else Some s);
     (_, s) \<leftarrow> ext2_write_inode_raw (v_ino v) zero_inode s;
     s \<leftarrow> ext2_free_inode (v_ino v) s;
     Some (0, v\<lparr>v_disk_inode := zero_inode\<rparr>, s) }"

end
