(* ===== verification/Ext2_Dir.thy ===== *)
theory Ext2_Dir
  imports Ext2_Inode
begin

text \<open>
  Directories of ext2 (\<open>fs/ext2/directory.c\<close>): the records inside a directory block, searching, adding
  and removing an entry, and the operations \<open>create\<close>, \<open>mkdir\<close>, \<open>unlink\<close> and \<open>rmdir\<close>.  Names are the
  bytes of the C string before its NUL.
\<close>

section \<open>Entry types\<close>

definition ext2_get_dir_entry_type :: "u8 \<Rightarrow> u32" where
  "ext2_get_dir_entry_type t =
     (if t = EXT2_FT_REG_FILE then FS_FILE_TYPE_REGULAR
      else if t = EXT2_FT_DIR then FS_FILE_TYPE_DIR
      else if t = EXT2_FT_CHRDEV then FS_FILE_TYPE_CHAR
      else if t = EXT2_FT_BLKDEV then FS_FILE_TYPE_BLOCK
      else if t = EXT2_FT_FIFO then FS_FILE_TYPE_FIFO
      else if t = EXT2_FT_SOCK then FS_FILE_TYPE_SOCKET
      else if t = EXT2_FT_SYMLINK then FS_FILE_TYPE_LINK
      else 0)"

definition ext2_set_dir_entry_type :: "u32 \<Rightarrow> u8" where
  "ext2_set_dir_entry_type vfs_type =
     (let t = vfs_type AND FS_FILE_TYPE_MASK in
      if t = FS_FILE_TYPE_REGULAR then EXT2_FT_REG_FILE
      else if t = FS_FILE_TYPE_DIR then EXT2_FT_DIR
      else if t = FS_FILE_TYPE_CHAR then EXT2_FT_CHRDEV
      else if t = FS_FILE_TYPE_BLOCK then EXT2_FT_BLKDEV
      else if t = FS_FILE_TYPE_FIFO then EXT2_FT_FIFO
      else if t = FS_FILE_TYPE_SOCKET then EXT2_FT_SOCK
      else if t = FS_FILE_TYPE_LINK then EXT2_FT_SYMLINK
      else EXT2_FT_UNKNOWN)"

section \<open>Records of a directory block\<close>

text \<open>Fields of the \<open>ext2_dir_entry_t\<close> at byte \<open>off\<close> of a block: \<open>inode\<close>, \<open>rec_len\<close>, \<open>name_len\<close>,
  \<open>file_type\<close>, \<open>name\<close>.\<close>

definition de_inode :: "u8 list \<Rightarrow> nat \<Rightarrow> u32 option" where "de_inode b off = get32 b off"
definition de_rec_len :: "u8 list \<Rightarrow> nat \<Rightarrow> u16 option" where "de_rec_len b off = get16 b (off + 4)"
definition de_name_len :: "u8 list \<Rightarrow> nat \<Rightarrow> u8 option" where "de_name_len b off = get8 b (off + 6)"

definition ext2_dir_rec_len :: "u8 \<Rightarrow> u32" where
  "ext2_dir_rec_len name_len = (8 + ucast name_len + 3) AND NOT 3"

text \<open>\<open>memcmp(b + off, name, strlen(name))\<close>.\<close>

primrec memcmp_at :: "u8 list \<Rightarrow> nat \<Rightarrow> u8 list \<Rightarrow> int option" where
  "memcmp_at b off [] = Some 0"
| "memcmp_at b off (c # cs) = do {
     a \<leftarrow> get8 b off;
     if a < c then Some (- 1) else if c < a then Some 1 else memcmp_at b (off + 1) cs }"

text \<open>The test \<open>de->inode != 0 && de->name_len == nlen && memcmp(de->name, name, nlen) == 0\<close>.\<close>

definition de_matches :: "u8 list \<Rightarrow> nat \<Rightarrow> u8 list \<Rightarrow> bool option" where
  "de_matches b off name = do {
     i \<leftarrow> de_inode b off;
     if i = 0 then Some False
     else do {
       l \<leftarrow> de_name_len b off;
       if ucast l \<noteq> (of_nat (length name) :: u32) then Some False
       else do { c \<leftarrow> memcmp_at b (off + 8) name; Some (c = 0) } } }"

section \<open>Lookup\<close>

lemma rec_len_progress: "rec_len \<noteq> (0 :: u16) \<Longrightarrow> off < bs \<Longrightarrow> bs - (off + unat rec_len) < bs - off"
  by (cases "unat rec_len") (auto simp: unat_eq_zero)

text \<open>The \<open>while (off < bs)\<close> loop over one block: the offset of the matching entry.\<close>

function find_in_block :: "u8 list \<Rightarrow> nat \<Rightarrow> nat \<Rightarrow> u8 list \<Rightarrow> nat option option" where
  "find_in_block b off bs name =
     (if off < bs then do {
        rec_len \<leftarrow> de_rec_len b off;
        if rec_len = 0 then Some None
        else do {
          m \<leftarrow> de_matches b off name;
          if m then Some (Some off) else find_in_block b (off + unat rec_len) bs name } }
      else Some None)"
  by pat_completeness auto
termination
  by (relation "measure (\<lambda>(_, off, bs, _). bs - off)") (auto intro: rec_len_progress)

declare find_in_block.simps [simp del]

text \<open>The loop over the blocks of the directory; the result is the copy of the entry (\<open>None\<close> for
  NULL).\<close>

primrec find_in_blocks ::
  "nat list \<Rightarrow> ext2_inode \<Rightarrow> u8 list \<Rightarrow> u8 list \<Rightarrow> 'd ext2 \<Rightarrow> (u8 list option \<times> 'd ext2) option" where
  "find_in_blocks [] di name buf s = Some (None, s)"
| "find_in_blocks (k # ks) di name buf s = do {
     (phys, s) \<leftarrow> ext2_resolve_block_num di (of_nat k) (fs_block_size s) s;
     if phys = 0 then find_in_blocks ks di name buf s
     else do {
       (_, buf, s) \<leftarrow> fs_read phys buf s;
       r \<leftarrow> find_in_block buf 0 (unat (fs_block_size s)) name;
       case r of None \<Rightarrow> find_in_blocks ks di name buf s
       | Some off \<Rightarrow> do {
           nl \<leftarrow> de_name_len buf off;
           with_kmalloc (ext2_dir_rec_len nl) (\<lambda>s. Some (None, s)) (\<lambda>_ s. do {
             c \<leftarrow> buf_get buf off (unat (ext2_dir_rec_len nl));
             Some (Some c, s) }) s } } }"

definition dir_blocks :: "inode \<Rightarrow> 'd ext2 \<Rightarrow> nat" where
  "dir_blocks dir s = unat ((v_size dir + fs_block_size s - 1) div fs_block_size s)"

definition ext2_find_dir_entry :: "inode \<Rightarrow> u8 list \<Rightarrow> 'd ext2 \<Rightarrow> (u8 list option \<times> 'd ext2) option" where
  "ext2_find_dir_entry dir name s =
     (if \<not> FS_IS_DIR (v_mode dir) then Some (None, s)
      else with_kmalloc (fs_block_size s) (\<lambda>s. Some (None, s)) (\<lambda>buf s.
        find_in_blocks [0..<dir_blocks dir s] (v_disk_inode dir) name buf s) s)"

definition ext2_lookup :: "inode \<Rightarrow> u8 list \<Rightarrow> 'd ext2 \<Rightarrow> (inode option \<times> 'd ext2) option" where
  "ext2_lookup dir name s = do {
     (de, s) \<leftarrow> ext2_find_dir_entry dir name s;
     case de of None \<Rightarrow> Some (None, s)
     | Some e \<Rightarrow> do { n \<leftarrow> de_inode e 0; ext2_read_inode n s } }"

section \<open>Adding an entry\<close>

text \<open>Store the fields of a new entry at \<open>off\<close>, all but \<open>rec_len\<close>.\<close>

definition put_entry :: "u8 list \<Rightarrow> nat \<Rightarrow> u32 \<Rightarrow> u8 list \<Rightarrow> u8 \<Rightarrow> u8 list option" where
  "put_entry b off n name ty = do {
     b \<leftarrow> put32 b off n;
     b \<leftarrow> put8 b (off + 6) (of_nat (length name));
     b \<leftarrow> put8 b (off + 7) ty;
     buf_put b (off + 8) name }"

text \<open>The search for room in one block; the result is the updated block when there is room.\<close>

function insert_in_block ::
  "u8 list \<Rightarrow> nat \<Rightarrow> nat \<Rightarrow> u32 \<Rightarrow> u8 list \<Rightarrow> u8 \<Rightarrow> u8 list option option" where
  "insert_in_block b off bs n name ty =
     (if off < bs then do {
        rec_len \<leftarrow> de_rec_len b off;
        if rec_len = 0 then Some None
        else do {
          nl \<leftarrow> de_name_len b off;
          i \<leftarrow> de_inode b off;
          let need = ext2_dir_rec_len (of_nat (length name));
              actual = ext2_dir_rec_len nl;
              slack = ucast rec_len - actual in
          if i = 0 \<and> need \<le> ucast rec_len then do {
            b \<leftarrow> put_entry b off n name ty; Some (Some b) }
          else if need \<le> slack then do {
            b \<leftarrow> put16 b (off + 4) (ucast actual);
            b \<leftarrow> put16 b (off + unat actual + 4) (ucast slack);
            b \<leftarrow> put_entry b (off + unat actual) n name ty;
            Some (Some b) }
          else insert_in_block b (off + unat rec_len) bs n name ty } }
      else Some None)"
  by pat_completeness auto
termination
  by (relation "measure (\<lambda>(_, off, bs, _). bs - off)") (auto intro: rec_len_progress)

declare insert_in_block.simps [simp del]

text \<open>The loop over the existing blocks: whether the entry was stored, and the block buffer.\<close>

primrec insert_in_blocks ::
  "nat list \<Rightarrow> ext2_inode \<Rightarrow> u32 \<Rightarrow> u8 list \<Rightarrow> u8 \<Rightarrow> u8 list \<Rightarrow> 'd ext2 \<Rightarrow> (bool \<times> 'd ext2) option" where
  "insert_in_blocks [] di n name ty buf s = Some (False, s)"
| "insert_in_blocks (k # ks) di n name ty buf s = do {
     (phys, s) \<leftarrow> ext2_resolve_block_num di (of_nat k) (fs_block_size s) s;
     if phys = 0 then insert_in_blocks ks di n name ty buf s
     else do {
       (_, buf, s) \<leftarrow> fs_read phys buf s;
       r \<leftarrow> insert_in_block buf 0 (unat (fs_block_size s)) n name ty;
       case r of None \<Rightarrow> insert_in_blocks ks di n name ty buf s
       | Some buf \<Rightarrow> do { (_, s) \<leftarrow> fs_write phys buf s; Some (True, s) } } }"

definition ext2_add_dir_entry ::
  "inode \<Rightarrow> u8 list \<Rightarrow> u32 \<Rightarrow> u8 \<Rightarrow> 'd ext2 \<Rightarrow> (int \<times> inode \<times> 'd ext2) option" where
  "ext2_add_dir_entry dir name n ty s =
     (if n = 0 then Some (- 1, dir, s)
      else if 255 < (of_nat (length name) :: u32) then Some (- 1, dir, s)
      else let bs = fs_block_size s in
      with_kmalloc bs (\<lambda>s. Some (- 1, dir, s)) (\<lambda>buf s. do {
        (stored, s) \<leftarrow> insert_in_blocks [0..<dir_blocks dir s] (v_disk_inode dir) n name ty buf s;
        if stored then Some (0, dir, s)
        else do {
          (new_blk, s) \<leftarrow> ext2_alloc_block s;
          if new_blk = 0 then Some (- 1, dir, s)
          else do {
            (ret, di, s) \<leftarrow> ext2_assign_block_num (v_disk_inode dir) (of_nat (dir_blocks dir s)) new_blk bs s;
            if ret \<noteq> 0 then do {
              s \<leftarrow> ext2_free_block new_blk s;
              Some (- 1, dir\<lparr>v_disk_inode := di\<rparr>, s) }
            else do {
              buf \<leftarrow> put16 (replicate (unat bs) 0) 4 (ucast bs);
              buf \<leftarrow> put_entry buf 0 n name ty;
              (_, s) \<leftarrow> fs_write new_blk buf s;
              dir \<leftarrow> Some (dir\<lparr>v_size := v_size dir + bs, v_blocks := i_blocks di + bs div 512,
                v_disk_inode := di\<lparr>i_size := v_size dir + bs, i_blocks := i_blocks di + bs div 512\<rparr>\<rparr>);
              (_, dir, s) \<leftarrow> ext2_write_inode dir s;
              Some (0, dir, s) } } } }) s)"

section \<open>Removing an entry\<close>

text \<open>The search in one block, remembering the previous entry; the result is the updated block.\<close>

function remove_in_block :: "u8 list \<Rightarrow> nat option \<Rightarrow> nat \<Rightarrow> nat \<Rightarrow> u8 list \<Rightarrow> u8 list option option" where
  "remove_in_block b prev off bs name =
     (if off < bs then do {
        rec_len \<leftarrow> de_rec_len b off;
        if rec_len = 0 then Some None
        else do {
          m \<leftarrow> de_matches b off name;
          if m then (case prev of
              Some p \<Rightarrow> do {
                prev_len \<leftarrow> de_rec_len b p;
                b \<leftarrow> put16 b (p + 4) (prev_len + rec_len);
                Some (Some b) }
            | None \<Rightarrow> do { b \<leftarrow> put32 b off 0; Some (Some b) })
          else remove_in_block b (Some off) (off + unat rec_len) bs name } }
      else Some None)"
  by pat_completeness auto
termination
  by (relation "measure (\<lambda>(_, _, off, bs, _). bs - off)") (auto intro: rec_len_progress)

declare remove_in_block.simps [simp del]

primrec remove_in_blocks ::
  "nat list \<Rightarrow> ext2_inode \<Rightarrow> u8 list \<Rightarrow> u8 list \<Rightarrow> 'd ext2 \<Rightarrow> (int \<times> 'd ext2) option" where
  "remove_in_blocks [] di name buf s = Some (- 1, s)"
| "remove_in_blocks (k # ks) di name buf s = do {
     (phys, s) \<leftarrow> ext2_resolve_block_num di (of_nat k) (fs_block_size s) s;
     if phys = 0 then remove_in_blocks ks di name buf s
     else do {
       (_, buf, s) \<leftarrow> fs_read phys buf s;
       r \<leftarrow> remove_in_block buf None 0 (unat (fs_block_size s)) name;
       case r of None \<Rightarrow> remove_in_blocks ks di name buf s
       | Some buf \<Rightarrow> do { (_, s) \<leftarrow> fs_write phys buf s; Some (0, s) } } }"

definition ext2_remove_dir_entry :: "inode \<Rightarrow> u8 list \<Rightarrow> 'd ext2 \<Rightarrow> (int \<times> 'd ext2) option" where
  "ext2_remove_dir_entry dir name s =
     with_kmalloc (fs_block_size s) (\<lambda>s. Some (- 1, s)) (\<lambda>buf s.
       remove_in_blocks [0..<dir_blocks dir s] (v_disk_inode dir) name buf s) s"

section \<open>Copying file contents\<close>

text \<open>
  The loop of \<open>ext2_readdir\<close>, which is also the loop of \<open>ext2_read\<close>: copy \<open>count\<close> bytes from file
  position \<open>offset\<close> into \<open>out\<close>, block by block; a block that is not mapped reads as zeros.
\<close>

partial_function (option) copy_blocks ::
  "ext2_inode \<Rightarrow> u32 \<Rightarrow> u32 \<Rightarrow> u32 \<Rightarrow> u8 list \<Rightarrow> u8 list \<Rightarrow> 'd ext2 \<Rightarrow> (u32 \<times> u8 list \<times> 'd ext2) option" where
  "copy_blocks di offset count copied out buf s =
     (if copied < count then
        let bs = fs_block_size s; pos = offset + copied in do {
        blk \<leftarrow> udiv pos bs;
        boff \<leftarrow> umod pos bs;
        let avail = bs - boff; chunk = (if count - copied < avail then count - copied else avail) in do {
        (phys, s) \<leftarrow> ext2_resolve_block_num di blk bs s;
        if phys = 0 then do {
          out \<leftarrow> buf_put out (unat copied) (replicate (unat chunk) 0);
          copy_blocks di offset count (copied + chunk) out buf s }
        else do {
          (_, buf, s) \<leftarrow> fs_read phys buf s;
          xs \<leftarrow> buf_get buf (unat boff) (unat chunk);
          out \<leftarrow> buf_put out (unat copied) xs;
          copy_blocks di offset count (copied + chunk) out buf s } } }
      else Some (copied, out, s))"

definition ext2_readdir :: "inode \<Rightarrow> u8 list \<Rightarrow> u32 \<Rightarrow> u32 \<Rightarrow> 'd ext2 \<Rightarrow> (int \<times> u8 list \<times> 'd ext2) option" where
  "ext2_readdir dir out sz offset s =
     (if \<not> FS_IS_DIR (v_mode dir) then Some (- 1, out, s)
      else if v_size dir \<le> offset then Some (0, out, s)
      else let sz = (if v_size dir < offset + sz then v_size dir - offset else sz) in
      if sz = 0 then Some (0, out, s)
      else with_kmalloc (fs_block_size s) (\<lambda>s. Some (- 1, out, s)) (\<lambda>buf s. do {
        (copied, out, s) \<leftarrow> copy_blocks (v_disk_inode dir) offset sz 0 out buf s;
        Some (sint copied, out, s) }) s)"

section \<open>Create, mkdir, unlink, rmdir\<close>

definition ext2_create :: "inode \<Rightarrow> u8 list \<Rightarrow> u32 \<Rightarrow> 'd ext2 \<Rightarrow> (int \<times> inode \<times> 'd ext2) option" where
  "ext2_create dir name md s = do {
     (new_ino, s) \<leftarrow> ext2_alloc_inode s;
     if new_ino = 0 then Some (- 1, dir, s)
     else do {
       (_, s) \<leftarrow> ext2_write_inode_raw new_ino
         (zero_inode\<lparr>i_mode := ucast (FS_FILE_TYPE_REGULAR OR (md AND 0xFFF)), i_links_count := 1\<rparr>) s;
       (ret, dir, s) \<leftarrow> ext2_add_dir_entry dir name new_ino EXT2_FT_REG_FILE s;
       if ret \<noteq> 0 then do {
         s \<leftarrow> ext2_free_inode new_ino s;
         Some (- 1, dir, s) }
       else Some (0, dir, s) } }"

text \<open>The initial block of a directory, with the entries \<open>.\<close> and \<open>..\<close>.\<close>

definition dot_block :: "u32 \<Rightarrow> u32 \<Rightarrow> u32 \<Rightarrow> u8 list option" where
  "dot_block bs self parent = do {
     b \<leftarrow> put16 (replicate (unat bs) 0) 4 12;
     b \<leftarrow> put_entry b 0 self [0x2E] EXT2_FT_DIR;
     b \<leftarrow> put16 b (12 + 4) (ucast (bs - 12));
     put_entry b 12 parent [0x2E, 0x2E] EXT2_FT_DIR }"

definition ext2_mkdir :: "inode \<Rightarrow> u8 list \<Rightarrow> u32 \<Rightarrow> 'd ext2 \<Rightarrow> (int \<times> inode \<times> 'd ext2) option" where
  "ext2_mkdir dir name md s =
     (let bs = fs_block_size s in do {
     (new_ino, s) \<leftarrow> ext2_alloc_inode s;
     if new_ino = 0 then Some (- 1, dir, s)
     else do {
       (blk, s) \<leftarrow> ext2_alloc_block s;
       if blk = 0 then do {
         s \<leftarrow> ext2_free_inode new_ino s;
         Some (- 1, dir, s) }
       else with_kmalloc bs
         (\<lambda>s. do {
            s \<leftarrow> ext2_free_block blk s;
            s \<leftarrow> ext2_free_inode new_ino s;
            Some (- 1, dir, s) })
         (\<lambda>_ s. do {
            buf \<leftarrow> dot_block bs new_ino (v_ino dir);
            (_, s) \<leftarrow> fs_write blk buf s;
            (_, s) \<leftarrow> ext2_write_inode_raw new_ino
              (zero_inode\<lparr>i_mode := ucast (FS_FILE_TYPE_DIR OR (md AND 0xFFF)), i_size := bs,
                 i_links_count := 2, i_blocks := bs div 512,
                 i_block := (i_block zero_inode)[0 := blk]\<rparr>) s;
            (ret, dir, s) \<leftarrow> ext2_add_dir_entry dir name new_ino EXT2_FT_DIR s;
            if ret \<noteq> 0 then do {
              s \<leftarrow> ext2_free_block blk s;
              s \<leftarrow> ext2_free_inode new_ino s;
              Some (- 1, dir, s) }
            else do {
              (_, dir, s) \<leftarrow> ext2_write_inode (dir\<lparr>v_nlink := v_nlink dir + 1\<rparr>) s;
              grp \<leftarrow> udiv (new_ino - 1) (s_inodes_per_group (fs_sb s));
              gd \<leftarrow> aget (fs_group_desc s) (unat grp);
              s \<leftarrow> Some (s\<lparr>fs_group_desc := (fs_group_desc s)[unat grp := gd\<lparr>bg_used_dirs_count := bg_used_dirs_count gd + 1\<rparr>]\<rparr>);
              (_, s) \<leftarrow> ext2_flush_group_desc grp s;
              Some (0, dir, s) } }) s } })"

text \<open>The looked-up inode is dropped by \<open>inode_put\<close> at every exit; it is local to the call.\<close>

definition ext2_unlink :: "inode \<Rightarrow> u8 list \<Rightarrow> 'd ext2 \<Rightarrow> (int \<times> 'd ext2) option" where
  "ext2_unlink dir name s = do {
     (t, s) \<leftarrow> ext2_lookup dir name s;
     case t of None \<Rightarrow> Some (- 1, s)
     | Some target \<Rightarrow>
         if FS_IS_DIR (v_mode target) then Some (- 1, s)
         else do {
           (ret, s) \<leftarrow> ext2_remove_dir_entry dir name s;
           if ret \<noteq> 0 then Some (- 1, s)
           else do {
             target \<leftarrow> Some (target\<lparr>v_nlink := v_nlink target - 1\<rparr>);
             (_, _, s) \<leftarrow> (if v_nlink target = 0 then ext2_delete_inode target s else ext2_write_inode target s);
             Some (0, s) } } }"

text \<open>The number of entries in use in one block, and in all blocks, added to \<open>c\<close>.\<close>

function count_in_block :: "u8 list \<Rightarrow> nat \<Rightarrow> nat \<Rightarrow> nat \<Rightarrow> nat option" where
  "count_in_block b off bs c =
     (if off < bs then do {
        rec_len \<leftarrow> de_rec_len b off;
        if rec_len = 0 then Some c
        else do {
          i \<leftarrow> de_inode b off;
          count_in_block b (off + unat rec_len) bs (if i \<noteq> 0 then c + 1 else c) } }
      else Some c)"
  by pat_completeness auto
termination
  by (relation "measure (\<lambda>(_, off, bs, _). bs - off)") (auto intro: rec_len_progress)

declare count_in_block.simps [simp del]

primrec count_in_blocks :: "nat list \<Rightarrow> ext2_inode \<Rightarrow> u8 list \<Rightarrow> nat \<Rightarrow> 'd ext2 \<Rightarrow> (nat \<times> 'd ext2) option" where
  "count_in_blocks [] di buf c s = Some (c, s)"
| "count_in_blocks (k # ks) di buf c s = do {
     (phys, s) \<leftarrow> ext2_resolve_block_num di (of_nat k) (fs_block_size s) s;
     if phys = 0 then count_in_blocks ks di buf c s
     else do {
       (_, buf, s) \<leftarrow> fs_read phys buf s;
       c \<leftarrow> count_in_block buf 0 (unat (fs_block_size s)) c;
       count_in_blocks ks di buf c s } }"

definition ext2_rmdir :: "inode \<Rightarrow> u8 list \<Rightarrow> 'd ext2 \<Rightarrow> (int \<times> inode \<times> 'd ext2) option" where
  "ext2_rmdir dir name s = do {
     (t, s) \<leftarrow> ext2_lookup dir name s;
     case t of None \<Rightarrow> Some (- 1, dir, s)
     | Some target \<Rightarrow>
         if \<not> FS_IS_DIR (v_mode target) then Some (- 1, dir, s)
         else with_kmalloc (fs_block_size s) (\<lambda>s. Some (- 1, dir, s)) (\<lambda>buf s. do {
           (entry_count, s) \<leftarrow> count_in_blocks [0..<dir_blocks target s] (v_disk_inode target) buf 0 s;
           if 2 < entry_count then Some (- 1, dir, s)
           else do {
             (ret, s) \<leftarrow> ext2_remove_dir_entry dir name s;
             if ret \<noteq> 0 then Some (- 1, dir, s)
             else do {
               (_, dir, s) \<leftarrow> ext2_write_inode (dir\<lparr>v_nlink := v_nlink dir - 1\<rparr>) s;
               (_, target, s) \<leftarrow> ext2_delete_inode target s;
               grp \<leftarrow> udiv (v_ino target - 1) (s_inodes_per_group (fs_sb s));
               gd \<leftarrow> aget (fs_group_desc s) (unat grp);
               s \<leftarrow> Some (if 0 < bg_used_dirs_count gd
                 then s\<lparr>fs_group_desc := (fs_group_desc s)[unat grp := gd\<lparr>bg_used_dirs_count := bg_used_dirs_count gd - 1\<rparr>]\<rparr>
                 else s);
               (_, s) \<leftarrow> ext2_flush_group_desc grp s;
               Some (0, dir, s) } } }) s }"

end
