(* ===== verification/Ext2_Super.thy ===== *)
theory Ext2_Super
  imports Ext2_Inode
begin

text \<open>
  Mounting (\<open>fs/ext2/superblock.c\<close>): reading and validating the superblock, loading the group
  descriptors, and building the VFS superblock (\<open>fs/vfs/superblock.c\<close>) with the root inode.  A superblock is
  always given: the test for NULL in \<open>ext2_validate_superblock\<close> and the messages it prints are left out.
\<close>

text \<open>\<open>struct superblock\<close>; \<open>sb_has_fs\<close> and \<open>sb_has_ops\<close> say whether \<open>fs_data\<close> and \<open>ops\<close> are set.\<close>

record superblock =
  sb_dev :: u32
  sb_blocksize :: u32
  sb_blocksize_bits :: u32
  sb_flags :: u32
  sb_type :: "u8 list"
  sb_root :: "inode option"
  sb_has_fs :: bool
  sb_has_ops :: bool

section \<open>Reading and validating\<close>

text \<open>\<open>1024U << s_log_block_size\<close>; a shift by 32 or more is undefined.\<close>

definition log_block_size :: "ext2_superblock \<Rightarrow> u32 option" where
  "log_block_size sb =
     (if s_log_block_size sb < 32 then Some (push_bit (unat (s_log_block_size sb)) 1024) else None)"

definition ext2_read_superblock :: "'d ext2 \<Rightarrow> u8 list \<Rightarrow> (int \<times> u8 list \<times> 'd ext2) option" where
  "ext2_read_superblock s buf = do {
     ops \<leftarrow> bd_ops (fs_dev s);
     f \<leftarrow> op_read_blocks ops;
     (ret, buf, d) \<leftarrow> f (bd_info (fs_dev s)) 2 2 buf (disk s);
     Some (ret, buf, s\<lparr>disk := d\<rparr>) }"

definition ext2_validate_superblock :: "ext2_superblock \<Rightarrow> int option" where
  "ext2_validate_superblock sb =
     (if s_magic sb \<noteq> EXT2_MAGIC then Some (- 1)
      else do {
        block_size \<leftarrow> log_block_size sb;
        if block_size < EXT2_MIN_BLOCK_SIZE \<or> EXT2_MAX_BLOCK_SIZE < block_size then Some (- 1)
        else if EXT2_DYNAMIC_REV < s_rev_level sb then Some (- 1)
        else Some 0 })"

partial_function (option) read_group_desc_loop ::
  "u32 \<Rightarrow> u32 \<Rightarrow> u32 \<Rightarrow> u32 \<Rightarrow> u8 list \<Rightarrow> ext2_group_desc list \<Rightarrow> 'd ext2 \<Rightarrow> (ext2_group_desc list \<times> 'd ext2) option" where
  "read_group_desc_loop gd_block read count gd_per_block buf groups s =
     (if read < count then do {
        (_, buf, s) \<leftarrow> fs_read gd_block buf s;
        let n = (if gd_per_block < count - read then gd_per_block else count - read) in do {
        xs \<leftarrow> buf_get buf 0 (unat n * 32);
        read_group_desc_loop (gd_block + 1) (read + n) count gd_per_block buf
          (groups @ map (\<lambda>k. dec_group_desc (take 32 (drop (32 * k) xs))) [0..<unat n]) s } }
      else Some (groups, s))"

definition ext2_read_group_desc ::
  "ext2_superblock \<Rightarrow> u32 \<Rightarrow> 'd ext2 \<Rightarrow> (int \<times> ext2_group_desc list \<times> 'd ext2) option" where
  "ext2_read_group_desc sb count s =
     (if count = 0 then Some (- 1, [], s)
      else do {
        block_size \<leftarrow> log_block_size sb;
        with_kmalloc block_size (\<lambda>s. Some (- 1, [], s)) (\<lambda>buf s. do {
          (groups, s) \<leftarrow> read_group_desc_loop (s_first_data_block sb + 1) 0 count (block_size div 32) buf [] s;
          Some (0, groups, s) }) s })"

definition ext2_get_block_group :: "ext2_superblock \<Rightarrow> u32 \<Rightarrow> u32 \<Rightarrow> u32 option" where
  "ext2_get_block_group sb n block =
     (if n \<noteq> 0 then udiv (n - 1) (s_inodes_per_group sb)
      else udiv (block - s_first_data_block sb) (s_blocks_per_group sb))"

section \<open>Mounting\<close>

definition superblock_new :: "u32 \<Rightarrow> u8 list \<Rightarrow> 'd ext2 \<Rightarrow> (superblock option \<times> 'd ext2) option" where
  "superblock_new dev ty s =
     with_kmalloc 32 (\<lambda>s. Some (None, s)) (\<lambda>_ s.
     with_kmalloc (of_nat (length ty) + 1) (\<lambda>s. Some (None, s)) (\<lambda>_ s.
       Some (Some \<lparr>sb_dev = dev, sb_blocksize = 4096, sb_blocksize_bits = 12, sb_flags = 0, sb_type = ty,
                   sb_root = None, sb_has_fs = False, sb_has_ops = False\<rparr>, s)) s) s"

definition ext2_fill_super :: "superblock \<Rightarrow> 'd ext2 \<Rightarrow> (int \<times> superblock \<times> 'd ext2) option" where
  "ext2_fill_super sb s =
     with_kmalloc 28 (\<lambda>s. Some (- 1, sb, s)) (\<lambda>_ s.
     with_kmalloc 1024 (\<lambda>s. Some (- 1, sb, s)) (\<lambda>raw s. do {
       (ret, raw, s) \<leftarrow> ext2_read_superblock s raw;
       if ret \<noteq> 0 then Some (- 1, sb, s)
       else let raw_sb = dec_superblock raw in do {
         v \<leftarrow> ext2_validate_superblock raw_sb;
         if v \<noteq> 0 then Some (- 1, sb, s)
         else do {
           block_size \<leftarrow> log_block_size raw_sb;
           groups_count \<leftarrow> udiv (s_blocks_count raw_sb - s_first_data_block raw_sb + s_blocks_per_group raw_sb - 1)
             (s_blocks_per_group raw_sb);
           inodes_per_block \<leftarrow> udiv block_size (inode_size raw_sb);
           s \<leftarrow> Some (s\<lparr>fs_sb := raw_sb, fs_block_size := block_size, fs_groups_count := groups_count,
             fs_inodes_per_block := inodes_per_block,
             fs_itable_blocks := (s_inodes_per_group raw_sb * inode_size raw_sb + block_size - 1) div block_size,
             fs_dev := (fs_dev s)\<lparr>bd_info := (bd_info (fs_dev s))\<lparr>bd_block_size := block_size\<rparr>\<rparr>\<rparr>);
           with_kmalloc (groups_count * 32) (\<lambda>s. Some (- 1, sb, s)) (\<lambda>_ s. do {
             (ret, groups, s) \<leftarrow> ext2_read_group_desc raw_sb groups_count s;
             if ret \<noteq> 0 then Some (- 1, sb, s)
             else do {
               s \<leftarrow> Some (s\<lparr>fs_group_desc := groups\<rparr>);
               sb \<leftarrow> Some (sb\<lparr>sb_blocksize := block_size, sb_blocksize_bits := 10 + s_log_block_size raw_sb,
                 sb_has_fs := True, sb_has_ops := True\<rparr>);
               (root, s) \<leftarrow> ext2_read_inode EXT2_ROOT_INO s;
               case root of None \<Rightarrow> Some (- 1, sb\<lparr>sb_root := None, sb_has_fs := False, sb_has_ops := False\<rparr>, s)
               | Some r \<Rightarrow> Some (0, sb\<lparr>sb_root := Some r\<rparr>, s) } }) s } } }) s) s"

definition ext2_mount :: "'d ext2 \<Rightarrow> (superblock option \<times> 'd ext2) option" where
  "ext2_mount s = do {
     (sb, s) \<leftarrow> superblock_new (bd_major (bd_info (fs_dev s))) [0x65, 0x78, 0x74, 0x32] s;
     case sb of None \<Rightarrow> Some (None, s)
     | Some sb \<Rightarrow> do {
         (ret, sb, s) \<leftarrow> ext2_fill_super sb s;
         if ret \<noteq> 0 then Some (None, s) else Some (Some sb, s) } }"

section \<open>Sync and statistics\<close>

primrec flush_groups :: "nat list \<Rightarrow> 'd ext2 \<Rightarrow> 'd ext2 option" where
  "flush_groups [] s = Some s"
| "flush_groups (g # gs) s = do { (_, s) \<leftarrow> ext2_flush_group_desc (of_nat g) s; flush_groups gs s }"

definition ext2_sync :: "'d ext2 \<Rightarrow> (int \<times> 'd ext2) option" where
  "ext2_sync s = do {
     (_, s) \<leftarrow> ext2_flush_superblock s;
     s \<leftarrow> flush_groups [0..<unat (fs_groups_count s)] s;
     Some (0, s) }"

definition ext2_statfs :: "'d ext2 \<Rightarrow> int \<times> u32 list" where
  "ext2_statfs s =
     (0, [s_blocks_count (fs_sb s), s_free_blocks_count (fs_sb s), s_inodes_count (fs_sb s),
          s_free_inodes_count (fs_sb s), fs_block_size s, s_blocks_per_group (fs_sb s)])"

section \<open>What validation establishes\<close>

lemma block_size_range: "\<forall>n \<in> set [0..<32]. n < 3 \<or> push_bit n (1024 :: u32) < 1024 \<or> 4096 < push_bit n (1024 :: u32)"
  by code_simp

text \<open>C23. A superblock that \<open>ext2_validate_superblock\<close> accepts has the
  ext2 magic, a revision of at most 1, and a block size of 1024, 2048 or 4096 bytes; every other
  superblock with a shift count below 32 is rejected.\<close>

theorem ext2_validate_sound:
  assumes "s_log_block_size sb < 32"
  shows "ext2_validate_superblock sb =
    Some (if s_magic sb = 0xEF53 \<and> s_rev_level sb \<le> 1 \<and>
             log_block_size sb \<in> {Some 1024, Some 2048, Some 4096} then 0 else - 1)"
proof -
  let ?n = "unat (s_log_block_size sb)"
  have n: "?n < 32" using assms by (simp add: word_less_nat_alt)
  have L: "log_block_size sb = Some (push_bit ?n 1024)" using assms by (simp add: log_block_size_def)
  have "(push_bit ?n 1024 < (1024 :: u32) \<or> 4096 < push_bit ?n (1024 :: u32)) \<longleftrightarrow>
    push_bit ?n (1024 :: u32) \<notin> {1024, 2048, 4096}"
  proof (cases "?n < 3")
    case True
    then have "?n = 0 \<or> ?n = 1 \<or> ?n = 2" by linarith
    then show ?thesis by (elim disjE) (simp_all add: push_bit_eq_mult)
  next
    case False
    with n block_size_range have "push_bit ?n (1024 :: u32) < 1024 \<or> 4096 < push_bit ?n (1024 :: u32)" by auto
    then show ?thesis by (auto simp del: push_bit_numeral)
  qed
  then show ?thesis unfolding ext2_validate_superblock_def L by (auto simp: not_less)
qed

theorem ext2_validate_sound_witness:
  "ext2_validate_superblock ((dec_superblock (replicate 1024 0))
     \<lparr>s_magic := 0xEF53, s_log_block_size := 2, s_rev_level := 1\<rparr>) = Some 0"
  using ext2_validate_sound [of "(dec_superblock (replicate 1024 0))
     \<lparr>s_magic := 0xEF53, s_log_block_size := 2, s_rev_level := 1\<rparr>"]
  by (simp add: log_block_size_def)

end
