(* ===== verification/Ext2_Ops.thy ===== *)
theory Ext2_Ops
  imports Ext2_Dir Ext2_Super
begin

text \<open>
  File contents and metadata (\<open>fs/ext2/ext2_ops.c\<close>).  The operations are modelled for calls with an inode, its superblock
  and a buffer; the tests for NULL at their entry, which return \<open>-1\<close>, have no counterpart.
\<close>

section \<open>Reading and writing\<close>

definition ext2_read :: "inode \<Rightarrow> u8 list \<Rightarrow> u32 \<Rightarrow> u32 \<Rightarrow> 'd ext2 \<Rightarrow> (int \<times> u8 list \<times> 'd ext2) option" where
  "ext2_read v out count offset s =
     (if v_size v \<le> offset then Some (0, out, s)
      else let count = (if v_size v < offset + count then v_size v - offset else count) in
      if count = 0 then Some (0, out, s)
      else with_kmalloc (fs_block_size s) (\<lambda>s. Some (- 1, out, s)) (\<lambda>buf s. do {
        (bytes_read, out, s) \<leftarrow> copy_blocks (v_disk_inode v) offset count 0 out buf s;
        Some (sint bytes_read, out, s) }) s)"

text \<open>The physical block for a logical one, allocated on demand: the block (0 to leave the loop),
  whether it is new, and the updated inode.\<close>

definition block_for_write :: "u32 \<Rightarrow> inode \<Rightarrow> 'd ext2 \<Rightarrow> (u32 \<times> bool \<times> inode \<times> 'd ext2) option" where
  "block_for_write blk v s =
     (let bs = fs_block_size s in do {
        (phys, s) \<leftarrow> ext2_resolve_block_num (v_disk_inode v) blk bs s;
        if phys \<noteq> 0 then Some (phys, False, v, s)
        else do {
          (phys, s) \<leftarrow> ext2_alloc_block s;
          if phys = 0 then Some (0, False, v, s)
          else do {
            (ret, di, s) \<leftarrow> ext2_assign_block_num (v_disk_inode v) blk phys bs s;
            if ret \<noteq> 0 then do {
              s \<leftarrow> ext2_free_block phys s;
              Some (0, False, v\<lparr>v_disk_inode := di\<rparr>, s) }
            else Some (phys, True, v\<lparr>v_disk_inode := di\<lparr>i_blocks := i_blocks di + bs div 512\<rparr>,
                   v_blocks := i_blocks di + bs div 512\<rparr>, s) } } })"

partial_function (option) write_loop ::
  "u8 list \<Rightarrow> u32 \<Rightarrow> u32 \<Rightarrow> u32 \<Rightarrow> u8 list \<Rightarrow> inode \<Rightarrow> 'd ext2 \<Rightarrow> (u32 \<times> inode \<times> 'd ext2) option" where
  "write_loop data count offset bytes_written buf v s =
     (if bytes_written < count then
        let bs = fs_block_size s; pos = offset + bytes_written in do {
        blk \<leftarrow> udiv pos bs;
        boff \<leftarrow> umod pos bs;
        let avail = bs - boff;
            chunk = (if count - bytes_written < avail then count - bytes_written else avail) in do {
        (phys, fresh, v, s) \<leftarrow> block_for_write blk v s;
        if phys = 0 then Some (bytes_written, v, s)
        else do {
          (buf, s) \<leftarrow> (if fresh then Some (replicate (unat bs) 0, s)
             else if boff \<noteq> 0 \<or> chunk \<noteq> bs then do {
               (_, buf, s) \<leftarrow> fs_read phys buf s; Some (buf, s) }
             else Some (buf, s));
          xs \<leftarrow> buf_get data (unat bytes_written) (unat chunk);
          buf \<leftarrow> buf_put buf (unat boff) xs;
          (_, s) \<leftarrow> fs_write phys buf s;
          write_loop data count offset (bytes_written + chunk) buf v s } } }
      else Some (bytes_written, v, s))"

definition ext2_write :: "inode \<Rightarrow> u8 list \<Rightarrow> u32 \<Rightarrow> u32 \<Rightarrow> 'd ext2 \<Rightarrow> (int \<times> inode \<times> 'd ext2) option" where
  "ext2_write v data count offset s =
     with_kmalloc (fs_block_size s) (\<lambda>s. Some (- 1, v, s)) (\<lambda>buf s. do {
       (bytes_written, v, s) \<leftarrow> write_loop data count offset 0 buf v s;
       let e = offset + bytes_written;
           v = (if v_size v < e then v\<lparr>v_size := e, v_disk_inode := (v_disk_inode v)\<lparr>i_size := e\<rparr>\<rparr> else v) in do {
       (_, v, s) \<leftarrow> ext2_write_inode v s;
       Some (sint bytes_written, v, s) } }) s"

section \<open>Metadata\<close>

record fs_stat =
  st_ino :: u32
  st_mode :: u32
  st_size :: u32
  st_uid :: u32
  st_gid :: u32
  st_nlink :: u32
  st_atime :: u32
  st_mtime :: u32
  st_ctime :: u32
  st_blksize :: u32
  st_blocks :: u32

definition ext2_stat :: "inode \<Rightarrow> int \<times> fs_stat" where
  "ext2_stat v =
     (0, \<lparr>st_ino = v_ino v, st_mode = v_mode v, st_size = v_size v, st_uid = v_uid v, st_gid = v_gid v,
          st_nlink = v_nlink v, st_atime = v_atime v, st_mtime = v_mtime v, st_ctime = v_ctime v,
          st_blksize = v_blksize v, st_blocks = v_blocks v\<rparr>)"

definition ext2_chmod :: "inode \<Rightarrow> u32 \<Rightarrow> 'd ext2 \<Rightarrow> (int \<times> inode \<times> 'd ext2) option" where
  "ext2_chmod v md s =
     ext2_write_inode (v\<lparr>v_mode := (v_mode v AND FS_FILE_TYPE_MASK) OR (md AND 0xFFF)\<rparr>) s"

end
