(* ===== verification/Ext2_Read.thy ===== *)
theory Ext2_Read
  imports Ext2_Map Ext2_Ops
begin

text \<open>
  Reading a file: the loop of \<open>ext2_read\<close> and \<open>ext2_readdir\<close> returns the bytes of the file that the block
  map describes.
\<close>

section \<open>The contents of a file\<close>

definition file_block :: "(u32 \<Rightarrow> u8 list) \<Rightarrow> nat \<Rightarrow> ext2_inode \<Rightarrow> nat \<Rightarrow> u8 list" where
  "file_block V bs di l = (let b = block_map V (bs div 4) di l in if b = 0 then replicate bs 0 else V b)"

definition file_byte :: "(u32 \<Rightarrow> u8 list) \<Rightarrow> nat \<Rightarrow> ext2_inode \<Rightarrow> nat \<Rightarrow> u8" where
  "file_byte V bs di pos = file_block V bs di (pos div bs) ! (pos mod bs)"

definition file_bytes :: "(u32 \<Rightarrow> u8 list) \<Rightarrow> nat \<Rightarrow> ext2_inode \<Rightarrow> nat \<Rightarrow> nat \<Rightarrow> u8 list" where
  "file_bytes V bs di pos n = map (file_byte V bs di) [pos..<pos + n]"

text \<open>The blocks of the first \<open>n\<close> bytes, pointer blocks included, are blocks of the device.\<close>

definition mapped :: "(u32 \<Rightarrow> bool) \<Rightarrow> (u32 \<Rightarrow> u8 list) \<Rightarrow> nat \<Rightarrow> ext2_inode \<Rightarrow> nat \<Rightarrow> bool" where
  "mapped valid V bs di n \<longleftrightarrow> length (i_block di) = 15 \<and>
     (\<forall>l. l * bs < n \<longrightarrow> (\<forall>c \<in> set (map_path V (bs div 4) di l). valid c) \<and>
        (block_map V (bs div 4) di l \<noteq> 0 \<longrightarrow> valid (block_map V (bs div 4) di l)))"

lemma mapped_mono: "mapped valid V bs di n \<Longrightarrow> m \<le> n \<Longrightarrow> mapped valid V bs di m"
  unfolding mapped_def by (meson order_less_le_trans)

lemma sint_small: "unat w = n \<Longrightarrow> n < 2 ^ 31 \<Longrightarrow> sint (w :: u32) = int n"
  by (simp add: sint_uint signed_take_bit_int_eq_self uint_nat)

lemma length_file_bytes [simp]: "length (file_bytes V bs di pos n) = n"
  by (simp add: file_bytes_def)

lemma file_bytes_split:
  "m \<le> n \<Longrightarrow> file_bytes V bs di pos m @ file_bytes V bs di (pos + m) (n - m) = file_bytes V bs di pos n"
  using upt_add_eq_append [of pos "pos + m" "n - m"] by (simp add: file_bytes_def)

text \<open>A chunk inside one block.\<close>

lemma file_bytes_block:
  assumes "length (file_block V bs di (pos div bs)) = bs" "n \<le> bs - pos mod bs" "0 < bs"
  shows "file_bytes V bs di pos n = take n (drop (pos mod bs) (file_block V bs di (pos div bs)))"
proof (rule nth_equalityI)
  show "length (file_bytes V bs di pos n) = length (take n (drop (pos mod bs) (file_block V bs di (pos div bs))))"
    using assms by simp
  fix i assume "i < length (file_bytes V bs di pos n)"
  then have i: "i < n" by simp
  have "pos + i = pos div bs * bs + (pos mod bs + i)" by simp
  moreover have lt: "pos mod bs + i < bs" using assms i by linarith
  ultimately have "(pos + i) div bs = pos div bs" "(pos + i) mod bs = pos mod bs + i"
    using assms(3) by (metis add.commute div_less div_mult_self3 add.right_neutral not_less0,
      metis mod_mult_self3 mod_less)
  then show "file_bytes V bs di pos n ! i = take n (drop (pos mod bs) (file_block V bs di (pos div bs))) ! i"
    using assms i by (simp add: file_bytes_def file_byte_def)
qed

text \<open>The bytes a read delivers when the blocks in \<open>Z\<close> are taken for holes.\<close>

definition lossy_bytes :: "(nat \<Rightarrow> bool) \<Rightarrow> (u32 \<Rightarrow> u8 list) \<Rightarrow> nat \<Rightarrow> ext2_inode \<Rightarrow> nat \<Rightarrow> nat \<Rightarrow> u8 list" where
  "lossy_bytes Z V bs di pos n = map (\<lambda>p. if Z (p div bs) then 0 else file_byte V bs di p) [pos..<pos + n]"

text \<open>The blocks a loop that starts at block \<open>a\<close> with \<open>c\<close> calls of \<open>kmalloc\<close> made loses: those behind a pointer block whose
  own call of \<open>kmalloc\<close> fails.  Every block behind a pointer block takes one call.\<close>

definition lost :: "(u32 \<Rightarrow> u8 list) \<Rightarrow> nat \<Rightarrow> ext2_inode \<Rightarrow> (nat \<Rightarrow> (nat \<Rightarrow> u8) option) \<Rightarrow> nat \<Rightarrow> nat \<Rightarrow> nat \<Rightarrow> bool" where
  "lost V n di answers c a l \<longleftrightarrow> map_path V n di l \<noteq> [] \<and>
     answers (c + length (filter (\<lambda>i. map_path V n di i \<noteq> []) [a..<l])) = None"

lemma length_lossy [simp]: "length (lossy_bytes Z V bs di pos n) = n"
  by (simp add: lossy_bytes_def)

lemma lossy_none: "\<forall>l. \<not> Z l \<Longrightarrow> lossy_bytes Z V bs di pos n = file_bytes V bs di pos n"
  by (simp add: lossy_bytes_def file_bytes_def)

lemma lossy_split:
  "m \<le> n \<Longrightarrow> lossy_bytes Z V bs di pos m @ lossy_bytes Z V bs di (pos + m) (n - m) = lossy_bytes Z V bs di pos n"
  using upt_add_eq_append [of pos "pos + m" "n - m"] by (simp add: lossy_bytes_def)

lemma lossy_cong:
  "(\<And>p. pos \<le> p \<Longrightarrow> p < pos + n \<Longrightarrow> Z (p div bs) = Z' (p div bs)) \<Longrightarrow> lossy_bytes Z V bs di pos n = lossy_bytes Z' V bs di pos n"
  by (simp add: lossy_bytes_def)

lemma lossy_block:
  assumes "n \<le> bs - pos mod bs" "0 < bs"
  shows "lossy_bytes Z V bs di pos n = (if Z (pos div bs) then replicate n 0 else file_bytes V bs di pos n)"
proof -
  have same: "p div bs = pos div bs" if "pos \<le> p" "p < pos + n" for p
  proof -
    have lt: "pos mod bs + (p - pos) < bs" using assms that by linarith
    have "p = pos div bs * bs + (pos mod bs + (p - pos))" using that(1) by (simp add: mult.commute)
    then have "p div bs = (pos div bs * bs + (pos mod bs + (p - pos))) div bs" by (rule arg_cong)
    also have "\<dots> = pos div bs" using lt by (subst div_mult_self3) simp_all
    finally show ?thesis .
  qed
  have "lossy_bytes Z V bs di pos n = lossy_bytes (\<lambda>_. Z (pos div bs)) V bs di pos n" by (rule lossy_cong) (metis same)
  also have "\<dots> = (if Z (pos div bs) then replicate n 0 else file_bytes V bs di pos n)"
    by (simp add: lossy_bytes_def file_bytes_def map_replicate_const)
  finally show ?thesis .
qed

lemma lost_here: "lost V n di answers c l l \<longleftrightarrow> map_path V n di l \<noteq> [] \<and> answers c = None"
  by (simp add: lost_def)

lemma lost_next:
  "a < l \<Longrightarrow> lost V n di answers (c + of_bool (map_path V n di a \<noteq> [])) (Suc a) l = lost V n di answers c a l"
  by (simp add: lost_def upt_conv_Cons)

section \<open>Arithmetic of one step\<close>

definition step_chunk :: "u32 \<Rightarrow> u32 \<Rightarrow> u32 \<Rightarrow> u32 \<Rightarrow> u32" where
  "step_chunk bs offset count copied =
     (let avail = bs - (offset + copied) mod bs in if count - copied < avail then count - copied else avail)"

lemma step_words:
  assumes "unat offset + unat count < 2 ^ 32" "copied < count" "0 < unat (bs :: u32)"
  shows "unat (offset + copied) = unat offset + unat copied"
    and "unat ((offset + copied) div bs) = (unat offset + unat copied) div unat bs"
    and "unat ((offset + copied) mod bs) = (unat offset + unat copied) mod unat bs"
    and "unat (step_chunk bs offset count copied) =
      min (unat count - unat copied) (unat bs - (unat offset + unat copied) mod unat bs)"
    and "unat (copied + step_chunk bs offset count copied) = unat copied + unat (step_chunk bs offset count copied)"
proof -
  have lt: "unat copied < unat count" using assms(2) by (simp add: word_less_nat_alt)
  show p: "unat (offset + copied) = unat offset + unat copied"
    using assms(1) lt by (subst unat_plus_no_wrap) auto
  show d: "unat ((offset + copied) div bs) = (unat offset + unat copied) div unat bs"
    by (simp add: unat_div_distrib p)
  show m: "unat ((offset + copied) mod bs) = (unat offset + unat copied) mod unat bs"
    by (simp add: unat_mod_distrib p)
  have "unat ((offset + copied) mod bs) < unat bs" using assms(3) unfolding m by simp
  then have a: "unat (bs - (offset + copied) mod bs) = unat bs - (unat offset + unat copied) mod unat bs"
    unfolding m [symmetric] by (simp add: unat_sub word_le_nat_alt)
  have c: "unat (count - copied) = unat count - unat copied" using lt by (simp add: unat_sub word_le_nat_alt)
  show ch: "unat (step_chunk bs offset count copied) =
      min (unat count - unat copied) (unat bs - (unat offset + unat copied) mod unat bs)"
    by (simp add: step_chunk_def Let_def word_less_nat_alt a c min_def)
  have "unat copied + unat (step_chunk bs offset count copied) \<le> unat count" using lt unfolding ch by simp
  then show "unat (copied + step_chunk bs offset count copied) = unat copied + unat (step_chunk bs offset count copied)"
    using assms(1) by (subst unat_plus_no_wrap) auto
qed

text \<open>After a chunk that is not the last one the next block begins.\<close>

lemma next_block:
  assumes "unat offset + unat count < 2 ^ 32" "copied < count" "0 < unat (bs :: u32)"
    and "unat copied + unat (step_chunk bs offset count copied) < unat count"
  shows "(unat offset + unat copied + unat (step_chunk bs offset count copied)) div unat bs = Suc ((unat offset + unat copied) div unat bs)"
proof -
  have c: "unat (step_chunk bs offset count copied) = unat bs - (unat offset + unat copied) mod unat bs"
    using assms(4) unfolding step_words(4) [OF assms(1-3)] by (simp add: min_def split: if_splits)
  have "(unat offset + unat copied) mod unat bs < unat bs" using assms(3) by simp
  then have "unat offset + unat copied + unat (step_chunk bs offset count copied) = Suc ((unat offset + unat copied) div unat bs) * unat bs"
    unfolding c mult_Suc using div_mult_mod_eq [of "unat offset + unat copied" "unat bs"] by linarith
  then show ?thesis using assms(3) by (metis nonzero_mult_div_cancel_right less_numeral_extra(3))
qed

text \<open>Logical blocks of a 32-bit file are within the reach of the block map.\<close>

lemma block_in_reach:
  assumes "bs \<in> {1024, 2048, 4096 :: nat}" "pos < 2 ^ 32"
  shows "pos div bs < 12 + bs div 4 + (bs div 4) * (bs div 4) + (bs div 4) * (bs div 4) * (bs div 4)"
  using assms by auto

section \<open>The copy loop\<close>

context block_storage
begin

lemma resolve_mapped:
  assumes ok: "vol_ok bd ready bs s" and m: "mapped valid (view (disk s)) bs di N"
    and l: "unat l * bs < N" "N \<le> 2 ^ 32"
  obtains s' where "ext2_resolve_block_num di l (fs_block_size s) s =
      Some (resolved s (view (disk s)) (bs div 4) di (unat l), s')" and "quiet view ready s s'"
    and "heap_calls s' = heap_calls s + of_bool (map_path (view (disk s)) (bs div 4) di (unat l) \<noteq> [])"
proof (rule resolve_ok [OF ok])
  have b: "bs \<in> {1024, 2048, 4096}" using ok by (auto simp: vol_ok_def)
  show "unat l < 12 + bs div 4 + (bs div 4) * (bs div 4) + (bs div 4) * (bs div 4) * (bs div 4)"
    using block_in_reach [OF b, of "unat l * bs"] l b by auto
qed (use m l that in \<open>auto simp: mapped_def\<close>)

lemma length_file_block:
  assumes ok: "vol_ok bd ready bs s" and m: "mapped valid (view (disk s)) bs di N" and l: "l * bs < N"
  shows "length (file_block (view (disk s)) bs di l) = bs"
  using assms view_length by (auto simp: file_block_def Let_def mapped_def vol_ok_def)

text \<open>One turn of the loop.\<close>

lemma copy_step:
  assumes ok: "vol_ok bd ready bs s" and m: "mapped valid (view (disk s)) bs di (unat offset + unat count)"
    and buf: "length buf = bs" and sum: "unat offset + unat count < 2 ^ 32" and lt: "copied < count"
    and out: "unat count \<le> length out"
  obtains buf' s' where "length buf' = bs" and "quiet view ready s s'"
    and "heap_calls s' = heap_calls s + of_bool (map_path (view (disk s)) (bs div 4) di ((unat offset + unat copied) div bs) \<noteq> [])"
    and "copy_blocks di offset count copied out buf s =
      copy_blocks di offset count (copied + step_chunk (fs_block_size s) offset count copied)
        (take (unat copied) out @
         lossy_bytes (lost (view (disk s)) (bs div 4) di (heap_answers s) (heap_calls s) ((unat offset + unat copied) div bs))
           (view (disk s)) bs di (unat offset + unat copied) (unat (step_chunk (fs_block_size s) offset count copied)) @
         drop (unat copied + unat (step_chunk (fs_block_size s) offset count copied)) out) buf' s'"
proof -
  let ?V = "view (disk s)" and ?k = "fs_block_size s"
  let ?c = "step_chunk ?k offset count copied" and ?pos = "unat offset + unat copied" and ?l = "(offset + copied) div fs_block_size s"
  let ?b = "block_map ?V (bs div 4) di (?pos div bs)" and ?f = "file_block ?V bs di (?pos div bs)"
  let ?r = "resolved s ?V (bs div 4) di (?pos div bs)" and ?Z = "lost ?V (bs div 4) di (heap_answers s) (heap_calls s) (?pos div bs)"
  let ?x = "lossy_bytes ?Z ?V bs di ?pos (unat ?c)"
  have k: "unat ?k = bs" "0 < unat ?k" "?k \<noteq> 0" using ok by (auto simp: vol_ok_def)
  note w = step_words [OF sum lt k(2)]
  have ltn: "unat copied < unat count" using lt by (simp add: word_less_nat_alt)
  have cle: "unat copied + unat ?c \<le> unat count" using ltn unfolding w(4) by simp
  have cbs: "unat ?c \<le> bs - ?pos mod bs" unfolding w(4) k(1) by simp
  have mbs: "?pos mod bs + unat ?c \<le> bs" using cbs k mod_less_divisor [of bs ?pos] by linarith
  have l: "unat ?l = ?pos div bs" "?pos div bs * bs < unat offset + unat count"
    using w(2) k(1) ltn by (simp, metis add_strict_left_mono div_times_less_eq_dividend le_less_trans)
  obtain s1 where s1: "ext2_resolve_block_num di ?l ?k s = Some (?r, s1)" and q1: "quiet view ready s s1"
    and c1: "heap_calls s1 = heap_calls s + of_bool (map_path ?V (bs div 4) di (?pos div bs) \<noteq> [])"
    using resolve_mapped [OF ok m, of ?l] l sum by (metis less_imp_le)
  have lf: "length ?f = bs" using length_file_block [OF ok m l(2)] .
  have z: "?x = (if ?Z (?pos div bs) then replicate (unat ?c) 0 else file_bytes ?V bs di ?pos (unat ?c))"
    by (rule lossy_block [OF cbs]) (use k in simp)
  have Z: "?Z (?pos div bs) \<longleftrightarrow> map_path ?V (bs div 4) di (?pos div bs) \<noteq> [] \<and> no_buffer s" by (simp add: lost_here no_buffer_def)
  have fb: "file_bytes ?V bs di ?pos (unat ?c) = take (unat ?c) (drop (?pos mod bs) ?f)"
    by (rule file_bytes_block [OF lf cbs]) (use k in simp)
  have put: "buf_put out (unat copied) ?x = Some (take (unat copied) out @ ?x @ drop (unat copied + unat ?c) out)"
    using cle out by (simp add: buf_put_in)
  note unf = copy_blocks.simps [of di offset count copied out buf s]
  show thesis
  proof (cases "?r = 0")
    case True
    have "?x = replicate (unat ?c) 0"
    proof (cases "?Z (?pos div bs)")
      case False
      then have "?b = 0" using True Z by (simp add: resolved_def split: if_splits)
      then show ?thesis using False cbs unfolding z fb by (simp add: file_block_def)
    qed (simp add: z)
    then show thesis
      using put True s1 lt k(3) by (intro that [OF buf q1 c1]) (simp add: unf Let_def flip: step_chunk_def [unfolded Let_def])
  next
    case False
    then have r: "?r = ?b" "\<not> ?Z (?pos div bs)" "?b \<noteq> 0" unfolding Z by (simp_all add: resolved_def split: if_splits)
    have v: "valid ?b" using m l(2) r(3) by (auto simp: mapped_def)
    obtain s2 where s2: "fs_read ?b buf s1 = Some (0, ?V ?b, s2)" and q2: "quiet view ready s1 s2" and c2: "heap_calls s2 = heap_calls s1"
      using fs_read_ok [OF quiet_vol_ok [OF q1 ok] v buf] quiet_fields(6) [OF q1] by metis
    have f: "?f = ?V ?b" using r(3) by (simp add: file_block_def)
    have get: "buf_get (?V ?b) (unat ((offset + copied) mod ?k)) (unat ?c) = Some ?x"
      using lf mbs r(2) unfolding z fb f w(3) k(1) by simp
    show thesis
      by (rule that [OF lf [unfolded f] quiet_trans [OF q1 q2]])
        (use put get False s1 s2 c1 c2 lt k(3) r(1) in \<open>simp_all add: unf Let_def flip: step_chunk_def [unfolded Let_def]\<close>)
  qed
qed

lemma copy_ok:
  assumes "vol_ok bd ready bs s" "mapped valid (view (disk s)) bs di (unat offset + unat count)" "length buf = bs"
    "unat offset + unat count < 2 ^ 32" "copied \<le> count" "unat count \<le> length out"
  shows "\<exists>s'. copy_blocks di offset count copied out buf s =
      Some (count, take (unat copied) out @
        lossy_bytes (lost (view (disk s)) (bs div 4) di (heap_answers s) (heap_calls s) ((unat offset + unat copied) div bs))
          (view (disk s)) bs di (unat offset + unat copied) (unat count - unat copied) @ drop (unat count) out, s') \<and>
    quiet view ready s s'"
  using assms
proof (induction "unat count - unat copied" arbitrary: copied out buf s rule: less_induct)
  case less
  let ?V = "view (disk s)" and ?c = "step_chunk (fs_block_size s) offset count copied" and ?pos = "unat offset + unat copied"
  let ?Z = "lost ?V (bs div 4) di (heap_answers s) (heap_calls s) (?pos div bs)"
  have k: "0 < unat (fs_block_size s)" "unat (fs_block_size s) = bs" using less.prems(1) by (auto simp: vol_ok_def)
  show ?case
  proof (cases "copied < count")
    case False
    then have "copied = count" using less.prems(5) by simp
    then show ?thesis using less.prems(1)
      by (subst copy_blocks.simps) (auto simp: lossy_bytes_def vol_ok_def intro!: quiet_refl)
  next
    case True
    note w = step_words [OF less.prems(4) True k(1)]
    have lt: "unat copied < unat count" using True by (simp add: word_less_nat_alt)
    have c: "0 < unat ?c" "unat copied + unat ?c \<le> unat count" using lt k unfolding w(4) by simp_all
    let ?out = "take (unat copied) out @ lossy_bytes ?Z ?V bs di ?pos (unat ?c) @ drop (unat copied + unat ?c) out"
    obtain buf' s1 where s1: "length buf' = bs" "quiet view ready s s1"
      "heap_calls s1 = heap_calls s + of_bool (map_path ?V (bs div 4) di (?pos div bs) \<noteq> [])"
      "copy_blocks di offset count copied out buf s = copy_blocks di offset count (copied + ?c) ?out buf' s1"
      using copy_step [OF less.prems(1-4) True less.prems(6)] .
    have V: "view (disk s1) = ?V" "heap_answers s1 = heap_answers s" using quiet_fields(6, 8) [OF s1(2)] .
    let ?pos' = "unat offset + unat (copied + ?c)" and ?n' = "unat count - unat (copied + ?c)"
    let ?Z' = "lost ?V (bs div 4) di (heap_answers s) (heap_calls s1) (?pos' div bs)"
    have "\<exists>s'. copy_blocks di offset count (copied + ?c) ?out buf' s1 =
        Some (count, take (unat (copied + ?c)) ?out @ lossy_bytes (lost (view (disk s1)) (bs div 4) di (heap_answers s1) (heap_calls s1) (?pos' div bs))
          (view (disk s1)) bs di ?pos' ?n' @ drop (unat count) ?out, s') \<and> quiet view ready s1 s'"
      by (rule less.hyps)
        (use less.prems w(5) c s1 V quiet_vol_ok [OF s1(2)] in \<open>auto simp: word_le_nat_alt\<close>)
    then obtain s2 where s2: "copy_blocks di offset count (copied + ?c) ?out buf' s1 =
        Some (count, take (unat (copied + ?c)) ?out @ lossy_bytes ?Z' ?V bs di ?pos' ?n' @ drop (unat count) ?out, s2)" "quiet view ready s1 s2"
      unfolding V by blast
    have "take (unat (copied + ?c)) ?out = take (unat copied) out @ lossy_bytes ?Z ?V bs di ?pos (unat ?c)"
      "drop (unat count) ?out = drop (unat count) out"
      using less.prems(6) c w(5) by simp_all
    moreover have "lossy_bytes ?Z' ?V bs di ?pos' ?n' = lossy_bytes ?Z ?V bs di ?pos' ?n'"
    proof (rule lossy_cong)
      fix p assume p: "?pos' \<le> p" "p < ?pos' + ?n'"
      then have d: "?pos' div bs = Suc (?pos div bs)"
        using next_block [OF less.prems(4) True k(1)] k(2) w(5) by (simp add: add.assoc)
      have "Suc (?pos div bs) \<le> p div bs" using div_le_mono [OF p(1), of bs] d by simp
      then show "?Z' (p div bs) = ?Z (p div bs)" unfolding d s1(3) by (intro lost_next) simp
    qed
    moreover have "lossy_bytes ?Z ?V bs di ?pos (unat ?c) @ lossy_bytes ?Z ?V bs di ?pos' ?n' = lossy_bytes ?Z ?V bs di ?pos (unat count - unat copied)"
      using lossy_split [of "unat ?c" "unat count - unat copied" ?Z ?V bs di ?pos] c w(5) by (simp add: add.assoc)
    ultimately show ?thesis using s1(4) s2 quiet_trans [OF s1(2) s2(2)] by simp
  qed
qed

lemma read_ok:
  assumes ok: "vol_ok bd ready bs s" and m: "mapped valid (view (disk s)) bs (v_disk_inode v) (unat (v_size v))"
    and size: "unat (v_size v) < 2 ^ 31" and sum: "unat offset + unat count < 2 ^ 32" and out: "unat count \<le> length out"
    and n: "n = min (unat count) (unat (v_size v) - unat offset)"
  shows "\<exists>s'. ext2_read v out count offset s = Some (if 0 < n \<and> no_buffer s then (- 1, out, s') else
      (int n, lossy_bytes (lost (view (disk s)) (bs div 4) (v_disk_inode v) (heap_answers s) (Suc (heap_calls s)) (unat offset div bs))
        (view (disk s)) bs (v_disk_inode v) (unat offset) n @ drop n out, s')) \<and> quiet view ready s s'"
proof (cases "n = 0")
  case True
  then have "v_size v \<le> offset \<or> count = 0" using n unat_eq_zero [of count] by (auto simp: word_le_nat_alt min_def split: if_splits)
  moreover have "ready (disk s)" using ok by (simp add: vol_ok_def)
  ultimately show ?thesis using True by (auto simp: ext2_read_def lossy_bytes_def quiet_refl)
next
  case False
  let ?c = "if v_size v < offset + count then v_size v - offset else count" and ?s1 = "s\<lparr>heap_calls := Suc (heap_calls s)\<rparr>"
  have lt: "unat offset < unat (v_size v)" using False n by simp
  have sm: "unat (offset + count) = unat offset + unat count" using sum by (subst unat_plus_no_wrap) auto
  have c: "unat ?c = n" using lt sm n by (auto simp: word_less_nat_alt word_le_nat_alt unat_sub)
  have c0: "?c \<noteq> 0" using c False by auto
  have sz: "unat offset + unat ?c \<le> unat (v_size v)" using lt unfolding c n by simp
  have lo: "n \<le> length out" using out n by simp
  have si: "sint ?c = int n" using c size sz by (intro sint_small) simp_all
  have le: "\<not> v_size v \<le> offset" using lt by (simp add: word_le_nat_alt)
  have q1: "quiet view ready s ?s1" by (rule kmalloc_quiet [OF ok])
  show ?thesis
  proof (cases "no_buffer s")
    case True
    then show ?thesis using le c0 False q1 by (simp add: ext2_read_def with_kmalloc_None Let_def)
  next
    case buf: False
    then obtain f where f: "heap_answers s (heap_calls s) = Some f" by (auto simp: no_buffer_def)
    have len: "length (map f [0..<unat (fs_block_size s)]) = bs" using ok by (simp add: vol_ok_def)
    have "mapped valid (view (disk ?s1)) bs (v_disk_inode v) (unat offset + unat ?c)"
      using mapped_mono [OF m sz] by simp
    from copy_ok [OF quiet_vol_ok [OF q1 ok] this len, of 0 out]
    obtain s2 where s2: "copy_blocks (v_disk_inode v) offset ?c 0 out (map f [0..<unat (fs_block_size s)]) ?s1 =
        Some (?c, lossy_bytes (lost (view (disk s)) (bs div 4) (v_disk_inode v) (heap_answers s) (Suc (heap_calls s)) (unat offset div bs))
          (view (disk s)) bs (v_disk_inode v) (unat offset) n @ drop n out, s2)" "quiet view ready ?s1 s2"
      using sz size lo c by auto
    show ?thesis using s2 c0 si buf le quiet_trans [OF q1 s2(2)]
      by (simp add: ext2_read_def with_kmalloc_Some [OF f] Let_def)
  qed
qed

end

end
