(* ===== verification/Ext2_Itable.thy ===== *)
theory Ext2_Itable
  imports Ext2_Map Ext2_Inode
begin

text \<open>
  The inode table as a map from inode numbers to inodes: \<open>ext2_read_inode_raw\<close> looks a number up,
  \<open>ext2_write_inode_raw\<close> is a functional update.
\<close>

section \<open>Where an inode lives\<close>

text \<open>Group, block relative to the table and byte offset of inode \<open>n\<close>, in natural numbers; \<open>ipg\<close> inodes per
  group, \<open>ipb\<close> inodes of \<open>isz\<close> bytes per block.\<close>

definition slot_group :: "nat \<Rightarrow> u32 \<Rightarrow> nat" where "slot_group ipg n = (unat n - 1) div ipg"
definition slot_block :: "nat \<Rightarrow> nat \<Rightarrow> u32 \<Rightarrow> nat" where "slot_block ipg ipb n = (unat n - 1) mod ipg div ipb"
definition slot_offset :: "nat \<Rightarrow> nat \<Rightarrow> nat \<Rightarrow> u32 \<Rightarrow> nat" where
  "slot_offset ipg ipb isz n = (unat n - 1) mod ipg mod ipb * isz"

definition ipg :: "'d ext2 \<Rightarrow> nat" where "ipg s = unat (s_inodes_per_group (fs_sb s))"
definition isz :: "'d ext2 \<Rightarrow> nat" where "isz s = unat (inode_size (fs_sb s))"
definition ipb :: "'d ext2 \<Rightarrow> nat" where "ipb s = unat (fs_block_size s) div isz s"
definition itable :: "'d ext2 \<Rightarrow> nat \<Rightarrow> nat" where "itable s g = unat (bg_inode_table (fs_group_desc s ! g))"

text \<open>The block of inode \<open>n\<close>.\<close>

definition inode_home :: "'d ext2 \<Rightarrow> u32 \<Rightarrow> u32" where
  "inode_home s n = of_nat (itable s (slot_group (ipg s) n) + slot_block (ipg s) (ipb s) n)"

text \<open>A volume whose inode tables are in order: inodes fit into blocks, the tables lie in the valid
  blocks, and the tables of different groups do not overlap.\<close>

definition itable_ok :: "(u32 \<Rightarrow> bool) \<Rightarrow> 'd ext2 \<Rightarrow> bool" where
  "itable_ok valid s \<longleftrightarrow> 0 < ipg s \<and> 128 \<le> isz s \<and> isz s \<le> unat (fs_block_size s) \<and>
     (\<forall>g < length (fs_group_desc s). \<forall>j \<le> (ipg s - 1) div ipb s. itable s g + j < 2 ^ 32 \<and> valid (of_nat (itable s g + j))) \<and>
     (\<forall>g < length (fs_group_desc s). \<forall>h < length (fs_group_desc s). g \<noteq> h \<longrightarrow>
        (\<forall>i \<le> (ipg s - 1) div ipb s. \<forall>j \<le> (ipg s - 1) div ipb s. itable s g + i \<noteq> itable s h + j))"

text \<open>The inode numbers of the volume.\<close>

definition inode_nos :: "'d ext2 \<Rightarrow> u32 set" where
  "inode_nos s = {n. n \<noteq> 0 \<and> slot_group (ipg s) n < length (fs_group_desc s)}"

text \<open>The inode that is stored under number \<open>n\<close>.\<close>

definition inode_at :: "(u32 \<Rightarrow> u8 list) \<Rightarrow> 'd ext2 \<Rightarrow> u32 \<Rightarrow> ext2_inode" where
  "inode_at V s n = dec_inode (take 128 (drop (slot_offset (ipg s) (ipb s) (isz s) n) (V (inode_home s n))))"

lemma ipb_pos: "itable_ok valid s \<Longrightarrow> 0 < ipb s"
  by (auto simp: itable_ok_def ipb_def div_greater_zero_iff)

lemma slot_block_le:
  assumes "0 < ipg s"
  shows "slot_block (ipg s) (ipb s) n \<le> (ipg s - 1) div ipb s"
proof -
  have "(unat n - 1) mod ipg s < ipg s" using assms by simp
  then show ?thesis unfolding slot_block_def by (intro div_le_mono) linarith
qed

lemma slot_offset_fits:
  assumes "itable_ok valid s"
  shows "slot_offset (ipg s) (ipb s) (isz s) n + isz s \<le> unat (fs_block_size s)"
proof -
  have "(unat n - 1) mod ipg s mod ipb s < ipb s" using ipb_pos [OF assms] by simp
  then have "((unat n - 1) mod ipg s mod ipb s + 1) * isz s \<le> ipb s * isz s" by (intro mult_le_mono1) simp
  also have "\<dots> \<le> unat (fs_block_size s)" by (simp add: ipb_def)
  finally show ?thesis by (simp add: slot_offset_def algebra_simps)
qed

lemma inode_slot_ok:
  assumes ok: "itable_ok valid s" and n: "n \<in> inode_nos s"
  shows "inode_slot n s = Some (inode_home s n, of_nat (slot_offset (ipg s) (ipb s) (isz s) n))"
    and "valid (inode_home s n)"
    and "unat (of_nat (slot_offset (ipg s) (ipb s) (isz s) n) :: u32) = slot_offset (ipg s) (ipb s) (isz s) n"
proof -
  let ?g = "slot_group (ipg s) n"
  have nz: "n \<noteq> 0" and g: "?g < length (fs_group_desc s)" using n by (auto simp: inode_nos_def)
  have pos: "0 < ipg s" "0 < isz s" "0 < ipb s" using ok ipb_pos [OF ok] by (auto simp: itable_ok_def)
  then have nz2: "s_inodes_per_group (fs_sb s) \<noteq> 0" "inode_size (fs_sb s) \<noteq> 0"
    by (auto simp: ipg_def isz_def)
  have pb: "unat (fs_block_size s div inode_size (fs_sb s)) = ipb s"
    by (simp add: unat_div_distrib ipb_def isz_def)
  then have pb0: "fs_block_size s div inode_size (fs_sb s) \<noteq> 0" using pos(3) by auto
  have grp: "unat ((n - 1) div s_inodes_per_group (fs_sb s)) = ?g"
    by (simp add: unat_div_distrib unat_pred [OF nz] slot_group_def ipg_def)
  let ?i = "(n - 1) mod s_inodes_per_group (fs_sb s)"
  have i: "unat ?i = (unat n - 1) mod ipg s" by (simp add: unat_mod_distrib unat_pred [OF nz] ipg_def)
  have blk: "?i div (fs_block_size s div inode_size (fs_sb s)) = of_nat (slot_block (ipg s) (ipb s) n)"
    by (rule eq_of_nat) (simp only: slot_block_def unat_div_distrib [of ?i] i pb)
  have off: "?i mod (fs_block_size s div inode_size (fs_sb s)) * inode_size (fs_sb s) =
      of_nat (slot_offset (ipg s) (ipb s) (isz s) n)"
  proof -
    have "?i mod (fs_block_size s div inode_size (fs_sb s)) = of_nat ((unat n - 1) mod ipg s mod ipb s)"
      by (rule eq_of_nat) (simp only: unat_mod_distrib [of ?i] i pb)
    then show ?thesis by (simp add: slot_offset_def isz_def)
  qed
  show "inode_slot n s = Some (inode_home s n, of_nat (slot_offset (ipg s) (ipb s) (isz s) n))"
    using nz2 pb0 g blk off by (simp add: inode_slot_def grp inode_home_def itable_def)
  show "valid (inode_home s n)"
    using ok g slot_block_le [OF pos(1), of n] by (auto simp: itable_ok_def inode_home_def)
  have "slot_offset (ipg s) (ipb s) (isz s) n < 2 ^ 32"
    using slot_offset_fits [OF ok, of n] unat_bound32 [of "fs_block_size s"] pos(2) by simp
  then show "unat (of_nat (slot_offset (ipg s) (ipb s) (isz s) n) :: u32) = slot_offset (ipg s) (ipb s) (isz s) n"
    by (simp add: unat_of_nat)
qed

text \<open>Different numbers have disjoint slots.\<close>

lemma slots_disjoint:
  assumes ok: "itable_ok valid s" and n: "n \<in> inode_nos s" "m \<in> inode_nos s" "m \<noteq> n" and home: "inode_home s m = inode_home s n"
  shows "slot_offset (ipg s) (ipb s) (isz s) m + isz s \<le> slot_offset (ipg s) (ipb s) (isz s) n \<or>
    slot_offset (ipg s) (ipb s) (isz s) n + isz s \<le> slot_offset (ipg s) (ipb s) (isz s) m"
proof -
  let ?G = "slot_group (ipg s)" and ?B = "slot_block (ipg s) (ipb s)"
  have g: "?G n < length (fs_group_desc s)" "?G m < length (fs_group_desc s)" using n by (auto simp: inode_nos_def)
  have pos: "0 < ipg s" using ok by (simp add: itable_ok_def)
  have "itable s (?G m) + ?B m < 2 ^ 32" "itable s (?G n) + ?B n < 2 ^ 32"
    using ok g slot_block_le [OF pos] unfolding itable_ok_def by blast+
  with home have tab: "itable s (?G m) + ?B m = itable s (?G n) + ?B n"
    unfolding inode_home_def by (simp only: of_nat_eq_iff_32)
  have G: "?G m = ?G n"
    using ok g slot_block_le [OF pos] tab unfolding itable_ok_def by metis
  with tab have B: "?B m = ?B n" by simp
  have "unat m \<noteq> 0" "unat n \<noteq> 0" "unat m \<noteq> unat n"
    using n by (auto simp: inode_nos_def word_unat_eq_iff)
  then have "unat m - 1 \<noteq> unat n - 1" by linarith
  then have "(unat m - 1) mod ipg s \<noteq> (unat n - 1) mod ipg s"
    using G unfolding slot_group_def by (metis div_mult_mod_eq)
  then have "(unat m - 1) mod ipg s mod ipb s \<noteq> (unat n - 1) mod ipg s mod ipb s"
    using B unfolding slot_block_def by (metis div_mult_mod_eq)
  then have "(unat m - 1) mod ipg s mod ipb s + 1 \<le> (unat n - 1) mod ipg s mod ipb s \<or>
    (unat n - 1) mod ipg s mod ipb s + 1 \<le> (unat m - 1) mod ipg s mod ipb s" by linarith
  then have "((unat m - 1) mod ipg s mod ipb s + 1) * isz s \<le> (unat n - 1) mod ipg s mod ipb s * isz s \<or>
    ((unat n - 1) mod ipg s mod ipb s + 1) * isz s \<le> (unat m - 1) mod ipg s mod ipb s * isz s"
    using mult_le_mono1 by blast
  then show ?thesis by (simp add: slot_offset_def add_mult_distrib add.commute)
qed

section \<open>Reading and writing\<close>

context block_storage
begin

lemma read_inode_raw_ok:
  assumes vok: "vol_ok bd ready bs s" and ok: "itable_ok valid s" and n: "n \<in> inode_nos s" and buf: "\<not> no_buffer s"
  obtains s' where "ext2_read_inode_raw n x s = Some (0, inode_at (view (disk s)) s n, s')" and "quiet view ready s s'"
proof -
  note sl = inode_slot_ok [OF ok n]
  obtain f where f: "heap_answers s (heap_calls s) = Some f"
    and q1: "quiet view ready s (s\<lparr>heap_calls := Suc (heap_calls s)\<rparr>)" (is "quiet _ _ _ ?s1")
    using kmalloc_answer [OF vok buf] by blast
  have bs: "unat (fs_block_size s) = bs" using vok by (simp add: vol_ok_def)
  then have len: "length (map f [0..<unat (fs_block_size s)]) = bs" by simp
  obtain s2 where s2: "fs_read (inode_home s n) (map f [0..<unat (fs_block_size s)]) ?s1 = Some (0, view (disk s) (inode_home s n), s2)"
    and q2: "quiet view ready ?s1 s2"
    using fs_read_ok [OF quiet_vol_ok [OF q1 vok] sl(2) len] by auto
  have "ready (disk s)" using vok by (simp add: vol_ok_def)
  then have "length (view (disk s) (inode_home s n)) = bs" using view_length sl(2) by blast
  moreover have "slot_offset (ipg s) (ipb s) (isz s) n + 128 \<le> bs"
    using slot_offset_fits [OF ok, of n] ok bs by (simp add: itable_ok_def)
  ultimately have "buf_get (view (disk s) (inode_home s n)) (slot_offset (ipg s) (ipb s) (isz s) n) 128 =
      Some (take 128 (drop (slot_offset (ipg s) (ipb s) (isz s) n) (view (disk s) (inode_home s n))))" by simp
  then show thesis using n s2 sl(1,3) quiet_trans [OF q1 q2]
    by (intro that [of s2]) (simp_all add: ext2_read_inode_raw_def with_kmalloc_Some [OF f] inode_nos_def inode_at_def)
qed

lemma home_put:
  assumes vok: "vol_ok bd ready bs s" and ok: "itable_ok valid s" and n: "n \<in> inode_nos s"
    and di: "length (i_block di) = 15" "length (i_osd2 di) = 12"
  shows "\<exists>b. buf_put (view (disk s) (inode_home s n)) (slot_offset (ipg s) (ipb s) (isz s) n) (enc_inode di) = Some b \<and> length b = bs"
proof -
  have "ready (disk s)" "unat (fs_block_size s) = bs" using vok by (simp_all add: vol_ok_def)
  moreover have "slot_offset (ipg s) (ipb s) (isz s) n + 128 \<le> unat (fs_block_size s)"
    using slot_offset_fits [OF ok, of n] ok by (simp add: itable_ok_def)
  ultimately show ?thesis using view_length inode_slot_ok(2) [OF ok n] di by (simp add: buf_put_in)
qed

text \<open>The effect of the changed block \<open>b\<close> on the inodes that live in it.\<close>

lemma inode_at_put:
  assumes vok: "vol_ok bd ready bs s" and ok: "itable_ok valid s" and n: "n \<in> inode_nos s" "m \<in> inode_nos s"
    and di: "length (i_block di) = 15" "length (i_osd2 di) = 12"
    and b: "buf_put (view (disk s) (inode_home s n)) (slot_offset (ipg s) (ipb s) (isz s) n) (enc_inode di) = Some b"
    and V: "V (inode_home s m) = (if inode_home s m = inode_home s n then b else view (disk s) (inode_home s m))"
  shows "inode_at V s m = (if m = n then di else inode_at (view (disk s)) s m)"
proof -
  let ?o = "slot_offset (ipg s) (ipb s) (isz s)"
  have len: "length (enc_inode di) = 128" using di by simp
  consider "m = n" | "m \<noteq> n" "inode_home s m = inode_home s n" | "m \<noteq> n" "inode_home s m \<noteq> inode_home s n" by blast
  then show ?thesis
  proof cases
    case 1
    then show ?thesis using V buf_get_put_same [OF b, of 128] di len
      by (auto simp: inode_at_def buf_get_def split: if_splits)
  next
    case 2
    have "?o m + 128 \<le> ?o n \<or> ?o n + length (enc_inode di) \<le> ?o m"
      using slots_disjoint [OF ok n 2] ok len by (auto simp: itable_ok_def)
    then have "buf_get b (?o m) 128 = buf_get (view (disk s) (inode_home s n)) (?o m) 128"
      by (rule buf_get_put_other [OF b])
    moreover have "?o m + 128 \<le> length (view (disk s) (inode_home s n))"
      using slot_offset_fits [OF ok, of m] ok vok view_length inode_slot_ok(2) [OF ok n(1)]
      by (auto simp: itable_ok_def vol_ok_def)
    ultimately show ?thesis using 2 V by (auto simp: inode_at_def buf_get_def split: if_splits)
  next
    case 3
    then show ?thesis using V by (simp add: inode_at_def)
  qed
qed

lemma write_inode_raw_ok:
  assumes vok: "vol_ok bd ready bs s" and ok: "itable_ok valid s" and n: "n \<in> inode_nos s"
    and di: "length (i_block di) = 15" "length (i_osd2 di) = 12" and buf: "\<not> no_buffer s"
  obtains d k where "ext2_write_inode_raw n di s = Some (0, s\<lparr>disk := d, heap_calls := k\<rparr>)" and "ready d"
    and "\<And>m. m \<in> inode_nos s \<Longrightarrow> inode_at (view d) s m = (if m = n then di else inode_at (view (disk s)) s m)"
    and "\<And>c. valid c \<Longrightarrow> c \<noteq> inode_home s n \<Longrightarrow> view d c = view (disk s) c"
proof -
  note sl = inode_slot_ok [OF ok n]
  let ?o = "slot_offset (ipg s) (ipb s) (isz s)" and ?h = "inode_home s n"
  obtain f where f: "heap_answers s (heap_calls s) = Some f"
    and q1: "quiet view ready s (s\<lparr>heap_calls := Suc (heap_calls s)\<rparr>)" (is "quiet _ _ _ ?s1")
    using kmalloc_answer [OF vok buf] by blast
  have bs: "unat (fs_block_size s) = bs" using vok by (simp add: vol_ok_def)
  then have len: "length (map f [0..<unat (fs_block_size s)]) = bs" by simp
  obtain s2 where s2: "fs_read ?h (map f [0..<unat (fs_block_size s)]) ?s1 = Some (0, view (disk s) ?h, s2)"
    and q2: "quiet view ready ?s1 s2"
    using fs_read_ok [OF quiet_vol_ok [OF q1 vok] sl(2) len] by auto
  note q = quiet_trans [OF q1 q2]
  obtain b where b: "buf_put (view (disk s) ?h) (?o n) (enc_inode di) = Some b" "length b = bs"
    using home_put [OF vok ok n di] by blast
  obtain d where d: "fs_write ?h b s2 = Some (0, s2\<lparr>disk := d\<rparr>)" "ready d"
    "\<And>c. valid c \<Longrightarrow> view d c = (if c = ?h then b else view (disk s2) c)"
    using fs_write_ok [OF quiet_vol_ok [OF q vok] sl(2) b(2)] by blast
  obtain d2 k where "s2 = s\<lparr>disk := d2, heap_calls := k\<rparr>" using q by (auto simp: quiet_def)
  then have k: "s2\<lparr>disk := d\<rparr> = s\<lparr>disk := d, heap_calls := k\<rparr>" by simp
  have vd: "view d c = (if c = ?h then b else view (disk s) c)" if "valid c" for c
    using d(3) [OF that] quiet_fields(6) [OF q] by simp
  show thesis
  proof (rule that [where d = d and k = k])
    show "ext2_write_inode_raw n di s = Some (0, s\<lparr>disk := d, heap_calls := k\<rparr>)"
      using n s2 sl(1,3) b d(1) k by (simp add: ext2_write_inode_raw_def with_kmalloc_Some [OF f] inode_nos_def)
    show "inode_at (view d) s m = (if m = n then di else inode_at (view (disk s)) s m)" if m: "m \<in> inode_nos s" for m
      using inode_at_put [OF vok ok n m di b(1)] vd [OF inode_slot_ok(2) [OF ok m]] by simp
  qed (use d(2) vd in auto)
qed

text \<open>Without a buffer both fail and leave everything as it was.\<close>

lemma inode_raw_fails:
  assumes "itable_ok valid s" "n \<in> inode_nos s" "no_buffer s"
  shows "ext2_read_inode_raw n x s = Some (- 1, x, s\<lparr>heap_calls := Suc (heap_calls s)\<rparr>)"
    "ext2_write_inode_raw n di s = Some (- 1, s\<lparr>heap_calls := Suc (heap_calls s)\<rparr>)"
  using assms(2, 3) inode_slot_ok(1) [OF assms(1, 2)]
  by (simp_all add: ext2_read_inode_raw_def ext2_write_inode_raw_def with_kmalloc_None inode_nos_def)

end

lemma itable_frame [simp]:
  "ipg (s\<lparr>disk := d, heap_calls := k\<rparr>) = ipg s" "isz (s\<lparr>disk := d, heap_calls := k\<rparr>) = isz s"
  "ipb (s\<lparr>disk := d, heap_calls := k\<rparr>) = ipb s" "itable (s\<lparr>disk := d, heap_calls := k\<rparr>) = itable s"
  "inode_home (s\<lparr>disk := d, heap_calls := k\<rparr>) = inode_home s"
  "inode_nos (s\<lparr>disk := d, heap_calls := k\<rparr>) = inode_nos s"
  "inode_at V (s\<lparr>disk := d, heap_calls := k\<rparr>) = inode_at V s"
  "itable_ok valid (s\<lparr>disk := d, heap_calls := k\<rparr>) = itable_ok valid s"
  by (simp_all add: fun_eq_iff ipg_def isz_def ipb_def itable_def inode_home_def inode_nos_def inode_at_def itable_ok_def)

section \<open>The block of an inode\<close>

text \<open>C24. When the inode size divides the block size,
  \<open>ext2_get_inode_block\<close> computes the block that \<open>ext2_read_inode_raw\<close> and \<open>ext2_write_inode_raw\<close> use.\<close>

theorem ext2_get_inode_block_equiv:
  assumes "inode_size (fs_sb s) \<noteq> 0" "unat (fs_block_size s) = unat (inode_size (fs_sb s)) * q" "0 < q"
    "n \<noteq> 0" "unat (s_inodes_per_group (fs_sb s)) * unat (inode_size (fs_sb s)) \<le> 2 ^ 32"
  shows "ext2_get_inode_block n s = map_option fst (inode_slot n s)"
proof (cases "s_inodes_per_group (fs_sb s) = 0")
  case False
  let ?i = "(n - 1) mod s_inodes_per_group (fs_sb s)" and ?z = "inode_size (fs_sb s)"
  have z: "0 < unat ?z" using assms(1) by (simp add: unat_gt_0)
  have "unat ?i < unat (s_inodes_per_group (fs_sb s))"
    using False by (simp add: unat_mod_distrib unat_gt_0)
  then have "unat ?i * unat ?z < unat (s_inodes_per_group (fs_sb s)) * unat ?z" using z by simp
  also note assms(5)
  finally have "unat (?i * ?z) = unat ?i * unat ?z" by (simp add: unat_word_ariths(2))
  then have e: "?i * ?z div fs_block_size s = ?i div (fs_block_size s div ?z)"
    using z by (simp add: word_unat_eq_iff unat_div_distrib assms(2) div_mult2_eq)
  have "fs_block_size s \<noteq> 0" using assms(2,3) z by (auto simp: word_unat_eq_iff)
  moreover have "fs_block_size s div ?z \<noteq> 0"
    using z assms(3) by (simp add: word_unat_eq_iff unat_div_distrib assms(2))
  ultimately show ?thesis using assms(1,4) False
    by (auto simp: ext2_get_inode_block_def inode_slot_def e aget_def)
qed (use assms(4) in \<open>simp add: ext2_get_inode_block_def inode_slot_def udiv_def\<close>)

end
