(* ===== verification/Ports.thy ===== *)
theory Ports
  imports Prelude
begin

text \<open>
  Port I/O (\<open>include/arch/i686/io.h\<close>).  The machine behind the ports is a parameter of the drivers: its
  state \<open>'h\<close> and the effect of \<open>in\<close>, \<open>out\<close> and \<open>hlt\<close>.
\<close>

record 'h io_ports =
  io_inb :: "u16 \<Rightarrow> 'h \<Rightarrow> u8 \<times> 'h"
  io_inw :: "u16 \<Rightarrow> 'h \<Rightarrow> u16 \<times> 'h"
  io_outb :: "u16 \<Rightarrow> u8 \<Rightarrow> 'h \<Rightarrow> 'h"
  io_outw :: "u16 \<Rightarrow> u16 \<Rightarrow> 'h \<Rightarrow> 'h"
  io_irq :: "'h \<Rightarrow> bool \<times> 'h"
  io_hlt :: "'h \<Rightarrow> bool \<times> 'h"

end
