(* ===== verification/Ata.thy ===== *)
theory Ata
  imports Device Ports
begin

text \<open>
  The ATA PIO driver (\<open>drivers/disk/ata.c\<close>) over the port I/O primitives of
  \<open>include/arch/i686/io.h\<close>.  The machine behind the ports is a parameter: its state \<open>'h\<close> and the effect
  of \<open>in\<close>, \<open>out\<close> and \<open>hlt\<close>.  IRQ 14 may be delivered after any port access and while the CPU is halted;
  \<open>io_irq\<close> says whether it is.
\<close>

record 'h ata =
  hw :: 'h
  ata_irq_fired :: bool

abbreviation (input) ATA_DATA_PORT :: u16 where "ATA_DATA_PORT \<equiv> 0x1F0"
abbreviation (input) ATA_SECTOR_COUNT :: u16 where "ATA_SECTOR_COUNT \<equiv> 0x1F2"
abbreviation (input) ATA_LBA_LOW :: u16 where "ATA_LBA_LOW \<equiv> 0x1F3"
abbreviation (input) ATA_LBA_MID :: u16 where "ATA_LBA_MID \<equiv> 0x1F4"
abbreviation (input) ATA_LBA_HIGH :: u16 where "ATA_LBA_HIGH \<equiv> 0x1F5"
abbreviation (input) ATA_DRIVE_SELECT :: u16 where "ATA_DRIVE_SELECT \<equiv> 0x1F6"
abbreviation (input) ATA_COMMAND_PORT :: u16 where "ATA_COMMAND_PORT \<equiv> 0x1F7"
abbreviation (input) ATA_STATUS_PORT :: u16 where "ATA_STATUS_PORT \<equiv> 0x1F7"
abbreviation (input) ATA_CONTROL_PORT :: u16 where "ATA_CONTROL_PORT \<equiv> 0x3F6"
abbreviation (input) ATA_CMD_READ_SECTORS :: u8 where "ATA_CMD_READ_SECTORS \<equiv> 0x20"
abbreviation (input) ATA_CMD_WRITE_SECTORS :: u8 where "ATA_CMD_WRITE_SECTORS \<equiv> 0x30"
abbreviation (input) ATA_CMD_IDENTIFY :: u8 where "ATA_CMD_IDENTIFY \<equiv> 0xEC"
abbreviation (input) ATA_STATUS_BUSY :: u8 where "ATA_STATUS_BUSY \<equiv> 0x80"
abbreviation (input) ATA_STATUS_READY :: u8 where "ATA_STATUS_READY \<equiv> 0x40"
abbreviation (input) ATA_STATUS_DRQ :: u8 where "ATA_STATUS_DRQ \<equiv> 0x08"
abbreviation (input) ATA_STATUS_ERROR :: u8 where "ATA_STATUS_ERROR \<equiv> 0x01"
abbreviation (input) ATA_ERROR_NONE :: int where "ATA_ERROR_NONE \<equiv> 0"
abbreviation (input) ATA_ERROR_TIMEOUT :: int where "ATA_ERROR_TIMEOUT \<equiv> - 2"
abbreviation (input) ATA_ERROR_FAULT :: int where "ATA_ERROR_FAULT \<equiv> - 3"
abbreviation (input) ATA_ERROR_UNKNOWN :: int where "ATA_ERROR_UNKNOWN \<equiv> - 5"
abbreviation (input) ATA_SECTOR_SIZE :: u32 where "ATA_SECTOR_SIZE \<equiv> 512"
abbreviation (input) ATA_SECTOR_WORDS :: nat where "ATA_SECTOR_WORDS \<equiv> 256"
abbreviation (input) ATA_MAX_SECTORS_PER_CMD :: u32 where "ATA_MAX_SECTORS_PER_CMD \<equiv> 255"

section \<open>Interrupts and port access\<close>

definition ata_primary_irq_handler :: "'h io_ports \<Rightarrow> 'h ata \<Rightarrow> 'h ata" where
  "ata_primary_irq_handler io s =
     s\<lparr>hw := snd (io_inb io ATA_STATUS_PORT (hw s)), ata_irq_fired := True\<rparr>"

definition irq_point :: "'h io_ports \<Rightarrow> 'h ata \<Rightarrow> 'h ata" where
  "irq_point io s =
     (case io_irq io (hw s) of (fires, h) \<Rightarrow>
        if fires then ata_primary_irq_handler io (s\<lparr>hw := h\<rparr>) else s\<lparr>hw := h\<rparr>)"

definition inb :: "'h io_ports \<Rightarrow> u16 \<Rightarrow> 'h ata \<Rightarrow> u8 \<times> 'h ata" where
  "inb io p s = (case io_inb io p (hw s) of (v, h) \<Rightarrow> (v, irq_point io (s\<lparr>hw := h\<rparr>)))"

definition inw :: "'h io_ports \<Rightarrow> u16 \<Rightarrow> 'h ata \<Rightarrow> u16 \<times> 'h ata" where
  "inw io p s = (case io_inw io p (hw s) of (v, h) \<Rightarrow> (v, irq_point io (s\<lparr>hw := h\<rparr>)))"

definition outb :: "'h io_ports \<Rightarrow> u16 \<Rightarrow> u8 \<Rightarrow> 'h ata \<Rightarrow> 'h ata" where
  "outb io p v s = irq_point io (s\<lparr>hw := io_outb io p v (hw s)\<rparr>)"

definition outw :: "'h io_ports \<Rightarrow> u16 \<Rightarrow> u16 \<Rightarrow> 'h ata \<Rightarrow> 'h ata" where
  "outw io p v s = irq_point io (s\<lparr>hw := io_outw io p v (hw s)\<rparr>)"

definition ata_prepare_irq :: "'h ata \<Rightarrow> 'h ata" where
  "ata_prepare_irq s = s\<lparr>ata_irq_fired := False\<rparr>"

partial_function (option) ata_wait_irq :: "'h io_ports \<Rightarrow> 'h ata \<Rightarrow> 'h ata option" where
  "ata_wait_irq io s =
     (if ata_irq_fired s then Some s
      else (case io_hlt io (hw s) of (fires, h) \<Rightarrow>
        ata_wait_irq io (if fires then ata_primary_irq_handler io (s\<lparr>hw := h\<rparr>) else s\<lparr>hw := h\<rparr>)))"

section \<open>Helpers\<close>

definition ata_setup_lba :: "'h io_ports \<Rightarrow> u32 \<Rightarrow> u8 \<Rightarrow> 'h ata \<Rightarrow> 'h ata" where
  "ata_setup_lba io lba count s =
     (let s = outb io ATA_SECTOR_COUNT count s;
          s = outb io ATA_LBA_LOW (ucast (lba AND 0xFF)) s;
          s = outb io ATA_LBA_MID (ucast (drop_bit 8 lba AND 0xFF)) s;
          s = outb io ATA_LBA_HIGH (ucast (drop_bit 16 lba AND 0xFF)) s
      in outb io ATA_DRIVE_SELECT (ucast (0xE0 OR (drop_bit 24 lba AND 0x0F))) s)"

primrec poll_drq :: "'h io_ports \<Rightarrow> nat \<Rightarrow> 'h ata \<Rightarrow> int \<times> 'h ata" where
  "poll_drq io 0 s = (ATA_ERROR_TIMEOUT, s)"
| "poll_drq io (Suc n) s = (case inb io ATA_STATUS_PORT s of (status, s) \<Rightarrow>
     if status AND ATA_STATUS_ERROR \<noteq> 0 then (ATA_ERROR_FAULT, s)
     else if status AND ATA_STATUS_DRQ \<noteq> 0 then (ATA_ERROR_NONE, s)
     else poll_drq io n s)"

definition ata_poll_drq :: "'h io_ports \<Rightarrow> 'h ata \<Rightarrow> int \<times> 'h ata" where
  "ata_poll_drq io s = poll_drq io 30000 s"

text \<open>One sector from the data port into the bytes of the buffer from \<open>off\<close> on; the recursion counts
  the words still to come.\<close>

primrec read_words :: "'h io_ports \<Rightarrow> nat \<Rightarrow> u8 list \<Rightarrow> nat \<Rightarrow> 'h ata \<Rightarrow> (u8 list \<times> 'h ata) option" where
  "read_words io 0 buf off s = Some (buf, s)"
| "read_words io (Suc n) buf off s = (case inw io ATA_DATA_PORT s of (w, s) \<Rightarrow> do {
     buf \<leftarrow> put16 buf off w;
     read_words io n buf (off + 2) s })"

definition ata_read_pio_data :: "'h io_ports \<Rightarrow> u8 list \<Rightarrow> nat \<Rightarrow> 'h ata \<Rightarrow> (u8 list \<times> 'h ata) option" where
  "ata_read_pio_data io buf off s = read_words io ATA_SECTOR_WORDS buf off s"

primrec write_words :: "'h io_ports \<Rightarrow> nat \<Rightarrow> u8 list \<Rightarrow> nat \<Rightarrow> 'h ata \<Rightarrow> 'h ata option" where
  "write_words io 0 buf off s = Some s"
| "write_words io (Suc n) buf off s = do {
     w \<leftarrow> get16 buf off;
     write_words io n buf (off + 2) (outw io ATA_DATA_PORT w s) }"

definition ata_write_pio_data :: "'h io_ports \<Rightarrow> u8 list \<Rightarrow> nat \<Rightarrow> 'h ata \<Rightarrow> 'h ata option" where
  "ata_write_pio_data io buf off s = write_words io ATA_SECTOR_WORDS buf off s"

text \<open>\<open>io_wait\<close> writes 0 to port 0x80.\<close>

definition io_wait :: "'h io_ports \<Rightarrow> 'h ata \<Rightarrow> 'h ata" where
  "io_wait io s = outb io 0x80 0 s"

definition ata_select_drive :: "'h io_ports \<Rightarrow> int \<Rightarrow> 'h ata \<Rightarrow> 'h ata" where
  "ata_select_drive io drive s =
     io_wait io (outb io ATA_DRIVE_SELECT (if drive = 0 then 0xA0 else 0xB0) s)"

primrec wait_ready :: "'h io_ports \<Rightarrow> nat \<Rightarrow> 'h ata \<Rightarrow> int \<times> 'h ata" where
  "wait_ready io 0 s = (ATA_ERROR_TIMEOUT, s)"
| "wait_ready io (Suc n) s = (case inb io ATA_STATUS_PORT s of (status, s) \<Rightarrow>
     if status AND ATA_STATUS_ERROR \<noteq> 0 then (ATA_ERROR_FAULT, s)
     else if status AND ATA_STATUS_BUSY = 0 \<and> status AND ATA_STATUS_READY \<noteq> 0 then (ATA_ERROR_NONE, s)
     else wait_ready io n s)"

definition ata_wait_ready :: "'h io_ports \<Rightarrow> int \<Rightarrow> 'h ata \<Rightarrow> int \<times> 'h ata" where
  "ata_wait_ready io timeout_ms s = wait_ready io (nat (timeout_ms * 1000)) s"

section \<open>Sectors\<close>

text \<open>The \<open>for\<close> loop over the sectors of one command: \<open>i\<close> sectors done, \<open>n\<close> to go.\<close>

primrec read_chunk :: "'h io_ports \<Rightarrow> nat \<Rightarrow> u8 list \<Rightarrow> nat \<Rightarrow> 'h ata \<Rightarrow> (u8 list \<times> 'h ata) option" where
  "read_chunk io 0 buf off s = Some (buf, s)"
| "read_chunk io (Suc n) buf off s = do {
     s \<leftarrow> ata_wait_irq io s;
     (buf, s) \<leftarrow> ata_read_pio_data io buf off s;
     read_chunk io n buf (off + 512) (if 0 < n then ata_prepare_irq s else s) }"

partial_function (option) read_sectors_loop ::
  "'h io_ports \<Rightarrow> u32 \<Rightarrow> u32 \<Rightarrow> u8 list \<Rightarrow> nat \<Rightarrow> 'h ata \<Rightarrow> (int \<times> u8 list \<times> 'h ata) option" where
  "read_sectors_loop io lba count buf off s =
     (if 0 < count then
        let chunk = (if ATA_MAX_SECTORS_PER_CMD < count then ATA_MAX_SECTORS_PER_CMD else count);
            s = ata_select_drive io 0 s in
        case ata_wait_ready io 1000 s of (r, s) \<Rightarrow>
        if r \<noteq> ATA_ERROR_NONE then Some (ATA_ERROR_TIMEOUT, buf, s)
        else let s = ata_setup_lba io lba (ucast chunk) s;
                 s = ata_prepare_irq s;
                 s = outb io ATA_COMMAND_PORT ATA_CMD_READ_SECTORS s in do {
          (buf, s) \<leftarrow> read_chunk io (unat chunk) buf off s;
          read_sectors_loop io (lba + chunk) (count - chunk) buf (off + unat chunk * 512) s }
      else Some (ATA_ERROR_NONE, buf, s))"

definition ata_read_sectors :: "'h io_ports \<Rightarrow> u32 \<Rightarrow> u32 \<Rightarrow> u8 list \<Rightarrow> 'h ata \<Rightarrow> (int \<times> u8 list \<times> 'h ata) option" where
  "ata_read_sectors io lba count buf s =
     (if count = 0 then Some (ATA_ERROR_UNKNOWN, buf, s) else read_sectors_loop io lba count buf 0 s)"

primrec write_chunk :: "'h io_ports \<Rightarrow> nat \<Rightarrow> u8 list \<Rightarrow> nat \<Rightarrow> 'h ata \<Rightarrow> 'h ata option" where
  "write_chunk io 0 buf off s = Some s"
| "write_chunk io (Suc n) buf off s = do {
     s \<leftarrow> ata_write_pio_data io buf off (ata_prepare_irq s);
     s \<leftarrow> ata_wait_irq io s;
     write_chunk io n buf (off + 512) s }"

partial_function (option) write_sectors_loop ::
  "'h io_ports \<Rightarrow> u32 \<Rightarrow> u32 \<Rightarrow> u8 list \<Rightarrow> nat \<Rightarrow> 'h ata \<Rightarrow> (int \<times> 'h ata) option" where
  "write_sectors_loop io lba count buf off s =
     (if 0 < count then
        let chunk = (if ATA_MAX_SECTORS_PER_CMD < count then ATA_MAX_SECTORS_PER_CMD else count);
            s = ata_select_drive io 0 s in
        case ata_wait_ready io 1000 s of (r, s) \<Rightarrow>
        if r \<noteq> ATA_ERROR_NONE then Some (ATA_ERROR_TIMEOUT, s)
        else let s = ata_setup_lba io lba (ucast chunk) s;
                 s = outb io ATA_COMMAND_PORT ATA_CMD_WRITE_SECTORS s in
        case ata_poll_drq io s of (r, s) \<Rightarrow>
        if r \<noteq> ATA_ERROR_NONE then Some (r, s)
        else do {
          s \<leftarrow> write_chunk io (unat chunk) buf off s;
          write_sectors_loop io (lba + chunk) (count - chunk) buf (off + unat chunk * 512) s }
      else Some (ATA_ERROR_NONE, s))"

definition ata_write_sectors :: "'h io_ports \<Rightarrow> u32 \<Rightarrow> u32 \<Rightarrow> u8 list \<Rightarrow> 'h ata \<Rightarrow> (int \<times> 'h ata) option" where
  "ata_write_sectors io lba count buf s =
     (if count = 0 then Some (ATA_ERROR_UNKNOWN, s) else write_sectors_loop io lba count buf 0 s)"

definition ata_read_sector :: "'h io_ports \<Rightarrow> u32 \<Rightarrow> u8 list \<Rightarrow> 'h ata \<Rightarrow> (int \<times> u8 list \<times> 'h ata) option" where
  "ata_read_sector io lba buf s = ata_read_sectors io lba 1 buf s"

definition ata_write_sector :: "'h io_ports \<Rightarrow> u32 \<Rightarrow> u8 list \<Rightarrow> 'h ata \<Rightarrow> (int \<times> 'h ata) option" where
  "ata_write_sector io lba buf s = ata_write_sectors io lba 1 buf s"

definition ata_identify_drive :: "'h io_ports \<Rightarrow> int \<Rightarrow> u8 list \<Rightarrow> 'h ata \<Rightarrow> (int \<times> u8 list \<times> 'h ata) option" where
  "ata_identify_drive io drive buf s =
     (case ata_wait_ready io 1000 (ata_select_drive io drive s) of (r, s) \<Rightarrow>
      if r \<noteq> ATA_ERROR_NONE then Some (ATA_ERROR_TIMEOUT, buf, s)
      else let s = outb io ATA_SECTOR_COUNT 0 s;
               s = outb io ATA_LBA_LOW 0 s;
               s = outb io ATA_LBA_MID 0 s;
               s = outb io ATA_LBA_HIGH 0 s;
               s = outb io ATA_COMMAND_PORT ATA_CMD_IDENTIFY (ata_prepare_irq s) in
      case inb io ATA_CONTROL_PORT s of (status, s) \<Rightarrow>
      if status = 0 then Some (ATA_ERROR_FAULT, buf, s)
      else do {
        s \<leftarrow> ata_wait_irq io s;
        (buf, s) \<leftarrow> ata_read_pio_data io buf 0 s;
        Some (ATA_ERROR_NONE, buf, s) })"

section \<open>The block device adapter\<close>

definition ata_blk_read_block :: "'h io_ports \<Rightarrow> 'h ata read_op" where
  "ata_blk_read_block io dev block buf s =
     (let sectors_per_block = bd_block_size dev div ATA_SECTOR_SIZE
      in ata_read_sectors io (block * sectors_per_block) sectors_per_block buf s)"

definition ata_blk_write_block :: "'h io_ports \<Rightarrow> 'h ata write_op" where
  "ata_blk_write_block io dev block buf s =
     (let sectors_per_block = bd_block_size dev div ATA_SECTOR_SIZE
      in ata_write_sectors io (block * sectors_per_block) sectors_per_block buf s)"

definition ata_blk_read_blocks :: "'h io_ports \<Rightarrow> 'h ata reads_op" where
  "ata_blk_read_blocks io dev start count buf s =
     (let sectors_per_block = bd_block_size dev div ATA_SECTOR_SIZE
      in ata_read_sectors io (start * sectors_per_block) (count * sectors_per_block) buf s)"

definition ata_blk_write_blocks :: "'h io_ports \<Rightarrow> 'h ata writes_op" where
  "ata_blk_write_blocks io dev start count buf s =
     (let sectors_per_block = bd_block_size dev div ATA_SECTOR_SIZE
      in ata_write_sectors io (start * sectors_per_block) (count * sectors_per_block) buf s)"

definition ata_blk_ops :: "'h io_ports \<Rightarrow> 'h ata block_device_ops" where
  "ata_blk_ops io =
     \<lparr>op_read_block = Some (ata_blk_read_block io), op_write_block = Some (ata_blk_write_block io),
      op_read_blocks = Some (ata_blk_read_blocks io), op_write_blocks = Some (ata_blk_write_blocks io)\<rparr>"

definition ata_drive_exists :: "'h io_ports \<Rightarrow> 'h ata \<Rightarrow> bool \<times> 'h ata" where
  "ata_drive_exists io s =
     (case inb io ATA_STATUS_PORT (ata_select_drive io 0 s) of (status, s) \<Rightarrow>
      if status = 0x00 \<or> status = 0xFF then (False, s)
      else let s = outb io ATA_LBA_LOW 0xAA (outb io ATA_SECTOR_COUNT 0x55 s) in
      case inb io ATA_SECTOR_COUNT s of (c, s) \<Rightarrow>
      if c \<noteq> 0x55 then (False, s)
      else case inb io ATA_LBA_LOW s of (l, s) \<Rightarrow> (l = 0xAA, s))"

text \<open>The static device structure that \<open>ata_create_block_device\<close> fills and registers at address
  \<open>self\<close>.\<close>

definition ata_block_dev :: "'h io_ports \<Rightarrow> 'h ata block_device" where
  "ata_block_dev io =
     \<lparr>bd_info = \<lparr>bd_major = 3, bd_minor = 0, bd_block_size = ATA_SECTOR_SIZE, bd_capacity = 0,
        bd_base_port = ATA_DATA_PORT, bd_drive_type = 0, bd_is_exists = True, bd_name = ''hda''\<rparr>,
      bd_ops = Some (ata_blk_ops io)\<rparr>"

definition ata_create_block_device ::
  "'h io_ports \<Rightarrow> u32 \<Rightarrow> 'h ata bdev_registry \<Rightarrow> 'h ata \<Rightarrow> u32 \<times> 'h ata bdev_registry \<times> 'h ata" where
  "ata_create_block_device io self r s =
     (case ata_drive_exists io s of (ex, s) \<Rightarrow>
      if \<not> ex then (0, r, s)
      else let r = r\<lparr>bdev_at := (bdev_at r)(self := ata_block_dev io)\<rparr> in
      case block_device_register self r of (ret, r) \<Rightarrow>
      if ret \<noteq> 0 then (0, r, s) else (self, r, s))"

end
