(* ===== verification/Ata_Drive.thy ===== *)
theory Ata_Drive
  imports Ata
begin

text \<open>
  The driver against a drive.  The drive follows the ATA PIO protocol for the primary master with
  28-bit addressing: a READ SECTORS command raises the interrupt line before each sector can be read, a
  WRITE SECTORS command after each sector has been received, reading the status register lowers the
  line.  \<open>dr_eager\<close> selects when the CPU takes the interrupt: as soon as the line is raised, or only when
  it is halted.  The drive is never busy when its status is read and never reports an error.
\<close>

datatype phase = Idle | Reading nat nat nat | Writing nat nat "u16 list"

record drive =
  dr_sectors :: "nat \<Rightarrow> u8 list"
  dr_count :: u8
  dr_low :: u8
  dr_mid :: u8
  dr_high :: u8
  dr_sel :: u8
  dr_phase :: phase
  dr_irq :: bool
  dr_eager :: bool

definition dr_lba :: "drive \<Rightarrow> nat" where
  "dr_lba d = unat (dr_low d) + 256 * unat (dr_mid d) + 65536 * unat (dr_high d) + 16777216 * unat (dr_sel d AND 0x0F)"

definition dr_want :: "drive \<Rightarrow> nat" where
  "dr_want d = (if dr_count d = 0 then 256 else unat (dr_count d))"

definition dr_status :: "drive \<Rightarrow> u8" where
  "dr_status d = (if dr_phase d = Idle then 0x40 else 0x48)"

definition drive_inb :: "u16 \<Rightarrow> drive \<Rightarrow> u8 \<times> drive" where
  "drive_inb p d =
     (if p = 0x1F7 then (dr_status d, d\<lparr>dr_irq := False\<rparr>)
      else if p = 0x3F6 then (dr_status d, d)
      else if p = 0x1F2 then (dr_count d, d)
      else if p = 0x1F3 then (dr_low d, d)
      else if p = 0x1F4 then (dr_mid d, d)
      else if p = 0x1F5 then (dr_high d, d)
      else if p = 0x1F6 then (dr_sel d, d)
      else (0xFF, d))"

definition read_step :: "nat \<Rightarrow> nat \<Rightarrow> nat \<Rightarrow> drive \<Rightarrow> drive" where
  "read_step l n k d =
     (if k + 1 < 256 then d\<lparr>dr_phase := Reading l n (k + 1)\<rparr>
      else if 1 < n then d\<lparr>dr_phase := Reading (l + 1) (n - 1) 0, dr_irq := True\<rparr>
      else d\<lparr>dr_phase := Idle\<rparr>)"

definition drive_inw :: "u16 \<Rightarrow> drive \<Rightarrow> u16 \<times> drive" where
  "drive_inw p d =
     (case dr_phase d of
        Reading l n k \<Rightarrow> if p = 0x1F0 then (dec16 (take 2 (drop (2 * k) (dr_sectors d l))), read_step l n k d) else (0xFFFF, d)
      | _ \<Rightarrow> (0xFFFF, d))"

definition drive_outb :: "u16 \<Rightarrow> u8 \<Rightarrow> drive \<Rightarrow> drive" where
  "drive_outb p v d =
     (if p = 0x1F2 then d\<lparr>dr_count := v\<rparr>
      else if p = 0x1F3 then d\<lparr>dr_low := v\<rparr>
      else if p = 0x1F4 then d\<lparr>dr_mid := v\<rparr>
      else if p = 0x1F5 then d\<lparr>dr_high := v\<rparr>
      else if p = 0x1F6 then d\<lparr>dr_sel := v\<rparr>
      else if p = 0x1F7 \<and> dr_phase d = Idle then
        if v = 0x20 then d\<lparr>dr_phase := Reading (dr_lba d) (dr_want d) 0, dr_irq := True\<rparr>
        else if v = 0x30 then d\<lparr>dr_phase := Writing (dr_lba d) (dr_want d) []\<rparr>
        else d
      else d)"

definition write_step :: "nat \<Rightarrow> nat \<Rightarrow> u16 list \<Rightarrow> drive \<Rightarrow> drive" where
  "write_step l n ws d =
     (if length ws < 256 then d\<lparr>dr_phase := Writing l n ws\<rparr>
      else d\<lparr>dr_sectors := (dr_sectors d)(l := concat (map le16 ws)), dr_irq := True,
             dr_phase := (if 1 < n then Writing (l + 1) (n - 1) [] else Idle)\<rparr>)"

definition drive_outw :: "u16 \<Rightarrow> u16 \<Rightarrow> drive \<Rightarrow> drive" where
  "drive_outw p v d =
     (case dr_phase d of
        Writing l n ws \<Rightarrow> if p = 0x1F0 then write_step l n (ws @ [v]) d else d
      | _ \<Rightarrow> d)"

definition drive_io :: "drive io_ports" where
  "drive_io = \<lparr>io_inb = drive_inb, io_inw = drive_inw, io_outb = drive_outb, io_outw = drive_outw,
     io_irq = (\<lambda>d. (dr_eager d \<and> dr_irq d, d)), io_hlt = (\<lambda>d. (dr_irq d, d))\<rparr>"

section \<open>Single accesses when interrupts are taken while halted\<close>

lemma drive_io_sel [simp]:
  "io_inb drive_io = drive_inb" "io_inw drive_io = drive_inw" "io_outb drive_io = drive_outb"
  "io_outw drive_io = drive_outw" "io_irq drive_io d = (dr_eager d \<and> dr_irq d, d)"
  "io_hlt drive_io d = (dr_irq d, d)"
  by (simp_all add: drive_io_def)

lemma irq_point_lazy [simp]: "\<not> dr_eager (hw s) \<Longrightarrow> irq_point drive_io s = s"
  by (simp add: irq_point_def)

lemma eager_outb [simp]: "dr_eager (drive_outb p v d) = dr_eager d"
  by (simp add: drive_outb_def)

lemma eager_outw [simp]: "dr_eager (drive_outw p w d) = dr_eager d"
  by (simp add: drive_outw_def write_step_def split: phase.split)

lemma eager_inb [simp]: "dr_eager (snd (drive_inb p d)) = dr_eager d"
  by (simp add: drive_inb_def)

lemma eager_inw [simp]: "dr_eager (snd (drive_inw p d)) = dr_eager d"
  by (simp add: drive_inw_def read_step_def split: phase.split)

lemma outb_lazy [simp]: "\<not> dr_eager (hw s) \<Longrightarrow> outb drive_io p v s = s\<lparr>hw := drive_outb p v (hw s)\<rparr>"
  by (simp add: outb_def)

lemma outw_lazy [simp]: "\<not> dr_eager (hw s) \<Longrightarrow> outw drive_io p v s = s\<lparr>hw := drive_outw p v (hw s)\<rparr>"
  by (simp add: outw_def)

lemma inb_lazy [simp]: "\<not> dr_eager (hw s) \<Longrightarrow>
    inb drive_io p s = (fst (drive_inb p (hw s)), s\<lparr>hw := snd (drive_inb p (hw s))\<rparr>)"
  using eager_inb [of p "hw s"] by (cases "drive_inb p (hw s)") (simp add: inb_def)

lemma inw_lazy [simp]: "\<not> dr_eager (hw s) \<Longrightarrow>
    inw drive_io p s = (fst (drive_inw p (hw s)), s\<lparr>hw := snd (drive_inw p (hw s))\<rparr>)"
  using eager_inw [of p "hw s"] by (cases "drive_inw p (hw s)") (simp add: inw_def)

lemma wait_irq_line:
  assumes "dr_irq (hw s)" and "\<not> ata_irq_fired s"
  shows "ata_wait_irq drive_io s = Some (s\<lparr>hw := (hw s)\<lparr>dr_irq := False\<rparr>, ata_irq_fired := True\<rparr>)"
proof -
  let ?t = "s\<lparr>hw := (hw s)\<lparr>dr_irq := False\<rparr>, ata_irq_fired := True\<rparr>"
  have "ata_wait_irq drive_io s = ata_wait_irq drive_io ?t"
    using assms by (subst ata_wait_irq.simps) (simp add: ata_primary_irq_handler_def drive_inb_def)
  also have "\<dots> = Some ?t" by (subst ata_wait_irq.simps) simp
  finally show ?thesis .
qed

section \<open>Preparing a command\<close>

definition drive_ok :: "drive \<Rightarrow> bool" where
  "drive_ok d \<longleftrightarrow> \<not> dr_eager d \<and> dr_phase d = Idle \<and> \<not> dr_irq d \<and> (\<forall>l. length (dr_sectors d l) = 512)"

lemma select_lazy: "\<not> dr_eager (hw s) \<Longrightarrow>
    ata_select_drive drive_io 0 s = s\<lparr>hw := (hw s)\<lparr>dr_sel := 0xA0\<rparr>\<rparr>"
  by (simp add: ata_select_drive_def io_wait_def) (simp add: drive_outb_def)

lemma wait_ready_lazy: "\<not> dr_eager (hw s) \<Longrightarrow> dr_phase (hw s) = Idle \<Longrightarrow>
    ata_wait_ready drive_io 1000 s = (0, s\<lparr>hw := (hw s)\<lparr>dr_irq := False\<rparr>\<rparr>)"
proof -
  assume *: "\<not> dr_eager (hw s)" "dr_phase (hw s) = Idle"
  have wr: "wait_ready drive_io (Suc n) s = (0, s\<lparr>hw := (hw s)\<lparr>dr_irq := False\<rparr>\<rparr>)" for n
    using * by (simp add: drive_inb_def dr_status_def)
  show ?thesis using wr [of 999999] by (simp add: ata_wait_ready_def)
qed

lemma lowE0:
  assumes "n < 4"
  shows "\<not> bit (0xE0 :: 'a::len word) n" and "\<not> bit (0xE0 :: int) n" and "\<not> bit (0xE0 :: nat) n"
proof -
  have "n = 0 \<or> n = 1 \<or> n = 2 \<or> n = 3" using assms by linarith
  then show "\<not> bit (0xE0 :: 'a::len word) n" "\<not> bit (0xE0 :: int) n" "\<not> bit (0xE0 :: nat) n"
    by (elim disjE; simp add: bit_numeral_rec)+
qed

lemma lba_bytes:
  assumes "unat (lba :: u32) < 2 ^ 28"
  shows "unat (ucast (lba AND 0xFF) :: u8) + 256 * unat (ucast (drop_bit 8 lba AND 0xFF) :: u8) +
    65536 * unat (ucast (drop_bit 16 lba AND 0xFF) :: u8) +
    16777216 * unat ((ucast (0xE0 OR (drop_bit 24 lba AND 0x0F)) :: u8) AND 0x0F) = unat lba"
proof -
  have m8: "x AND 0xFF = take_bit 8 x" for x :: u32 by (simp add: take_bit_eq_mask mask_eq_exp_minus_1)
  have byte: "unat (ucast (drop_bit k lba AND 0xFF) :: u8) = unat lba div 2 ^ k mod 256" for k
    unfolding m8 unsigned_ucast_eq unsigned_take_bit_eq unat_drop_bit_eq
    by (simp add: drop_bit_eq_div take_bit_nat_def)
  have top: "unat ((ucast (0xE0 OR (drop_bit 24 lba AND 0x0F)) :: u8) AND 0x0F) = unat lba div 2 ^ 24 mod 16"
  proof -
    have m4: "(0x0F :: 'a::len word) = mask 4" by (simp add: mask_eq_exp_minus_1)
    have "(ucast (0xE0 OR (drop_bit 24 lba AND 0x0F)) :: u8) AND 0x0F = ucast (take_bit 4 (drop_bit 24 lba))"
      by (rule bit_word_eqI) (auto simp: bit_simps m4 lowE0)
    then have "unat ((ucast (0xE0 OR (drop_bit 24 lba AND 0x0F)) :: u8) AND 0x0F) =
        take_bit LENGTH(8) (take_bit 4 (drop_bit 24 (unat lba)))"
      by (simp only: unsigned_ucast_eq unsigned_take_bit_eq unat_drop_bit_eq take_bit_take_bit min.commute)
    then show ?thesis by (simp add: drop_bit_eq_div take_bit_nat_def)
  qed
  let ?x = "unat lba"
  have "?x div 2 ^ 24 mod 16 = ?x div 2 ^ 24" using assms by (intro mod_less) simp
  moreover have "?x = ?x mod 256 + 256 * (?x div 256 mod 256) + 65536 * (?x div 65536 mod 256) + 16777216 * (?x div 16777216)"
  proof -
    have "?x = 256 * (?x div 256) + ?x mod 256" by simp
    moreover have "?x div 256 = 256 * (?x div 65536) + ?x div 256 mod 256" using div_mult2_eq [of ?x 256 256] by simp
    moreover have "?x div 65536 = 256 * (?x div 16777216) + ?x div 65536 mod 256" using div_mult2_eq [of ?x 65536 256] by simp
    ultimately show ?thesis by linarith
  qed
  ultimately show ?thesis using byte [of 0] byte [of 8] byte [of 16] top by simp
qed

lemma setup_lazy:
  assumes "\<not> dr_eager (hw s)" and "unat lba < 2 ^ 28"
  obtains d where "ata_setup_lba drive_io lba count s = s\<lparr>hw := d\<rparr>" and "dr_lba d = unat lba"
    and "dr_count d = count" and "dr_phase d = dr_phase (hw s)" and "dr_irq d = dr_irq (hw s)"
    and "dr_sectors d = dr_sectors (hw s)" and "\<not> dr_eager d"
proof -
  let ?d = "(hw s)\<lparr>dr_count := count, dr_low := ucast (lba AND 0xFF), dr_mid := ucast (drop_bit 8 lba AND 0xFF),
    dr_high := ucast (drop_bit 16 lba AND 0xFF), dr_sel := ucast (0xE0 OR (drop_bit 24 lba AND 0x0F))\<rparr>"
  have "ata_setup_lba drive_io lba count s = s\<lparr>hw := ?d\<rparr>"
    using assms(1) by (simp add: ata_setup_lba_def Let_def) (simp add: drive_outb_def)
  moreover have "dr_lba ?d = unat lba" using lba_bytes [OF assms(2)] by (simp add: dr_lba_def)
  ultimately show thesis using that [of ?d] assms(1) by simp
qed

section \<open>Reading\<close>

lemma take2_drop: "k < 256 \<Longrightarrow> length sec = 512 \<Longrightarrow> take 2 (drop (2 * k) sec) @ drop (2 * (k + 1)) sec = drop (2 * k) sec"
  using append_take_drop_id [of 2 "drop (2 * k) sec"] by (simp add: drop_drop)

lemma read_words_lazy:
  assumes "\<not> dr_eager (hw s)" and "dr_phase (hw s) = Reading l n k" and "k + m = 256" and "0 < m"
    and "length (dr_sectors (hw s) l) = 512" and "off + 2 * m \<le> length buf"
  shows "read_words drive_io m buf off s =
    Some (take off buf @ drop (2 * k) (dr_sectors (hw s) l) @ drop (off + 2 * m) buf,
          s\<lparr>hw := read_step l n 255 (hw s)\<rparr>)"
  using assms
proof (induction m arbitrary: k buf off s)
  case (Suc m)
  let ?sec = "dr_sectors (hw s) l" and ?w = "dec16 (take 2 (drop (2 * k) (dr_sectors (hw s) l)))"
  let ?s1 = "s\<lparr>hw := read_step l n k (hw s)\<rparr>"
  have k: "k < 256" using Suc.prems(3) by simp
  have inw: "inw drive_io 0x1F0 s = (?w, ?s1)" using Suc.prems(1,2) by (simp add: drive_inw_def)
  let ?b = "take off buf @ le16 ?w @ drop (off + 2) buf"
  have put: "put16 buf off ?w = Some ?b" using Suc.prems(6) by (simp add: put16_def buf_put_in)
  have w: "le16 ?w = take 2 (drop (2 * k) ?sec)" using k Suc.prems(5) by simp
  have step: "read_words drive_io (Suc m) buf off s = read_words drive_io m ?b (off + 2) ?s1"
    using inw put by simp
  show ?case
  proof (cases m)
    case 0
    then have "k = 255" using Suc.prems(3) by simp
    then show ?thesis using step 0 w Suc.prems(5) by simp
  next
    case (Suc m')
    then have lt: "k + 1 < 256" using Suc.prems(3) by simp
    then have s1: "?s1 = s\<lparr>hw := (hw s)\<lparr>dr_phase := Reading l n (k + 1)\<rparr>\<rparr>" by (simp add: read_step_def)
    have A: "read_words drive_io m ?b (off + 2) ?s1 =
      Some (take (off + 2) ?b @ drop (2 * (k + 1)) ?sec @ drop (off + 2 + 2 * m) ?b, s\<lparr>hw := read_step l n 255 (hw s)\<rparr>)"
      unfolding s1
      by (subst Suc.IH [where k = "k + 1"]) (use Suc Suc.prems in \<open>auto simp: read_step_def\<close>)
    have B: "take (off + 2) ?b = take off buf @ take 2 (drop (2 * k) ?sec)"
      using Suc.prems(5,6) k by (simp add: w)
    have C: "drop (off + 2 + 2 * m) ?b = drop (off + 2 * Suc m) buf"
      using Suc.prems(5,6) k by (simp add: w add.commute)
    show ?thesis unfolding step A B C
      using arg_cong [OF take2_drop [OF k Suc.prems(5)], of "\<lambda>x. take off buf @ x @ drop (off + 2 * Suc m) buf"]
      by (simp only: append_assoc)
  qed
qed simp

definition sector_bytes :: "(nat \<Rightarrow> u8 list) \<Rightarrow> nat \<Rightarrow> nat \<Rightarrow> u8 list" where
  "sector_bytes S l n = concat (map S [l..<l + n])"

lemma sector_bytes_Suc: "sector_bytes S l (Suc n) = S l @ sector_bytes S (Suc l) n"
  by (simp add: sector_bytes_def upt_conv_Cons del: upt_Suc)

lemma sector_bytes_add: "sector_bytes S l (m + n) = sector_bytes S l m @ sector_bytes S (l + m) n"
  by (induction m arbitrary: l) (simp_all add: sector_bytes_Suc, simp add: sector_bytes_def)

lemma sector_bytes_length: "\<forall>l. length (S l) = 512 \<Longrightarrow> length (sector_bytes S l n) = 512 * n"
  by (induction n arbitrary: l) (simp_all add: sector_bytes_Suc, simp add: sector_bytes_def)

lemma read_chunk_lazy:
  assumes "\<not> dr_eager (hw s)" and "dr_phase (hw s) = Reading l (Suc n) 0" and "dr_irq (hw s)" and "\<not> ata_irq_fired s"
    and len: "\<forall>l. length (dr_sectors (hw s) l) = 512" and "off + 512 * Suc n \<le> length buf"
  shows "\<exists>d. read_chunk drive_io (Suc n) buf off s =
      Some (take off buf @ sector_bytes (dr_sectors (hw s)) l (Suc n) @ drop (off + 512 * Suc n) buf,
            s\<lparr>hw := d, ata_irq_fired := True\<rparr>) \<and>
    dr_phase d = Idle \<and> \<not> dr_irq d \<and> \<not> dr_eager d \<and> dr_sectors d = dr_sectors (hw s)"
  using assms
proof (induction n arbitrary: l buf off s)
  case 0
  let ?s1 = "s\<lparr>hw := (hw s)\<lparr>dr_irq := False\<rparr>, ata_irq_fired := True\<rparr>"
  have "ata_wait_irq drive_io s = Some ?s1" using wait_irq_line 0 by simp
  moreover have "ata_read_pio_data drive_io buf off ?s1 =
      Some (take off buf @ dr_sectors (hw s) l @ drop (off + 512) buf,
            ?s1\<lparr>hw := read_step l 1 255 (hw ?s1)\<rparr>)"
    unfolding ata_read_pio_data_def
    using 0 by (subst read_words_lazy [where l = l and n = 1 and k = 0]) auto
  ultimately show ?case using 0
    by (intro exI [of _ "read_step l 1 255 (hw ?s1)"]) (simp add: read_step_def sector_bytes_def)
next
  case (Suc n)
  let ?S = "dr_sectors (hw s)"
  let ?s1 = "s\<lparr>hw := (hw s)\<lparr>dr_irq := False\<rparr>, ata_irq_fired := True\<rparr>"
  let ?d2 = "(hw s)\<lparr>dr_irq := True, dr_phase := Reading (l + 1) (Suc n) 0\<rparr>"
  let ?b = "take off buf @ ?S l @ drop (off + 512) buf"
  have w: "ata_wait_irq drive_io s = Some ?s1" using wait_irq_line Suc.prems by simp
  have r: "ata_read_pio_data drive_io buf off ?s1 = Some (?b, s\<lparr>hw := ?d2, ata_irq_fired := True\<rparr>)"
    unfolding ata_read_pio_data_def
    using Suc.prems by (subst read_words_lazy [where l = l and n = "Suc (Suc n)" and k = 0]) (auto simp: read_step_def)
  let ?s2 = "s\<lparr>hw := ?d2, ata_irq_fired := False\<rparr>"
  have step: "read_chunk drive_io (Suc (Suc n)) buf off s = read_chunk drive_io (Suc n) ?b (off + 512) ?s2"
    using w r by (simp add: ata_prepare_irq_def)
  have "\<exists>d. read_chunk drive_io (Suc n) ?b (off + 512) ?s2 =
      Some (take (off + 512) ?b @ sector_bytes (dr_sectors (hw ?s2)) (l + 1) (Suc n) @ drop (off + 512 + 512 * Suc n) ?b,
            ?s2\<lparr>hw := d, ata_irq_fired := True\<rparr>) \<and>
    dr_phase d = Idle \<and> \<not> dr_irq d \<and> \<not> dr_eager d \<and> dr_sectors d = dr_sectors (hw ?s2)"
    by (rule Suc.IH) (use Suc.prems in auto)
  then obtain d where d: "read_chunk drive_io (Suc n) ?b (off + 512) ?s2 =
      Some (take (off + 512) ?b @ sector_bytes ?S (l + 1) (Suc n) @ drop (off + 512 + 512 * Suc n) ?b,
            s\<lparr>hw := d, ata_irq_fired := True\<rparr>)"
    "dr_phase d = Idle" "\<not> dr_irq d" "\<not> dr_eager d" "dr_sectors d = ?S" by auto
  have B: "take (off + 512) ?b = take off buf @ ?S l" using Suc.prems by simp
  have C: "drop (off + 512 + 512 * Suc n) ?b = drop (off + 512 * Suc (Suc n)) buf"
    using Suc.prems by (simp add: ac_simps)
  show ?case unfolding step d(1) B C using d(2-5)
    by (intro exI [of _ d]) (simp add: sector_bytes_Suc [of ?S l])
qed

text \<open>Selecting the drive, waiting until it is ready and programming the address, from a good drive.\<close>

lemma issue_lazy:
  assumes ok: "drive_ok (hw s)" and lba: "unat lba < 2 ^ 28" and chunk: "0 < unat chunk" "unat chunk \<le> 255"
  obtains d where "ata_wait_ready drive_io 1000 (ata_select_drive drive_io 0 s) = (0, s\<lparr>hw := (hw s)\<lparr>dr_sel := 0xA0\<rparr>\<rparr>)"
    and "ata_setup_lba drive_io lba (ucast (chunk :: u32)) (s\<lparr>hw := (hw s)\<lparr>dr_sel := 0xA0\<rparr>\<rparr>) = s\<lparr>hw := d\<rparr>"
    and "drive_ok d" and "dr_lba d = unat lba" and "dr_want d = unat chunk" and "dr_sectors d = dr_sectors (hw s)"
proof -
  let ?s1 = "s\<lparr>hw := (hw s)\<lparr>dr_sel := 0xA0\<rparr>\<rparr>"
  have lz: "\<not> dr_eager (hw s)" "dr_phase (hw s) = Idle" "\<not> dr_irq (hw s)" using ok by (auto simp: drive_ok_def)
  have "ata_wait_ready drive_io 1000 (ata_select_drive drive_io 0 s) = (0, ?s1\<lparr>hw := (hw ?s1)\<lparr>dr_irq := False\<rparr>\<rparr>)"
    using lz by (simp add: select_lazy wait_ready_lazy)
  moreover have "(hw s)\<lparr>dr_sel := 0xA0, dr_irq := False\<rparr> = (hw s)\<lparr>dr_sel := 0xA0\<rparr>" using lz(3) by (cases "hw s") simp
  ultimately have 1: "ata_wait_ready drive_io 1000 (ata_select_drive drive_io 0 s) = (0, ?s1)" by simp
  obtain d where d: "ata_setup_lba drive_io lba (ucast chunk) ?s1 = ?s1\<lparr>hw := d\<rparr>" "dr_lba d = unat lba"
    "dr_count d = ucast chunk" "dr_phase d = Idle" "\<not> dr_irq d" "dr_sectors d = dr_sectors (hw s)" "\<not> dr_eager d"
    using setup_lazy [OF _ lba, of ?s1 "ucast chunk"] lz by auto
  have c: "unat (ucast chunk :: u8) = unat chunk"
    using chunk(2) by (simp add: unsigned_ucast_eq take_bit_nat_eq_self)
  with chunk(1) have "(ucast chunk :: u8) \<noteq> 0" by (metis unat_0 less_irrefl)
  then have "dr_want d = unat chunk" using d(3) c by (simp add: dr_want_def)
  moreover have "drive_ok d" using d ok by (simp add: drive_ok_def)
  ultimately show thesis using that [OF 1, of d] d by simp
qed

lemma chunk_bounds:
  assumes "0 < (count :: u32)"
  defines "chunk \<equiv> if 255 < count then 255 else count"
  shows "0 < unat chunk" and "unat chunk \<le> 255" and "unat chunk \<le> unat count" and "unat (count - chunk) = unat count - unat chunk"
proof -
  show "0 < unat chunk" "unat chunk \<le> 255" using assms by (auto simp: word_less_nat_alt)
  have le: "chunk \<le> count" using assms by (auto simp: word_less_nat_alt word_le_nat_alt)
  then show "unat chunk \<le> unat count" by (simp add: word_le_nat_alt)
  show "unat (count - chunk) = unat count - unat chunk" using le by (simp add: unat_sub)
qed

lemma splice_drop:
  assumes "off + p \<le> q" and "q \<le> length buf" and "length xs = p"
  shows "drop q (take off buf @ xs @ drop (off + p) buf) = drop q buf"
proof -
  obtain r where "q = off + p + r" using assms(1) le_Suc_ex by blast
  then show ?thesis using assms by (simp add: ac_simps)
qed

lemma read_loop_lazy:
  assumes "drive_ok (hw s)" and "unat lba + unat count \<le> 2 ^ 28" and "off + 512 * unat count \<le> length buf"
  shows "\<exists>d f. read_sectors_loop drive_io lba count buf off s =
      Some (0, take off buf @ sector_bytes (dr_sectors (hw s)) (unat lba) (unat count) @ drop (off + 512 * unat count) buf,
            s\<lparr>hw := d, ata_irq_fired := f\<rparr>) \<and> drive_ok d \<and> dr_sectors d = dr_sectors (hw s)"
  using assms
proof (induction "unat count" arbitrary: lba count buf off s rule: less_induct)
  case less
  show ?case
  proof (cases "0 < count")
    case False
    then have "count = 0" by (simp add: word_gt_0)
    then show ?thesis using less.prems
      by (subst read_sectors_loop.simps) (auto simp: sector_bytes_def intro!: exI [of _ "hw s"] exI [of _ "ata_irq_fired s"])
  next
    case True
    let ?S = "dr_sectors (hw s)" and ?chunk = "if 255 < count then 255 else count"
    note cb = chunk_bounds [OF True]
    have lb: "unat lba < 2 ^ 28" using less.prems(2) cb(1,3) by linarith
    obtain d where d: "ata_wait_ready drive_io 1000 (ata_select_drive drive_io 0 s) = (0, s\<lparr>hw := (hw s)\<lparr>dr_sel := 0xA0\<rparr>\<rparr>)"
      "ata_setup_lba drive_io lba (ucast ?chunk) (s\<lparr>hw := (hw s)\<lparr>dr_sel := 0xA0\<rparr>\<rparr>) = s\<lparr>hw := d\<rparr>"
      "drive_ok d" "dr_lba d = unat lba" "dr_want d = unat ?chunk" "dr_sectors d = ?S"
      by (rule issue_lazy [OF less.prems(1) lb cb(1,2)])
    let ?d1 = "d\<lparr>dr_phase := Reading (unat lba) (unat ?chunk) 0, dr_irq := True\<rparr>"
    let ?s1 = "s\<lparr>hw := ?d1, ata_irq_fired := False\<rparr>"
    have out: "outb drive_io 0x1F7 0x20 (ata_prepare_irq (s\<lparr>hw := d\<rparr>)) = ?s1"
      using d(3-5) by (simp add: ata_prepare_irq_def drive_ok_def) (simp add: drive_outb_def)
    obtain n where n: "unat ?chunk = Suc n" using cb(1) gr0_conv_Suc by blast
    have "\<exists>e. read_chunk drive_io (Suc n) buf off ?s1 =
      Some (take off buf @ sector_bytes (dr_sectors (hw ?s1)) (unat lba) (Suc n) @ drop (off + 512 * Suc n) buf,
            ?s1\<lparr>hw := e, ata_irq_fired := True\<rparr>) \<and>
      dr_phase e = Idle \<and> \<not> dr_irq e \<and> \<not> dr_eager e \<and> dr_sectors e = dr_sectors (hw ?s1)"
      by (rule read_chunk_lazy) (use d(3) n less.prems(3) cb(3) in \<open>auto simp: drive_ok_def\<close>)
    then obtain e where e: "read_chunk drive_io (unat ?chunk) buf off ?s1 =
        Some (take off buf @ sector_bytes ?S (unat lba) (unat ?chunk) @ drop (off + 512 * unat ?chunk) buf,
              s\<lparr>hw := e, ata_irq_fired := True\<rparr>)" "drive_ok e" "dr_sectors e = ?S"
      using d(3,6) n by (auto simp: drive_ok_def)
    let ?b = "take off buf @ sector_bytes ?S (unat lba) (unat ?chunk) @ drop (off + 512 * unat ?chunk) buf"
    have step: "read_sectors_loop drive_io lba count buf off s =
      read_sectors_loop drive_io (lba + ?chunk) (count - ?chunk) ?b (off + unat ?chunk * 512) (s\<lparr>hw := e, ata_irq_fired := True\<rparr>)"
      using True d(1,2) out e(1) by (subst read_sectors_loop.simps) (simp add: Let_def)
    have ul: "unat (lba + ?chunk) = unat lba + unat ?chunk"
      using less.prems(2) cb(3) by (intro unat_plus_no_wrap) simp
    have lenS: "length (sector_bytes ?S l m) = 512 * m" for l m
      using less.prems(1) by (intro sector_bytes_length) (simp add: drive_ok_def)
    have lenb: "length ?b = length buf" using less.prems(3) cb(3) by (simp add: lenS)
    have "\<exists>d f. read_sectors_loop drive_io (lba + ?chunk) (count - ?chunk) ?b (off + unat ?chunk * 512) (s\<lparr>hw := e, ata_irq_fired := True\<rparr>) =
      Some (0, take (off + unat ?chunk * 512) ?b @ sector_bytes (dr_sectors (hw (s\<lparr>hw := e, ata_irq_fired := True\<rparr>))) (unat (lba + ?chunk)) (unat (count - ?chunk)) @
          drop (off + unat ?chunk * 512 + 512 * unat (count - ?chunk)) ?b,
          (s\<lparr>hw := e, ata_irq_fired := True\<rparr>)\<lparr>hw := d, ata_irq_fired := f\<rparr>) \<and> drive_ok d \<and>
          dr_sectors d = dr_sectors (hw (s\<lparr>hw := e, ata_irq_fired := True\<rparr>))"
    proof (rule less.hyps)
      show "unat (count - ?chunk) < unat count" using cb(1,3,4) by linarith
      show "drive_ok (hw (s\<lparr>hw := e, ata_irq_fired := True\<rparr>))" using e(2) by simp
      show "unat (lba + ?chunk) + unat (count - ?chunk) \<le> 2 ^ 28" using less.prems(2) cb(3,4) ul by linarith
      show "off + unat ?chunk * 512 + 512 * unat (count - ?chunk) \<le> length ?b"
        using less.prems(3) cb(3,4) lenb by linarith
    qed
    then obtain d f where r: "read_sectors_loop drive_io (lba + ?chunk) (count - ?chunk) ?b (off + unat ?chunk * 512) (s\<lparr>hw := e, ata_irq_fired := True\<rparr>) =
      Some (0, take (off + unat ?chunk * 512) ?b @ sector_bytes ?S (unat lba + unat ?chunk) (unat count - unat ?chunk) @
          drop (off + unat ?chunk * 512 + 512 * (unat count - unat ?chunk)) ?b, s\<lparr>hw := d, ata_irq_fired := f\<rparr>)"
      "drive_ok d" "dr_sectors d = ?S" using e(3) ul cb(4) by auto
    have B: "take (off + unat ?chunk * 512) ?b = take off buf @ sector_bytes ?S (unat lba) (unat ?chunk)"
      using less.prems(3) cb(3) by (simp add: lenS)
    have C: "drop (off + unat ?chunk * 512 + 512 * (unat count - unat ?chunk)) ?b = drop (off + 512 * unat count) buf"
    proof -
      have "off + unat ?chunk * 512 + 512 * (unat count - unat ?chunk) = off + 512 * unat count"
        using cb(3) by (simp only: diff_mult_distrib2)
      then show ?thesis
        using splice_drop [of off "512 * unat ?chunk" "off + 512 * unat count" buf] lenS less.prems(3) cb(3)
        by (simp add: add.commute)
    qed
    have D: "sector_bytes ?S (unat lba) (unat count) =
      sector_bytes ?S (unat lba) (unat ?chunk) @ sector_bytes ?S (unat lba + unat ?chunk) (unat count - unat ?chunk)"
      using sector_bytes_add [of ?S "unat lba" "unat ?chunk" "unat count - unat ?chunk"] cb(3) by simp
    show ?thesis unfolding step r(1) B C D using r(2,3) by (intro exI [of _ d] exI [of _ f]) simp
  qed
qed

lemma read_sectors_ok:
  assumes "drive_ok (hw s)" and "0 < count" and "unat lba + unat count \<le> 2 ^ 28" and "length buf = 512 * unat count"
  shows "\<exists>s'. ata_read_sectors drive_io lba count buf s =
      Some (0, sector_bytes (dr_sectors (hw s)) (unat lba) (unat count), s') \<and>
    drive_ok (hw s') \<and> dr_sectors (hw s') = dr_sectors (hw s)"
proof -
  have "\<exists>d f. read_sectors_loop drive_io lba count buf 0 s =
      Some (0, take 0 buf @ sector_bytes (dr_sectors (hw s)) (unat lba) (unat count) @ drop (0 + 512 * unat count) buf,
            s\<lparr>hw := d, ata_irq_fired := f\<rparr>) \<and> drive_ok d \<and> dr_sectors d = dr_sectors (hw s)"
    by (rule read_loop_lazy) (use assms in auto)
  then obtain d f where "read_sectors_loop drive_io lba count buf 0 s =
      Some (0, sector_bytes (dr_sectors (hw s)) (unat lba) (unat count), s\<lparr>hw := d, ata_irq_fired := f\<rparr>)"
    "drive_ok d" "dr_sectors d = dr_sectors (hw s)" using assms(4) by auto
  moreover have "count \<noteq> 0" using assms(2) by auto
  ultimately show ?thesis by (simp add: ata_read_sectors_def)
qed

text \<open>C2. Reading sectors.  From an idle drive whose interrupts are
  taken while the CPU is halted, \<open>ata_read_sectors\<close> returns success for every count, split into commands
  of at most 255 sectors; the buffer holds exactly the requested sectors, in order, and the drive's
  contents are unchanged.\<close>

theorem ata_read_sectors_correct:
  assumes "drive_ok (hw s)" and "0 < count" and "unat lba + unat count \<le> 2 ^ 28" and "length buf = 512 * unat count"
  shows "\<exists>s'. ata_read_sectors drive_io lba count buf s =
      Some (0, sector_bytes (dr_sectors (hw s)) (unat lba) (unat count), s') \<and>
    drive_ok (hw s') \<and> dr_sectors (hw s') = dr_sectors (hw s)"
  by (rule read_sectors_ok [OF assms])

section \<open>Writing\<close>

definition buf_words :: "u8 list \<Rightarrow> nat \<Rightarrow> nat \<Rightarrow> u16 list" where
  "buf_words buf off m = map (\<lambda>i. dec16 (take 2 (drop (off + 2 * i) buf))) [0..<m]"

lemma buf_words_Suc: "buf_words buf off (Suc m) = dec16 (take 2 (drop off buf)) # buf_words buf (off + 2) m"
  by (simp add: buf_words_def upt_conv_Cons map_Suc_upt [symmetric] comp_def del: upt_Suc)

lemma buf_words_bytes:
  "off + 2 * m \<le> length buf \<Longrightarrow> concat (map le16 (buf_words buf off m)) = take (2 * m) (drop off buf)"
proof (induction m arbitrary: off)
  case (Suc m)
  have "take (2 * Suc m) (drop off buf) = take 2 (drop off buf) @ take (2 * m) (drop (off + 2) buf)"
    using take_add [of 2 "2 * m" "drop off buf"] by (simp add: add.commute)
  with Suc show ?case by (simp add: buf_words_Suc)
qed (simp add: buf_words_def)

lemma write_words_lazy:
  assumes "\<not> dr_eager (hw s)" and "dr_phase (hw s) = Writing l n ws" and "length ws + m = 256" and "0 < m"
    and "off + 2 * m \<le> length buf"
  shows "write_words drive_io m buf off s = Some (s\<lparr>hw := write_step l n (ws @ buf_words buf off m) (hw s)\<rparr>)"
  using assms
proof (induction m arbitrary: ws off s)
  case (Suc m)
  let ?w = "dec16 (take 2 (drop off buf))"
  let ?s1 = "s\<lparr>hw := write_step l n (ws @ [?w]) (hw s)\<rparr>"
  have g: "get16 buf off = Some ?w" using Suc.prems(5) by (simp add: get16_def)
  have o: "outw drive_io 0x1F0 ?w s = ?s1" using Suc.prems(1,2) by (simp add: drive_outw_def)
  have step: "write_words drive_io (Suc m) buf off s = write_words drive_io m buf (off + 2) ?s1"
    using g o by simp
  show ?case
  proof (cases m)
    case 0
    then show ?thesis using step by (simp add: buf_words_def)
  next
    case (Suc m')
    then have lt: "length (ws @ [?w]) < 256" using Suc.prems(3) by simp
    then have s1: "?s1 = s\<lparr>hw := (hw s)\<lparr>dr_phase := Writing l n (ws @ [?w])\<rparr>\<rparr>" by (simp add: write_step_def)
    have "write_words drive_io m buf (off + 2) ?s1 =
        Some (s\<lparr>hw := write_step l n ((ws @ [?w]) @ buf_words buf (off + 2) m) (hw s)\<rparr>)"
      unfolding s1
      by (subst Suc.IH [where ws = "ws @ [?w]"]) (use Suc Suc.prems in \<open>auto simp: write_step_def\<close>)
    then show ?thesis unfolding step by (simp add: buf_words_Suc)
  qed
qed simp

lemma write_pio_lazy:
  assumes "\<not> dr_eager (hw s)" and "dr_phase (hw s) = Writing l n []" and "off + 512 \<le> length buf"
  shows "ata_write_pio_data drive_io buf off s =
    Some (s\<lparr>hw := (hw s)\<lparr>dr_sectors := (dr_sectors (hw s))(l := take 512 (drop off buf)), dr_irq := True,
      dr_phase := (if 1 < n then Writing (l + 1) (n - 1) [] else Idle)\<rparr>\<rparr>)"
proof -
  have "ata_write_pio_data drive_io buf off s = Some (s\<lparr>hw := write_step l n ([] @ buf_words buf off 256) (hw s)\<rparr>)"
    unfolding ata_write_pio_data_def by (rule write_words_lazy) (use assms in auto)
  moreover have "length (buf_words buf off 256) = 256" by (simp add: buf_words_def)
  moreover have "concat (map le16 (buf_words buf off 256)) = take 512 (drop off buf)"
    using buf_words_bytes [of off 256 buf] assms(3) by simp
  ultimately show ?thesis by (simp add: write_step_def)
qed

definition write_at :: "(nat \<Rightarrow> u8 list) \<Rightarrow> nat \<Rightarrow> nat \<Rightarrow> u8 list \<Rightarrow> nat \<Rightarrow> nat \<Rightarrow> u8 list" where
  "write_at S l n buf off = (\<lambda>k. if l \<le> k \<and> k < l + n then take 512 (drop (off + 512 * (k - l)) buf) else S k)"

lemma write_at_Suc:
  "write_at (S(l := take 512 (drop off buf))) (Suc l) n buf (off + 512) = write_at S l (Suc n) buf off"
proof
  fix k
  show "write_at (S(l := take 512 (drop off buf))) (Suc l) n buf (off + 512) k = write_at S l (Suc n) buf off k"
  proof (cases "l < k")
    case True
    then obtain j where "k = Suc (l + j)" using less_imp_Suc_add by blast
    then show ?thesis by (simp add: write_at_def add.assoc)
  next
    case False
    then show ?thesis by (auto simp: write_at_def)
  qed
qed

lemma write_chunk_lazy:
  assumes "\<not> dr_eager (hw s)" and "dr_phase (hw s) = Writing l (Suc n) []" and "\<not> dr_irq (hw s)"
    and "off + 512 * Suc n \<le> length buf"
  shows "\<exists>d. write_chunk drive_io (Suc n) buf off s = Some (s\<lparr>hw := d, ata_irq_fired := True\<rparr>) \<and>
    dr_phase d = Idle \<and> \<not> dr_irq d \<and> \<not> dr_eager d \<and> dr_sectors d = write_at (dr_sectors (hw s)) l (Suc n) buf off"
  using assms
proof (induction n arbitrary: l off s)
  case (Suc n)
  let ?d1 = "(hw s)\<lparr>dr_sectors := (dr_sectors (hw s))(l := take 512 (drop off buf)), dr_irq := True,
      dr_phase := Writing (l + 1) (Suc n) []\<rparr>"
  let ?s2 = "s\<lparr>hw := ?d1\<lparr>dr_irq := False\<rparr>, ata_irq_fired := True\<rparr>"
  have "ata_write_pio_data drive_io buf off (ata_prepare_irq s) = Some ((ata_prepare_irq s)\<lparr>hw := ?d1\<rparr>)"
    using Suc.prems by (simp add: write_pio_lazy ata_prepare_irq_def)
  moreover have "ata_wait_irq drive_io ((ata_prepare_irq s)\<lparr>hw := ?d1\<rparr>) = Some ?s2"
    by (subst wait_irq_line) (simp_all add: ata_prepare_irq_def)
  ultimately have step: "write_chunk drive_io (Suc (Suc n)) buf off s = write_chunk drive_io (Suc n) buf (off + 512) ?s2"
    by simp
  have "\<exists>d. write_chunk drive_io (Suc n) buf (off + 512) ?s2 = Some (?s2\<lparr>hw := d, ata_irq_fired := True\<rparr>) \<and>
    dr_phase d = Idle \<and> \<not> dr_irq d \<and> \<not> dr_eager d \<and> dr_sectors d = write_at (dr_sectors (hw ?s2)) (l + 1) (Suc n) buf (off + 512)"
    by (rule Suc.IH) (use Suc.prems in auto)
  then obtain d where "write_chunk drive_io (Suc n) buf (off + 512) ?s2 = Some (s\<lparr>hw := d, ata_irq_fired := True\<rparr>)"
    "dr_phase d = Idle" "\<not> dr_irq d" "\<not> dr_eager d"
    "dr_sectors d = write_at (dr_sectors (hw s)) l (Suc (Suc n)) buf off"
    using write_at_Suc [of "dr_sectors (hw s)" l off buf "Suc n"] by auto
  with step show ?case by auto
next
  case 0
  let ?d1 = "(hw s)\<lparr>dr_sectors := (dr_sectors (hw s))(l := take 512 (drop off buf)), dr_irq := True, dr_phase := Idle\<rparr>"
  have "ata_write_pio_data drive_io buf off (ata_prepare_irq s) = Some ((ata_prepare_irq s)\<lparr>hw := ?d1\<rparr>)"
    using 0 by (simp add: write_pio_lazy ata_prepare_irq_def)
  moreover have "ata_wait_irq drive_io ((ata_prepare_irq s)\<lparr>hw := ?d1\<rparr>) = Some (s\<lparr>hw := ?d1\<lparr>dr_irq := False\<rparr>, ata_irq_fired := True\<rparr>)"
    by (subst wait_irq_line) (simp_all add: ata_prepare_irq_def)
  ultimately show ?case using 0
    by (intro exI [of _ "?d1\<lparr>dr_irq := False\<rparr>"]) (auto simp: write_at_def fun_eq_iff)
qed

lemma poll_lazy:
  assumes "\<not> dr_eager (hw s)" and "dr_phase (hw s) \<noteq> Idle"
  shows "ata_poll_drq drive_io s = (0, s\<lparr>hw := (hw s)\<lparr>dr_irq := False\<rparr>\<rparr>)"
proof -
  have "poll_drq drive_io (Suc n) s = (0, s\<lparr>hw := (hw s)\<lparr>dr_irq := False\<rparr>\<rparr>)" for n
    using assms by (simp add: drive_inb_def dr_status_def)
  from this [of 29999] show ?thesis by (simp add: ata_poll_drq_def)
qed

lemma write_at_add:
  "write_at (write_at S l m buf off) (l + m) n buf (off + m * 512) = write_at S l (m + n) buf off"
proof
  fix k
  show "write_at (write_at S l m buf off) (l + m) n buf (off + m * 512) k = write_at S l (m + n) buf off k"
  proof (cases "l + m \<le> k")
    case True
    then obtain j where "k = l + m + j" using le_Suc_ex by blast
    then show ?thesis by (simp add: write_at_def algebra_simps)
  next
    case False
    then show ?thesis by (auto simp: write_at_def)
  qed
qed

lemma write_at_lengths:
  "\<forall>k. length (S k) = 512 \<Longrightarrow> off + 512 * n \<le> length buf \<Longrightarrow> length (write_at S l n buf off k) = 512"
proof -
  assume S: "\<forall>k. length (S k) = 512" and le: "off + 512 * n \<le> length buf"
  show ?thesis
  proof (cases "l \<le> k \<and> k < l + n")
    case True
    then have "k - l < n" by linarith
    then have "off + 512 * (k - l) + 512 \<le> length buf" using le by linarith
    with True show ?thesis by (simp add: write_at_def)
  next
    case False
    then show ?thesis using S by (auto simp: write_at_def)
  qed
qed

lemma write_loop_lazy:
  assumes "drive_ok (hw s)" and "unat lba + unat count \<le> 2 ^ 28" and "off + 512 * unat count \<le> length buf"
  shows "\<exists>d f. write_sectors_loop drive_io lba count buf off s = Some (0, s\<lparr>hw := d, ata_irq_fired := f\<rparr>) \<and>
    drive_ok d \<and> dr_sectors d = write_at (dr_sectors (hw s)) (unat lba) (unat count) buf off"
  using assms
proof (induction "unat count" arbitrary: lba count off s rule: less_induct)
  case less
  show ?case
  proof (cases "0 < count")
    case False
    then have "count = 0" by (simp add: word_gt_0)
    then show ?thesis using less.prems
      by (subst write_sectors_loop.simps)
         (auto simp: write_at_def fun_eq_iff intro!: exI [of _ "hw s"] exI [of _ "ata_irq_fired s"])
  next
    case True
    let ?S = "dr_sectors (hw s)" and ?chunk = "if 255 < count then 255 else count"
    note cb = chunk_bounds [OF True]
    have lb: "unat lba < 2 ^ 28" using less.prems(2) cb(1,3) by linarith
    obtain d where d: "ata_wait_ready drive_io 1000 (ata_select_drive drive_io 0 s) = (0, s\<lparr>hw := (hw s)\<lparr>dr_sel := 0xA0\<rparr>\<rparr>)"
      "ata_setup_lba drive_io lba (ucast ?chunk) (s\<lparr>hw := (hw s)\<lparr>dr_sel := 0xA0\<rparr>\<rparr>) = s\<lparr>hw := d\<rparr>"
      "drive_ok d" "dr_lba d = unat lba" "dr_want d = unat ?chunk" "dr_sectors d = ?S"
      by (rule issue_lazy [OF less.prems(1) lb cb(1,2)])
    let ?d1 = "d\<lparr>dr_phase := Writing (unat lba) (unat ?chunk) []\<rparr>"
    have out: "outb drive_io 0x1F7 0x30 (s\<lparr>hw := d\<rparr>) = s\<lparr>hw := ?d1\<rparr>"
      using d(3-5) by (simp add: drive_ok_def) (simp add: drive_outb_def)
    let ?s2 = "s\<lparr>hw := ?d1\<lparr>dr_irq := False\<rparr>\<rparr>"
    have poll: "ata_poll_drq drive_io (s\<lparr>hw := ?d1\<rparr>) = (0, ?s2)" using d(3) by (simp add: poll_lazy drive_ok_def)
    obtain n where n: "unat ?chunk = Suc n" using cb(1) gr0_conv_Suc by blast
    have "\<exists>e. write_chunk drive_io (Suc n) buf off ?s2 = Some (?s2\<lparr>hw := e, ata_irq_fired := True\<rparr>) \<and>
      dr_phase e = Idle \<and> \<not> dr_irq e \<and> \<not> dr_eager e \<and> dr_sectors e = write_at (dr_sectors (hw ?s2)) (unat lba) (Suc n) buf off"
      by (rule write_chunk_lazy) (use d(3) n less.prems(3) cb(3) in \<open>auto simp: drive_ok_def\<close>)
    then obtain e where e: "write_chunk drive_io (unat ?chunk) buf off ?s2 = Some (s\<lparr>hw := e, ata_irq_fired := True\<rparr>)"
      "dr_phase e = Idle" "\<not> dr_irq e" "\<not> dr_eager e" "dr_sectors e = write_at ?S (unat lba) (unat ?chunk) buf off"
      using d(6) n by auto
    have eok: "drive_ok e"
      using e(2-4) less.prems(1,3) cb(3) unfolding drive_ok_def e(5) by (auto intro!: write_at_lengths)
    have step: "write_sectors_loop drive_io lba count buf off s =
      write_sectors_loop drive_io (lba + ?chunk) (count - ?chunk) buf (off + unat ?chunk * 512) (s\<lparr>hw := e, ata_irq_fired := True\<rparr>)"
      using True d(1,2) out poll e(1) by (subst write_sectors_loop.simps) (simp add: Let_def)
    have ul: "unat (lba + ?chunk) = unat lba + unat ?chunk"
      using less.prems(2) cb(3) by (intro unat_plus_no_wrap) simp
    have "\<exists>d f. write_sectors_loop drive_io (lba + ?chunk) (count - ?chunk) buf (off + unat ?chunk * 512) (s\<lparr>hw := e, ata_irq_fired := True\<rparr>) =
        Some (0, (s\<lparr>hw := e, ata_irq_fired := True\<rparr>)\<lparr>hw := d, ata_irq_fired := f\<rparr>) \<and> drive_ok d \<and>
        dr_sectors d = write_at (dr_sectors (hw (s\<lparr>hw := e, ata_irq_fired := True\<rparr>))) (unat (lba + ?chunk)) (unat (count - ?chunk)) buf (off + unat ?chunk * 512)"
    proof (rule less.hyps)
      show "unat (count - ?chunk) < unat count" using cb(1,3,4) by linarith
      show "drive_ok (hw (s\<lparr>hw := e, ata_irq_fired := True\<rparr>))" using eok by simp
      show "unat (lba + ?chunk) + unat (count - ?chunk) \<le> 2 ^ 28" using less.prems(2) cb(3,4) ul by linarith
      show "off + unat ?chunk * 512 + 512 * unat (count - ?chunk) \<le> length buf"
        using less.prems(3) cb(3,4) by linarith
    qed
    then obtain d f where r: "write_sectors_loop drive_io (lba + ?chunk) (count - ?chunk) buf (off + unat ?chunk * 512) (s\<lparr>hw := e, ata_irq_fired := True\<rparr>) =
        Some (0, s\<lparr>hw := d, ata_irq_fired := f\<rparr>)" "drive_ok d"
      "dr_sectors d = write_at (write_at ?S (unat lba) (unat ?chunk) buf off) (unat lba + unat ?chunk) (unat count - unat ?chunk) buf (off + unat ?chunk * 512)"
      using e(5) ul cb(4) by auto
    have "dr_sectors d = write_at ?S (unat lba) (unat ?chunk + (unat count - unat ?chunk)) buf off"
      unfolding r(3) by (rule write_at_add)
    then show ?thesis unfolding step r(1) using r(2) cb(3) by (intro exI [of _ d] exI [of _ f]) simp
  qed
qed

lemma sector_bytes_write_at:
  "off + 512 * n \<le> length buf \<Longrightarrow> sector_bytes (write_at S l n buf off) l n = take (512 * n) (drop off buf)"
proof (induction n arbitrary: S l off)
  case (Suc n)
  have "write_at S l (Suc n) buf off l = take 512 (drop off buf)" by (simp add: write_at_def)
  moreover have "sector_bytes (write_at S l (Suc n) buf off) (Suc l) n = take (512 * n) (drop (off + 512) buf)"
    unfolding write_at_Suc [symmetric] using Suc by simp
  moreover have "take (512 * Suc n) (drop off buf) = take 512 (drop off buf) @ take (512 * n) (drop (off + 512) buf)"
    using take_add [of 512 "512 * n" "drop off buf"] by (simp add: add.commute)
  ultimately show ?case by (simp only: sector_bytes_Suc)
qed (simp add: sector_bytes_def)

lemma write_sectors_ok:
  assumes "drive_ok (hw s)" and "0 < count" and "unat lba + unat count \<le> 2 ^ 28" and "length buf = 512 * unat count"
  shows "\<exists>s'. ata_write_sectors drive_io lba count buf s = Some (0, s') \<and> drive_ok (hw s') \<and>
    dr_sectors (hw s') = write_at (dr_sectors (hw s)) (unat lba) (unat count) buf 0"
proof -
  have "\<exists>d f. write_sectors_loop drive_io lba count buf 0 s = Some (0, s\<lparr>hw := d, ata_irq_fired := f\<rparr>) \<and>
    drive_ok d \<and> dr_sectors d = write_at (dr_sectors (hw s)) (unat lba) (unat count) buf 0"
    by (rule write_loop_lazy) (use assms in auto)
  moreover have "count \<noteq> 0" using assms(2) by auto
  ultimately show ?thesis by (auto simp: ata_write_sectors_def)
qed

text \<open>C3. Writing sectors.  Under the same conditions
  \<open>ata_write_sectors\<close> returns success, the addressed sectors hold the buffer and all other sectors are
  unchanged.\<close>

theorem ata_write_sectors_correct:
  assumes "drive_ok (hw s)" and "0 < count" and "unat lba + unat count \<le> 2 ^ 28" and "length buf = 512 * unat count"
  shows "\<exists>s'. ata_write_sectors drive_io lba count buf s = Some (0, s') \<and> drive_ok (hw s') \<and>
    sector_bytes (dr_sectors (hw s')) (unat lba) (unat count) = buf \<and>
    (\<forall>k. k < unat lba \<or> unat lba + unat count \<le> k \<longrightarrow> dr_sectors (hw s') k = dr_sectors (hw s) k)"
proof -
  obtain s' where s': "ata_write_sectors drive_io lba count buf s = Some (0, s')" "drive_ok (hw s')"
    "dr_sectors (hw s') = write_at (dr_sectors (hw s)) (unat lba) (unat count) buf 0"
    using write_sectors_ok [OF assms] by blast
  have "sector_bytes (dr_sectors (hw s')) (unat lba) (unat count) = buf"
    unfolding s'(3) using sector_bytes_write_at [of 0 "unat count" buf] assms(4) by simp
  moreover have "\<forall>k. k < unat lba \<or> unat lba + unat count \<le> k \<longrightarrow> dr_sectors (hw s') k = dr_sectors (hw s) k"
    unfolding s'(3) by (auto simp: write_at_def)
  ultimately show ?thesis using s'(1,2) by blast
qed

definition blank_drive :: "bool \<Rightarrow> drive ata" where
  "blank_drive eager = \<lparr>hw = \<lparr>dr_sectors = (\<lambda>l. replicate 512 (of_nat l)), dr_count = 0, dr_low = 0, dr_mid = 0, dr_high = 0,
     dr_sel = 0, dr_phase = Idle, dr_irq = False, dr_eager = eager\<rparr>, ata_irq_fired = False\<rparr>"

theorem ata_read_sectors_correct_witness:
  "\<exists>s'. ata_read_sectors drive_io 7 300 (replicate 153600 0) (blank_drive False) =
     Some (0, sector_bytes (\<lambda>l. replicate 512 (of_nat l)) 7 300, s')"
  using ata_read_sectors_correct [of "blank_drive False" 300 7 "replicate 153600 0"]
  by (auto simp: blank_drive_def drive_ok_def)

theorem ata_write_sectors_correct_witness:
  "\<exists>s'. ata_write_sectors drive_io 9 2 (replicate 1024 5) (blank_drive False) = Some (0, s') \<and>
     sector_bytes (dr_sectors (hw s')) 9 2 = replicate 1024 5 \<and> dr_sectors (hw s') 8 = replicate 512 8"
  using ata_write_sectors_correct [of "blank_drive False" 2 9 "replicate 1024 5"]
  by (auto simp: blank_drive_def drive_ok_def)

section \<open>The driver as a storage device\<close>

text \<open>The device structure after a mount has set the block size.\<close>

definition ata_dev :: "u32 \<Rightarrow> drive ata block_device" where
  "ata_dev bs = (ata_block_dev drive_io)\<lparr>bd_info := (bd_info (ata_block_dev drive_io))\<lparr>bd_block_size := bs\<rparr>\<rparr>"

definition ata_view :: "nat \<Rightarrow> drive ata \<Rightarrow> u32 \<Rightarrow> u8 list" where
  "ata_view bs s b = sector_bytes (dr_sectors (hw s)) (unat b * (bs div 512)) (bs div 512)"

definition ata_ready :: "drive ata \<Rightarrow> bool" where
  "ata_ready s \<longleftrightarrow> drive_ok (hw s)"

text \<open>The blocks that 28-bit sector addresses reach.\<close>

definition ata_valid :: "nat \<Rightarrow> u32 \<Rightarrow> bool" where
  "ata_valid bs b \<longleftrightarrow> (unat b + 1) * (bs div 512) \<le> 2 ^ 28"

lemma sector_bytes_cong: "(\<And>k. l \<le> k \<Longrightarrow> k < l + n \<Longrightarrow> S k = T k) \<Longrightarrow> sector_bytes S l n = sector_bytes T l n"
  unfolding sector_bytes_def by (rule arg_cong [where f = concat]) (rule map_cong, auto)

lemma block_lba:
  assumes "k \<in> {1024, 2048, 4096 :: u32}" and "ata_valid (unat k) b"
  shows "unat (b * (k div 512)) = unat b * (unat k div 512)" and "unat (k div 512) = unat k div 512"
    and "unat (b * (k div 512)) + unat (k div 512) \<le> 2 ^ 28" and "0 < k div 512" and "unat k = 512 * unat (k div 512)"
proof -
  show 1: "unat (k div 512) = unat k div 512" by (simp add: unat_div_distrib)
  have v: "unat b * (unat k div 512) + unat k div 512 \<le> 2 ^ 28" using assms(2) by (simp add: ata_valid_def)
  then have "unat b * unat (k div 512) < 2 ^ 32" unfolding 1 by simp
  then show 2: "unat (b * (k div 512)) = unat b * (unat k div 512)"
    unfolding unat_word_ariths(2) by (simp add: 1)
  show "unat (b * (k div 512)) + unat (k div 512) \<le> 2 ^ 28" using v by (simp only: 1 2)
  show "0 < k div 512" "unat k = 512 * unat (k div 512)" using assms(1) by auto
qed

lemma ata_block_storage:
  assumes k: "k \<in> {1024, 2048, 4096 :: u32}"
  shows "block_storage (ata_dev k) (ata_blk_read_block drive_io) (ata_blk_write_block drive_io)
    (ata_view (unat k)) ata_ready (ata_valid (unat k)) (unat k)"
proof
  show "\<exists>ops. bd_ops (ata_dev k) = Some ops \<and> op_read_block ops = Some (ata_blk_read_block drive_io) \<and>
      op_write_block ops = Some (ata_blk_write_block drive_io)"
    by (simp add: ata_dev_def ata_block_dev_def ata_blk_ops_def)
next
  fix d b and buf :: "u8 list"
  assume r: "ata_ready d" and v: "ata_valid (unat k) b" and len: "length buf = unat k"
  note lba = block_lba [OF k v]
  have len': "length buf = 512 * unat (k div 512)" using len lba(5) by simp
  have size: "bd_block_size (bd_info (ata_dev k)) = k" by (simp add: ata_dev_def)
  obtain s' where s': "ata_read_sectors drive_io (b * (k div 512)) (k div 512) buf d =
      Some (0, ata_view (unat k) d b, s')" "drive_ok (hw s')" "dr_sectors (hw s') = dr_sectors (hw d)"
    using read_sectors_ok [OF r [unfolded ata_ready_def] lba(4,3) len']
    unfolding ata_view_def lba(1,2) by blast
  have "ata_view (unat k) s' = ata_view (unat k) d" by (rule ext) (simp add: ata_view_def s'(3))
  with s'(1,2) show "\<exists>d'. ata_blk_read_block drive_io (bd_info (ata_dev k)) b buf d = Some (0, ata_view (unat k) d b, d') \<and>
      ata_ready d' \<and> ata_view (unat k) d' = ata_view (unat k) d"
    by (auto simp: ata_blk_read_block_def size ata_ready_def)
next
  fix d b and buf :: "u8 list"
  assume r: "ata_ready d" and v: "ata_valid (unat k) b" and len: "length buf = unat k"
  note lba = block_lba [OF k v]
  have len': "length buf = 512 * unat (k div 512)" using len lba(5) by simp
  let ?n = "unat k div 512"
  have size: "bd_block_size (bd_info (ata_dev k)) = k" by (simp add: ata_dev_def)
  obtain s' where s': "ata_write_sectors drive_io (b * (k div 512)) (k div 512) buf d = Some (0, s')" "drive_ok (hw s')"
    "dr_sectors (hw s') = write_at (dr_sectors (hw d)) (unat b * ?n) ?n buf 0"
    using write_sectors_ok [OF r [unfolded ata_ready_def] lba(4,3) len'] unfolding lba(1,2) by blast
  have "ata_view (unat k) s' c = (if c = b then buf else ata_view (unat k) d c)" for c
  proof (cases "c = b")
    case True
    have "length buf = 512 * ?n" using len' by (simp only: lba(2))
    with True show ?thesis using sector_bytes_write_at [of 0 ?n buf] by (simp add: ata_view_def s'(3))
  next
    case False
    then have "unat c < unat b \<or> unat b < unat c" by (metis linorder_neqE_nat word_unat_eq_iff)
    then have dis: "unat c * ?n + ?n \<le> unat b * ?n \<or> unat b * ?n + ?n \<le> unat c * ?n"
    proof
      assume "unat c < unat b"
      then have "Suc (unat c) * ?n \<le> unat b * ?n" by (intro mult_le_mono1) simp
      then show ?thesis by simp
    next
      assume "unat b < unat c"
      then have "Suc (unat b) * ?n \<le> unat c * ?n" by (intro mult_le_mono1) simp
      then show ?thesis by simp
    qed
    have "sector_bytes (dr_sectors (hw s')) (unat c * ?n) ?n = sector_bytes (dr_sectors (hw d)) (unat c * ?n) ?n"
      by (rule sector_bytes_cong) (use dis in \<open>auto simp: s'(3) write_at_def\<close>)
    with False show ?thesis by (simp add: ata_view_def)
  qed
  with s'(1,2) show "\<exists>d'. ata_blk_write_block drive_io (bd_info (ata_dev k)) b buf d = Some (0, d') \<and> ata_ready d' \<and>
      (\<forall>c. ata_valid (unat k) c \<longrightarrow> ata_view (unat k) d' c = (if c = b then buf else ata_view (unat k) d c))"
    by (auto simp: ata_blk_write_block_def size ata_ready_def)
next
  fix d b
  assume r: "ata_ready d"
  have "\<forall>l. length (dr_sectors (hw d) l) = 512" using r by (simp add: ata_ready_def drive_ok_def)
  then show "length (ata_view (unat k) d b) = unat k" using k by (auto simp: ata_view_def sector_bytes_length)
qed

interpretation ata_1k: block_storage "ata_dev 1024" "ata_blk_read_block drive_io" "ata_blk_write_block drive_io"
  "ata_view 1024" ata_ready "ata_valid 1024" 1024
  using ata_block_storage [of 1024] by simp

interpretation ata_2k: block_storage "ata_dev 2048" "ata_blk_read_block drive_io" "ata_blk_write_block drive_io"
  "ata_view 2048" ata_ready "ata_valid 2048" 2048
  using ata_block_storage [of 2048] by simp

interpretation ata_4k: block_storage "ata_dev 4096" "ata_blk_read_block drive_io" "ata_blk_write_block drive_io"
  "ata_view 4096" ata_ready "ata_valid 4096" 4096
  using ata_block_storage [of 4096] by simp

section \<open>The interrupt race of multi-sector reads\<close>

text \<open>A halted CPU that no interrupt wakes waits forever.\<close>

lemma wait_irq_forever:
  assumes "\<not> dr_irq (hw s)" and "\<not> ata_irq_fired s"
  shows "ata_wait_irq drive_io s = None"
proof (rule ccontr)
  assume "ata_wait_irq drive_io s \<noteq> None"
  then obtain t where t: "ata_wait_irq drive_io s = Some t" by auto
  let ?P = "\<lambda>io s t. io = drive_io \<longrightarrow> dr_irq (hw s) \<or> ata_irq_fired s"
  have "?P drive_io s t"
    by (rule ata_wait_irq.raw_induct [where P = ?P, OF _ t]) (fastforce split: if_splits)
  with assms show False by simp
qed

lemma inw_eager:
  assumes "dr_eager (hw s)" and "dr_phase (hw s) = Reading l n k" and "\<not> dr_irq (hw s)" and "k + 1 < 256"
  shows "snd (inw drive_io 0x1F0 s) = s\<lparr>hw := (hw s)\<lparr>dr_phase := Reading l n (k + 1)\<rparr>\<rparr>"
  using assms by (simp add: inw_def drive_inw_def read_step_def irq_point_def)

lemma inw_eager_last:
  assumes "dr_eager (hw s)" and "dr_phase (hw s) = Reading l (Suc (Suc n)) 255" and "\<not> dr_irq (hw s)"
  shows "snd (inw drive_io 0x1F0 s) =
    s\<lparr>hw := (hw s)\<lparr>dr_phase := Reading (l + 1) (Suc n) 0\<rparr>, ata_irq_fired := True\<rparr>"
proof -
  have "(hw s)\<lparr>dr_phase := Reading (l + 1) (Suc n) 0, dr_irq := False\<rparr> = (hw s)\<lparr>dr_phase := Reading (l + 1) (Suc n) 0\<rparr>"
    using assms(3) by (cases "hw s") simp
  with assms show ?thesis
    by (simp add: inw_def drive_inw_def read_step_def irq_point_def ata_primary_irq_handler_def drive_inb_def)
qed

lemma read_words_eager:
  assumes "dr_eager (hw s)" and "dr_phase (hw s) = Reading l (Suc (Suc n)) k" and "\<not> dr_irq (hw s)"
    and "k + m = 256" and "0 < m" and "off + 2 * m \<le> length buf"
  shows "\<exists>b. read_words drive_io m buf off s =
    Some (b, s\<lparr>hw := (hw s)\<lparr>dr_phase := Reading (l + 1) (Suc n) 0\<rparr>, ata_irq_fired := True\<rparr>) \<and> length b = length buf"
  using assms
proof (induction m arbitrary: k buf off s)
  case (Suc m)
  let ?w = "fst (inw drive_io 0x1F0 s)"
  obtain b where b: "put16 buf off ?w = Some b" "length b = length buf"
    using put_in(2) [of off buf ?w] Suc.prems(6) by (auto dest: get_put_lengths)
  have step: "read_words drive_io (Suc m) buf off s = read_words drive_io m b (off + 2) (snd (inw drive_io 0x1F0 s))"
    using b by (simp add: case_prod_beta)
  show ?case
  proof (cases m)
    case 0
    with Suc.prems have "k = 255" by simp
    with Suc.prems 0 step b(2) show ?thesis by (simp add: inw_eager_last)
  next
    case (Suc m')
    let ?s1 = "s\<lparr>hw := (hw s)\<lparr>dr_phase := Reading l (Suc (Suc n)) (k + 1)\<rparr>\<rparr>"
    have "snd (inw drive_io 0x1F0 s) = ?s1" using Suc Suc.prems by (intro inw_eager) auto
    moreover have "\<exists>c. read_words drive_io m b (off + 2) ?s1 =
        Some (c, ?s1\<lparr>hw := (hw ?s1)\<lparr>dr_phase := Reading (l + 1) (Suc n) 0\<rparr>, ata_irq_fired := True\<rparr>) \<and> length c = length b"
      by (rule Suc.IH [where k = "k + 1"]) (use Suc Suc.prems b in auto)
    ultimately show ?thesis using step b(2) by auto
  qed
qed simp

text \<open>C22. The interrupt race.  When IRQ 14 is taken as soon as the drive raises
  it, the interrupt for the second sector arrives before \<open>ata_prepare_irq\<close> clears the flag: the flag is
  lost and a read of two or more sectors never returns.  Every block read of an ext2 volume is such a
  read.\<close>

theorem ata_read_lost_irq:
  assumes "dr_eager (hw s)" and "dr_phase (hw s) = Idle" and "\<not> dr_irq (hw s)" and "1 < count" and "count \<le> 255"
    and "unat lba < 2 ^ 28" and "length buf = 512 * unat count"
  shows "ata_read_sectors drive_io lba count buf s = None"
proof -
  have cnt: "2 \<le> unat count" "unat count \<le> 255" "\<not> 255 < count" "0 < count" "count \<noteq> 0"
    using assms(4,5) by (auto simp: word_less_nat_alt word_le_nat_alt)
  let ?s1 = "s\<lparr>hw := (hw s)\<lparr>dr_sel := 0xA0\<rparr>\<rparr>"
  let ?d = "(hw s)\<lparr>dr_count := ucast count, dr_low := ucast (lba AND 0xFF), dr_mid := ucast (drop_bit 8 lba AND 0xFF),
    dr_high := ucast (drop_bit 16 lba AND 0xFF), dr_sel := ucast (0xE0 OR (drop_bit 24 lba AND 0x0F))\<rparr>"
  have ob: "outb drive_io p v t = t\<lparr>hw := drive_outb p v (hw t)\<rparr>" if "\<not> dr_irq (drive_outb p v (hw t))" for p v and t :: "drive ata"
    using that by (simp add: outb_def irq_point_def)
  have sel: "ata_select_drive drive_io 0 s = ?s1"
    using assms(3) by (simp add: ata_select_drive_def io_wait_def ob drive_outb_def)
  have "wait_ready drive_io (Suc n) ?s1 = (0, ?s1)" for n
  proof -
    have "(hw s)\<lparr>dr_sel := 0xA0, dr_irq := False\<rparr> = (hw s)\<lparr>dr_sel := 0xA0\<rparr>" using assms(3) by (cases "hw s") simp
    with assms(1-3) show ?thesis by (simp add: inb_def drive_inb_def irq_point_def dr_status_def)
  qed
  from this [of 999999] have wait: "ata_wait_ready drive_io 1000 ?s1 = (0, ?s1)" by (simp add: ata_wait_ready_def)
  have prog: "ata_setup_lba drive_io lba (ucast count) ?s1 = s\<lparr>hw := ?d\<rparr>"
    using assms(3) by (simp add: ata_setup_lba_def Let_def ob drive_outb_def)
  have c8: "unat (ucast count :: u8) = unat count" using cnt(2) by (simp add: unsigned_ucast_eq take_bit_nat_eq_self)
  then have "dr_want ?d = unat count" using cnt(1) by (auto simp: dr_want_def)
  moreover obtain n where n: "unat count = Suc (Suc n)" using cnt(1) by (metis add_2_eq_Suc le_Suc_ex)
  ultimately have want: "dr_want ?d = Suc (Suc n)" by simp
  let ?t = "s\<lparr>hw := ?d\<lparr>dr_phase := Reading (dr_lba ?d) (Suc (Suc n)) 0\<rparr>, ata_irq_fired := True\<rparr>"
  have cmd: "outb drive_io 0x1F7 0x20 (ata_prepare_irq (s\<lparr>hw := ?d\<rparr>)) = ?t"
  proof -
    have "?d\<lparr>dr_phase := Reading (dr_lba ?d) (Suc (Suc n)) 0, dr_irq := False\<rparr> = ?d\<lparr>dr_phase := Reading (dr_lba ?d) (Suc (Suc n)) 0\<rparr>"
      using assms(3) by (cases "hw s") simp
    then show ?thesis using assms(1,2) want
      by (simp add: outb_def ata_prepare_irq_def drive_outb_def irq_point_def ata_primary_irq_handler_def drive_inb_def)
  qed
  have "ata_wait_irq drive_io ?t = Some ?t" by (subst ata_wait_irq.simps) simp
  moreover have "\<exists>b. ata_read_pio_data drive_io buf 0 ?t =
      Some (b, ?t\<lparr>hw := (hw ?t)\<lparr>dr_phase := Reading (dr_lba ?d + 1) (Suc n) 0\<rparr>, ata_irq_fired := True\<rparr>) \<and> length b = length buf"
    unfolding ata_read_pio_data_def by (rule read_words_eager [where k = 0]) (use assms n in auto)
  then obtain b where "ata_read_pio_data drive_io buf 0 ?t =
      Some (b, s\<lparr>hw := ?d\<lparr>dr_phase := Reading (dr_lba ?d + 1) (Suc n) 0\<rparr>, ata_irq_fired := True\<rparr>)" by auto
  moreover have "ata_wait_irq drive_io (ata_prepare_irq (s\<lparr>hw := ?d\<lparr>dr_phase := Reading (dr_lba ?d + 1) (Suc n) 0\<rparr>, ata_irq_fired := True\<rparr>)) = None"
    by (rule wait_irq_forever) (use assms(3) in \<open>auto simp: ata_prepare_irq_def\<close>)
  ultimately have "read_chunk drive_io (unat count) buf 0 ?t = None" using n by simp
  then have "read_sectors_loop drive_io lba count buf 0 s = None"
    using cnt sel wait prog cmd by (subst read_sectors_loop.simps) (simp add: Let_def)
  then show ?thesis using cnt by (simp add: ata_read_sectors_def)
qed

theorem ata_read_lost_irq_witness:
  "ata_read_sectors drive_io 0 2 (replicate 1024 0) (blank_drive True) = None"
  by (rule ata_read_lost_irq) (simp_all add: blank_drive_def)

end
