(* ===== verification/Ext2_Ata.thy ===== *)
theory Ext2_Ata
  imports Ext2_Read Ext2_Itable Ata_Drive
begin

text \<open>
  The file system on the ATA driver: what was proved for every \<open>block_storage\<close>, stated for the driver
  of \<open>drivers/disk/ata.c\<close> and its drive.
\<close>

text \<open>
  A volume mounted from the drive with block size \<open>k\<close>.  \<open>ata_ready\<close> says that the drive is idle and that its interrupt is
  taken while the processor is halted in \<open>ata_wait_irq\<close>, the condition under which the driver is correct; with prompt
  interrupts a read of more than one sector does not return (theory \<open>Ata_Drive\<close>).  The heap may fail at any call.
\<close>

definition mounted :: "u32 \<Rightarrow> drive ata ext2 \<Rightarrow> bool" where
  "mounted k s \<longleftrightarrow> k \<in> {1024, 2048, 4096} \<and> fs_dev s = ata_dev k \<and> fs_block_size s = k \<and> ata_ready (disk s)"

lemma mounted_vol: "mounted k s \<Longrightarrow> vol_ok (ata_dev k) ata_ready (unat k) s"
  by (auto simp: mounted_def vol_ok_def)

lemma mounted_storage: "mounted k s \<Longrightarrow> k \<in> {1024, 2048, 4096}"
  by (simp add: mounted_def)

text \<open>A volume for the examples: an empty superblock and group, block size \<open>k\<close>, and a heap with the answers \<open>h\<close>.\<close>

definition example_volume :: "u32 \<Rightarrow> (nat \<Rightarrow> (nat \<Rightarrow> u8) option) \<Rightarrow> drive ata \<Rightarrow> drive ata ext2" where
  "example_volume k h d = \<lparr>disk = d, heap_answers = h, heap_calls = 0,
     fs_sb = dec_superblock (replicate 1024 0), fs_group_desc = [], fs_dev = ata_dev k, fs_groups_count = 0,
     fs_block_size = k, fs_inodes_per_block = 8, fs_itable_blocks = 0\<rparr>"

lemma example_volume_ok:
  "k \<in> {1024, 2048, 4096} \<Longrightarrow> mounted k (example_volume k h (blank_drive False))"
  by (simp add: mounted_def example_volume_def ata_ready_def blank_drive_def drive_ok_def)

text \<open>C4. \<open>ext2_resolve_block_num\<close> against the reference block map, on a drive whose interrupt is
  taken while the processor is halted.  For every logical block that 15 pointers with up to three levels of indirection
  can address it returns, leaves the disk as it was, and gives the entry of the tree of pointer blocks, 0 for a hole at
  any level.  The one exception is a failing \<open>kmalloc\<close>: when the block lies behind a pointer block and there is no
  buffer to read it into, the result is 0 as well, so that the caller takes the block for a hole.  Direct blocks and
  trees with an empty root need no buffer.\<close>

theorem ext2_resolve_equiv:
  assumes "mounted k s" "length (i_block di) = 15"
    "\<forall>c \<in> set (map_path (ata_view (unat k) (disk s)) (unat k div 4) di (unat l)). ata_valid (unat k) c"
    "unat l < 12 + unat k div 4 + (unat k div 4) * (unat k div 4) + (unat k div 4) * (unat k div 4) * (unat k div 4)"
  shows "\<exists>s'. ext2_resolve_block_num di l (fs_block_size s) s =
      Some (if map_path (ata_view (unat k) (disk s)) (unat k div 4) di (unat l) \<noteq> [] \<and> heap_answers s (heap_calls s) = None then 0
        else block_map (ata_view (unat k) (disk s)) (unat k div 4) di (unat l), s') \<and>
    ata_view (unat k) (disk s') = ata_view (unat k) (disk s)"
proof -
  obtain s' where "ext2_resolve_block_num di l (fs_block_size s) s =
      Some (resolved s (ata_view (unat k) (disk s)) (unat k div 4) di (unat l), s')"
    and q: "quiet (ata_view (unat k)) ata_ready s s'"
    by (rule block_storage.resolve_ok [OF ata_block_storage [OF mounted_storage [OF assms(1)]] mounted_vol [OF assms(1)] assms(2-4)])
  with quiet_fields(6) [OF q] show ?thesis by (auto simp: resolved_def no_buffer_def)
qed

text \<open>Logical block 12 through the singly indirect block 2, on a drive whose sector \<open>l\<close> is filled with the
  byte \<open>l\<close>, with and without a buffer.\<close>

theorem ext2_resolve_equiv_witness:
  "(\<exists>s'. ext2_resolve_block_num (zero_inode\<lparr>i_block := (replicate 15 0)[12 := 2]\<rparr>) 12 1024
      (example_volume 1024 (\<lambda>_. Some (\<lambda>_. 0)) (blank_drive False)) = Some (0x04040404, s')) \<and>
   (\<exists>s'. ext2_resolve_block_num (zero_inode\<lparr>i_block := (replicate 15 0)[12 := 2]\<rparr>) 12 1024
      (example_volume 1024 (\<lambda>_. None) (blank_drive False)) = Some (0, s'))"
proof -
  let ?di = "zero_inode\<lparr>i_block := (replicate 15 0)[12 := 2]\<rparr>" and ?s = "\<lambda>h. example_volume 1024 h (blank_drive False)"
  have ok: "mounted 1024 (?s h)" for h by (rule example_volume_ok) simp
  have place: "map_place 256 12 = (1, 12, 0)" by (simp add: map_place_def)
  have path: "map_path V 256 ?di 12 = [2]" for V
    unfolding map_path_def place by simp
  have v: "ata_valid 1024 2" by (simp add: ata_valid_def)
  have "sector_bytes (dr_sectors (hw (disk (?s h)))) 4 2 = replicate 512 4 @ replicate 512 5" for h
    by (simp add: example_volume_def blank_drive_def sector_bytes_def upt_rec)
  then have V: "block_map (ata_view 1024 (disk (?s h))) 256 ?di 12 = 0x04040404" for h
    unfolding block_map_def place by (simp add: ptr_at_def ata_view_def at32_def dec32_def of_le32_def)
  have f: "fs_block_size (?s h) = 1024" "heap_answers (?s h) = h" for h by (simp_all add: example_volume_def)
  have r: "\<exists>s'. ext2_resolve_block_num ?di 12 1024 (?s h) = Some (if h (heap_calls (?s h)) = None then 0 else 0x04040404, s')" for h
    using ext2_resolve_equiv [OF ok [of h], of ?di 12] by (cases "h (heap_calls (?s h)) = None") (auto simp: path v V f)
  show ?thesis using r [of "\<lambda>_. Some (\<lambda>_. 0)"] r [of "\<lambda>_. None"] by simp
qed

section \<open>The inode table\<close>


text \<open>One group of 16 inodes of 128 bytes, in the two blocks from 5 on.\<close>

definition itable_volume :: "drive ata ext2" where
  "itable_volume = (example_volume 1024 (\<lambda>_. Some (\<lambda>_. 0)) (blank_drive False))
     \<lparr>fs_sb := (dec_superblock (replicate 1024 0))\<lparr>s_inodes_per_group := 16, s_rev_level := 0\<rparr>,
      fs_group_desc := [(dec_group_desc (replicate 32 0))\<lparr>bg_inode_table := 5\<rparr>]\<rparr>"



theorem ext2_get_inode_block_equiv_witness:
  "ext2_get_inode_block 3 itable_volume = map_option fst (inode_slot 3 itable_volume)"
  by (rule ext2_get_inode_block_equiv [where q = 8])
    (simp_all add: itable_volume_def example_volume_def inode_size_def)

section \<open>Reading a file\<close>

text \<open>C5. \<open>ext2_read\<close> of a file below 2 GB, on a drive whose interrupt is taken while the processor
  is halted, returns and leaves the disk and the rest of the buffer as they were.  With nothing to read it returns 0.  When
  \<open>kmalloc\<close> gives it no block buffer it returns \<open>-1\<close>.  Otherwise it returns the number of bytes asked for that the file has,
  and the bytes are those of the file from \<open>offset\<close> on, zeros for unmapped blocks, but also zeros for every block behind a
  pointer block for which \<open>kmalloc\<close> failed while the block was looked up: exactly the blocks of \<open>lost\<close>.  When no call
  of \<open>kmalloc\<close> fails the result is the contents of the file.\<close>

theorem ext2_read_correct:
  assumes "mounted k s"
    "mapped (ata_valid (unat k)) (ata_view (unat k) (disk s)) (unat k) (v_disk_inode v) (unat (v_size v))"
    "unat (v_size v) < 2 ^ 31" "unat offset + unat count < 2 ^ 32" "unat count \<le> length out"
    "n = min (unat count) (unat (v_size v) - unat offset)"
    "bytes = lossy_bytes (lost (ata_view (unat k) (disk s)) (unat k div 4) (v_disk_inode v) (heap_answers s) (Suc (heap_calls s)) (unat offset div unat k))
       (ata_view (unat k) (disk s)) (unat k) (v_disk_inode v) (unat offset) n"
  shows "\<exists>s'. ext2_read v out count offset s =
      Some (if 0 < n \<and> heap_answers s (heap_calls s) = None then (- 1, out, s') else (int n, bytes @ drop n out, s')) \<and>
    ata_view (unat k) (disk s') = ata_view (unat k) (disk s) \<and>
    ((\<forall>c. heap_answers s c \<noteq> None) \<longrightarrow> bytes = file_bytes (ata_view (unat k) (disk s)) (unat k) (v_disk_inode v) (unat offset) n)"
proof -
  have "\<forall>c. heap_answers s c \<noteq> None \<Longrightarrow> bytes = file_bytes (ata_view (unat k) (disk s)) (unat k) (v_disk_inode v) (unat offset) n"
    unfolding assms(7) by (rule lossy_none) (simp add: lost_def)
  then show ?thesis
    using block_storage.read_ok [OF ata_block_storage [OF mounted_storage [OF assms(1)]] mounted_vol [OF assms(1)] assms(2-6)]
    unfolding assms(7) no_buffer_def by (blast dest: quiet_fields(6))
qed

text \<open>A file of 5 bytes in block 3, read from position 2 with room for 10 bytes.\<close>

theorem ext2_read_correct_witness:
  "\<exists>s'. ext2_read ((inode_new 1024 12)\<lparr>v_size := 5, v_disk_inode := zero_inode\<lparr>i_block := (replicate 15 0)[0 := 3]\<rparr>\<rparr>)
     (replicate 10 9) 10 2 (example_volume 1024 (\<lambda>_. Some (\<lambda>_. 0)) (blank_drive False)) = Some (3, [6, 6, 6, 9, 9, 9, 9, 9, 9, 9], s')"
proof -
  let ?di = "zero_inode\<lparr>i_block := (replicate 15 0)[0 := 3]\<rparr>" and ?s = "example_volume 1024 (\<lambda>_. Some (\<lambda>_. 0)) (blank_drive False)"
  let ?v = "(inode_new 1024 12)\<lparr>v_size := 5, v_disk_inode := ?di\<rparr>"
  let ?V = "ata_view (unat (1024 :: u32)) (disk ?s)"
  have ok: "mounted 1024 ?s" by (rule example_volume_ok) simp
  have place: "map_place n 0 = (0, 0, 0)" for n by (simp add: map_place_def)
  have bm: "block_map ?V 256 ?di 0 = 3" "map_path ?V 256 ?di 0 = []" by (simp_all add: block_map_def map_path_def place)
  have m: "mapped (ata_valid (unat (1024 :: u32))) ?V (unat (1024 :: u32)) (v_disk_inode ?v) (unat (v_size ?v))"
  proof -
    have "l * 1024 < 5 \<longleftrightarrow> l = 0" for l :: nat by (cases l) auto
    then show ?thesis using bm by (auto simp: mapped_def ata_valid_def)
  qed
  have "?V 3 = replicate 512 6 @ replicate 512 7"
    by (simp add: ata_view_def example_volume_def blank_drive_def sector_bytes_def upt_rec)
  then have fb: "file_bytes ?V (unat (1024 :: u32)) (v_disk_inode ?v) (unat (2 :: u32)) 3 = [6, 6, 6]"
    using bm by (simp add: file_bytes_def file_byte_def file_block_def upt_rec nth_append)
  have n: "3 = min (unat (10 :: u32)) (unat (v_size ?v) - unat (2 :: u32))" by simp
  have d: "drop 3 (replicate 10 9) = ([9, 9, 9, 9, 9, 9, 9] :: u8 list)" by code_simp
  have h: "\<forall>c. heap_answers ?s c \<noteq> None" by (simp add: example_volume_def)
  define bytes where "bytes = lossy_bytes (lost ?V (unat (1024 :: u32) div 4) (v_disk_inode ?v) (heap_answers ?s) (Suc (heap_calls ?s)) (unat (2 :: u32) div unat (1024 :: u32)))
     ?V (unat (1024 :: u32)) (v_disk_inode ?v) (unat (2 :: u32)) 3"
  have "\<exists>s'. ext2_read ?v (replicate 10 9) 10 2 ?s = Some (int 3, bytes @ drop 3 (replicate 10 9), s') \<and>
      bytes = file_bytes ?V (unat (1024 :: u32)) (v_disk_inode ?v) (unat (2 :: u32)) 3"
    using ext2_read_correct [OF ok m _ _ _ n bytes_def, of "replicate 10 9"] h by auto
  then show ?thesis unfolding fb d by auto
qed

end
