(* ===== verification/Vfs.thy ===== *)
theory Vfs
  imports Ext2_Ops
begin

text \<open>
  The virtual file system (\<open>fs/vfs/\<close>): reference-counted inodes and dentries, superblocks, registered
  filesystem types, mounts, path lookup and open files, on top of the ext2 operations.

  Objects the kernel reaches through pointers live in stores indexed by an address; an access to an
  address that is not in its store is a use after free, and the model returns \<open>None\<close>.  A NULL pointer is
  \<open>None\<close> of type \<open>nat option\<close>.
\<close>

section \<open>Objects\<close>

text \<open>\<open>file_ops_t\<close>: each entry may be NULL.\<close>

record 'd file_ops =
  f_lookup :: "(inode \<Rightarrow> u8 list \<Rightarrow> 'd ext2 \<Rightarrow> (inode option \<times> 'd ext2) option) option"
  f_mkdir :: "(inode \<Rightarrow> u8 list \<Rightarrow> u32 \<Rightarrow> 'd ext2 \<Rightarrow> (int \<times> inode \<times> 'd ext2) option) option"
  f_rmdir :: "(inode \<Rightarrow> u8 list \<Rightarrow> 'd ext2 \<Rightarrow> (int \<times> inode \<times> 'd ext2) option) option"
  f_create :: "(inode \<Rightarrow> u8 list \<Rightarrow> u32 \<Rightarrow> 'd ext2 \<Rightarrow> (int \<times> inode \<times> 'd ext2) option) option"
  f_unlink :: "(inode \<Rightarrow> u8 list \<Rightarrow> 'd ext2 \<Rightarrow> (int \<times> 'd ext2) option) option"
  f_read :: "(inode \<Rightarrow> u8 list \<Rightarrow> u32 \<Rightarrow> u32 \<Rightarrow> 'd ext2 \<Rightarrow> (int \<times> u8 list \<times> 'd ext2) option) option"
  f_write :: "(inode \<Rightarrow> u8 list \<Rightarrow> u32 \<Rightarrow> u32 \<Rightarrow> 'd ext2 \<Rightarrow> (int \<times> inode \<times> 'd ext2) option) option"
  f_stat :: "(inode \<Rightarrow> int \<times> fs_stat) option"
  f_chmod :: "(inode \<Rightarrow> u32 \<Rightarrow> 'd ext2 \<Rightarrow> (int \<times> inode \<times> 'd ext2) option) option"
  f_release :: "(inode \<Rightarrow> 'd \<Rightarrow> 'd option) option"

definition ext2_release :: "inode \<Rightarrow> 'd \<Rightarrow> 'd option" where
  "ext2_release v d = Some d"

definition ext2_file_ops :: "'d file_ops" where
  "ext2_file_ops = \<lparr>f_lookup = Some ext2_lookup, f_mkdir = Some ext2_mkdir, f_rmdir = Some ext2_rmdir,
     f_create = Some ext2_create, f_unlink = Some ext2_unlink, f_read = Some ext2_read, f_write = Some ext2_write,
     f_stat = Some ext2_stat, f_chmod = Some ext2_chmod, f_release = Some ext2_release\<rparr>"

text \<open>An inode in memory: its contents, its superblock and its operations.\<close>

record 'd vinode =
  o_inode :: inode
  o_sb :: nat
  o_f_ops :: "'d file_ops option"

text \<open>A mounted superblock: the VFS part, the address of the root inode, and the \<open>fs_data\<close> of the volume.
  The driver and heap fields of \<open>x_fs\<close> are overwritten by the current ones at every call.\<close>

record 'd vsuper =
  x_sb :: superblock
  x_root :: "nat option"
  x_fs :: "'d ext2"

record dentry =
  d_name :: "u8 list"
  d_name_len :: u32
  d_inode :: "nat option"
  d_ref_count :: u32

record file_t =
  file_inode :: "nat option"
  file_flags :: u32
  file_offset :: u32
  file_ref_count :: u32

record mount_t =
  m_dev :: u32
  m_type :: "u8 list"
  m_flags :: u32
  m_sb :: "nat option"

record 'd filesystem_type =
  ft_addr :: nat
  ft_name :: "u8 list"
  ft_mount :: "'d ext2 \<Rightarrow> (superblock option \<times> 'd ext2) option"

text \<open>The state: the driver, the heap seen through its answers, the stores, the mount list with the root
  mount, and the list of filesystem types.  Addresses from \<open>w_next\<close> on are unused.\<close>

record 'd vfs =
  w_disk :: 'd
  w_heap :: "nat \<Rightarrow> (nat \<Rightarrow> u8) option"
  w_calls :: nat
  w_next :: nat
  w_inodes :: "nat \<rightharpoonup> 'd vinode"
  w_dentries :: "nat \<rightharpoonup> dentry"
  w_supers :: "nat \<rightharpoonup> 'd vsuper"
  w_mounts :: "nat \<rightharpoonup> mount_t"
  mount_list :: "nat list"
  root_mount :: "nat option"
  filesystem_list :: "'d filesystem_type list"

text \<open>\<open>kmalloc\<close>: whether the call succeeds.\<close>

definition w_kmalloc :: "'d vfs \<Rightarrow> bool \<times> 'd vfs" where
  "w_kmalloc w = (w_heap w (w_calls w) \<noteq> None, w\<lparr>w_calls := Suc (w_calls w)\<rparr>)"

text \<open>Run an ext2 operation on the volume of the superblock at \<open>p\<close>.\<close>

definition on_super :: "nat \<Rightarrow> ('d ext2 \<Rightarrow> ('r \<times> 'd ext2) option) \<Rightarrow> 'd vfs \<Rightarrow> ('r \<times> 'd vfs) option" where
  "on_super p f w = do {
     x \<leftarrow> w_supers w p;
     (r, s) \<leftarrow> f ((x_fs x)\<lparr>disk := w_disk w, heap_answers := w_heap w, heap_calls := w_calls w\<rparr>);
     Some (r, w\<lparr>w_disk := disk s, w_calls := heap_calls s, w_supers := (w_supers w)(p \<mapsto> x\<lparr>x_fs := s\<rparr>)\<rparr>) }"

text \<open>Run an operation that may update the inode at \<open>p\<close>.\<close>

definition on_inode :: "nat \<Rightarrow> (inode \<Rightarrow> 'd ext2 \<Rightarrow> ('r \<times> inode \<times> 'd ext2) option) \<Rightarrow> 'd vfs \<Rightarrow> ('r \<times> 'd vfs) option" where
  "on_inode p f w = do {
     v \<leftarrow> w_inodes w p;
     ((r, i), w) \<leftarrow> on_super (o_sb v) (\<lambda>s. do { (r, i, s) \<leftarrow> f (o_inode v) s; Some ((r, i), s) }) w;
     Some (r, w\<lparr>w_inodes := (w_inodes w)(p \<mapsto> v\<lparr>o_inode := i\<rparr>)\<rparr>) }"

text \<open>The inode value an operation of a volume returns becomes an object; its operations are
  \<open>ext2_file_ops\<close>, as \<open>ext2_read_inode\<close> sets them.\<close>

definition place_inode :: "nat \<Rightarrow> inode \<Rightarrow> 'd vfs \<Rightarrow> nat \<times> 'd vfs" where
  "place_inode sb i w = (w_next w, w\<lparr>w_next := Suc (w_next w),
     w_inodes := (w_inodes w)(w_next w \<mapsto> \<lparr>o_inode = i, o_sb = sb, o_f_ops = Some ext2_file_ops\<rparr>)\<rparr>)"

section \<open>Reference counts (inode.c)\<close>

definition inode_get :: "nat option \<Rightarrow> 'd vfs \<Rightarrow> 'd vfs option" where
  "inode_get p w = (case p of None \<Rightarrow> Some w
     | Some p \<Rightarrow> do {
         v \<leftarrow> w_inodes w p;
         Some (w\<lparr>w_inodes := (w_inodes w)(p \<mapsto> v\<lparr>o_inode := (o_inode v)\<lparr>v_ref_count := v_ref_count (o_inode v) + 1\<rparr>\<rparr>)\<rparr>) })"

definition inode_free :: "nat option \<Rightarrow> 'd vfs \<Rightarrow> 'd vfs option" where
  "inode_free p w = (case p of None \<Rightarrow> Some w
     | Some p \<Rightarrow> do {
         v \<leftarrow> w_inodes w p;
         d \<leftarrow> (case o_f_ops v of None \<Rightarrow> Some (w_disk w)
           | Some ops \<Rightarrow> (case f_release ops of None \<Rightarrow> Some (w_disk w) | Some rel \<Rightarrow> rel (o_inode v) (w_disk w)));
         Some (w\<lparr>w_disk := d, w_inodes := (w_inodes w)(p := None)\<rparr>) })"

definition inode_put :: "nat option \<Rightarrow> 'd vfs \<Rightarrow> 'd vfs option" where
  "inode_put p w = (case p of None \<Rightarrow> Some w
     | Some q \<Rightarrow> do {
         v \<leftarrow> w_inodes w q;
         let i = (o_inode v)\<lparr>v_ref_count := v_ref_count (o_inode v) - 1\<rparr>;
             w = w\<lparr>w_inodes := (w_inodes w)(q \<mapsto> v\<lparr>o_inode := i\<rparr>)\<rparr> in
         if v_ref_count i = 0 then inode_free p w else Some w })"

section \<open>Superblocks (superblock.c)\<close>

text \<open>\<open>put_superblock\<close> and the \<open>kfree\<close> calls release the memory of the volume: the object leaves its store.\<close>

definition superblock_free :: "nat option \<Rightarrow> 'd vfs \<Rightarrow> 'd vfs option" where
  "superblock_free p w = (case p of None \<Rightarrow> Some w
     | Some q \<Rightarrow> do {
         x \<leftarrow> w_supers w q;
         w \<leftarrow> inode_put (x_root x) w;
         Some (w\<lparr>w_supers := (w_supers w)(q := None)\<rparr>) })"

section \<open>Dentries and path lookup (dentry.c)\<close>

definition dentry_new :: "u8 list \<Rightarrow> u32 \<Rightarrow> nat option \<Rightarrow> 'd vfs \<Rightarrow> (nat option \<times> 'd vfs) option" where
  "dentry_new name name_len inode w =
     (let (ok, w) = w_kmalloc w in
      if \<not> ok then Some (None, w)
      else let (ok, w) = w_kmalloc w in
      if \<not> ok then Some (None, w)
      else if length name < unat name_len then None
      else let p = w_next w;
               w = w\<lparr>w_next := Suc p, w_dentries := (w_dentries w)(p \<mapsto>
                 \<lparr>d_name = take (unat name_len) name, d_name_len = name_len, d_inode = inode, d_ref_count = 1\<rparr>)\<rparr> in do {
        w \<leftarrow> inode_get inode w;
        Some (Some p, w) })"

definition dentry_get :: "nat option \<Rightarrow> 'd vfs \<Rightarrow> 'd vfs option" where
  "dentry_get p w = (case p of None \<Rightarrow> Some w
     | Some p \<Rightarrow> do {
         d \<leftarrow> w_dentries w p;
         Some (w\<lparr>w_dentries := (w_dentries w)(p \<mapsto> d\<lparr>d_ref_count := d_ref_count d + 1\<rparr>)\<rparr>) })"

definition dentry_free :: "nat option \<Rightarrow> 'd vfs \<Rightarrow> 'd vfs option" where
  "dentry_free p w = (case p of None \<Rightarrow> Some w
     | Some p \<Rightarrow> do {
         d \<leftarrow> w_dentries w p;
         w \<leftarrow> inode_put (d_inode d) w;
         Some (w\<lparr>w_dentries := (w_dentries w)(p := None)\<rparr>) })"

definition dentry_put :: "nat option \<Rightarrow> 'd vfs \<Rightarrow> 'd vfs option" where
  "dentry_put p w = (case p of None \<Rightarrow> Some w
     | Some q \<Rightarrow> do {
         d \<leftarrow> w_dentries w q;
         let d = d\<lparr>d_ref_count := d_ref_count d - 1\<rparr>; w = w\<lparr>w_dentries := (w_dentries w)(q \<mapsto> d)\<rparr> in
         if d_ref_count d = 0 then dentry_free p w else Some w })"

text \<open>A path is the characters of the C string.  One component: up to 255 characters before the next
  slash.\<close>

abbreviation (input) SLASH :: u8 where "SLASH \<equiv> 0x2F"

definition skip_slashes :: "u8 list \<Rightarrow> u8 list" where
  "skip_slashes path = dropWhile (\<lambda>c. c = SLASH) path"

definition component :: "u8 list \<Rightarrow> u8 list" where
  "component path = takeWhile (\<lambda>c. c \<noteq> SLASH) (take 255 path)"

lemma skip_slashes_hd: "skip_slashes path = c # cs \<Longrightarrow> c \<noteq> SLASH"
  by (simp add: skip_slashes_def dropWhile_eq_Cons_conv)

lemma component_rest:
  assumes "skip_slashes path \<noteq> []"
  shows "length (drop (length (component (skip_slashes path))) (skip_slashes path)) < length path"
proof -
  obtain c cs where p: "skip_slashes path = c # cs" using assms by (cases "skip_slashes path") auto
  have "component (c # cs) \<noteq> []" using skip_slashes_hd [OF p] by (simp add: component_def)
  moreover have "length (skip_slashes path) \<le> length path" by (simp add: skip_slashes_def length_dropWhile_le)
  ultimately show ?thesis using p by (cases "component (c # cs)") auto
qed

text \<open>\<open>lookup\<close> of the inode at \<open>cur\<close>; the found inode becomes an object.\<close>

definition call_lookup ::
  "(inode \<Rightarrow> u8 list \<Rightarrow> 'd ext2 \<Rightarrow> (inode option \<times> 'd ext2) option) \<Rightarrow> nat \<Rightarrow> u8 list \<Rightarrow> 'd vfs \<Rightarrow> (nat option \<times> 'd vfs) option" where
  "call_lookup lk cur name w = do {
     v \<leftarrow> w_inodes w cur;
     (r, w) \<leftarrow> on_super (o_sb v) (lk (o_inode v) name) w;
     Some (case r of None \<Rightarrow> (None, w)
       | Some i \<Rightarrow> let (q, w) = place_inode (o_sb v) i w in (Some q, w)) }"

function walk_path :: "nat \<Rightarrow> u8 list \<Rightarrow> 'd vfs \<Rightarrow> (nat option \<times> 'd vfs) option" where
  "walk_path cur path w =
     (let path' = skip_slashes path in
      if path' = [] then Some (Some cur, w)
      else do {
        v \<leftarrow> w_inodes w cur;
        case Option.bind (o_f_ops v) f_lookup of
          None \<Rightarrow> do { w \<leftarrow> inode_put (Some cur) w; Some (None, w) }
        | Some lk \<Rightarrow> do {
            (nxt, w) \<leftarrow> call_lookup lk cur (component path') w;
            w \<leftarrow> inode_put (Some cur) w;
            case nxt of None \<Rightarrow> Some (None, w)
            | Some q \<Rightarrow> walk_path q (drop (length (component path')) path') w } })"
  by pat_completeness auto
termination
  by (relation "measure (\<lambda>(_, path, _). length path)") (auto dest!: component_rest)

declare walk_path.simps [simp del]

definition path_lookup_relative :: "nat option \<Rightarrow> u8 list \<Rightarrow> 'd vfs \<Rightarrow> (nat option \<times> 'd vfs) option" where
  "path_lookup_relative start path w = (case start of None \<Rightarrow> Some (None, w)
     | Some p \<Rightarrow> do {
         w \<leftarrow> inode_get start w;
         walk_path p path w })"

definition get_root_mount :: "'d vfs \<Rightarrow> nat option" where
  "get_root_mount w = root_mount w"

text \<open>\<open>rmnt->sb->root\<close>, \<open>None\<close> for a NULL on the way; the outer \<open>None\<close> is a dangling pointer.\<close>

definition root_inode :: "'d vfs \<Rightarrow> nat option option" where
  "root_inode w = (case get_root_mount w of None \<Rightarrow> Some None
     | Some p \<Rightarrow> do {
         m \<leftarrow> w_mounts w p;
         case m_sb m of None \<Rightarrow> Some None
         | Some q \<Rightarrow> do { x \<leftarrow> w_supers w q; Some (x_root x) } })"

definition path_lookup :: "u8 list \<Rightarrow> 'd vfs \<Rightarrow> (nat option \<times> 'd vfs) option" where
  "path_lookup path w =
     (if path = [] \<or> hd path \<noteq> SLASH then Some (None, w)
      else do {
        root \<leftarrow> root_inode w;
        case root of None \<Rightarrow> Some (None, w)
        | Some r \<Rightarrow>
            let path = skip_slashes (tl path) in
            if path = [] then do { w \<leftarrow> inode_get root w; Some (root, w) }
            else path_lookup_relative root path w })"

section \<open>Open files (file.c)\<close>

abbreviation (input) FILE_FLAG_READ :: u32 where "FILE_FLAG_READ \<equiv> 1"
abbreviation (input) FILE_FLAG_WRITE :: u32 where "FILE_FLAG_WRITE \<equiv> 2"
abbreviation (input) FILE_FLAG_APPEND :: u32 where "FILE_FLAG_APPEND \<equiv> 4"

definition file_open :: "u8 list \<Rightarrow> u32 \<Rightarrow> 'd vfs \<Rightarrow> (file_t option \<times> 'd vfs) option" where
  "file_open path flags w = do {
     (inode, w) \<leftarrow> path_lookup path w;
     if inode = None then Some (None, w)
     else let (ok, w) = w_kmalloc w in
     if \<not> ok then do { w \<leftarrow> inode_put inode w; Some (None, w) }
     else Some (Some \<lparr>file_inode = inode, file_flags = flags, file_offset = 0, file_ref_count = 1\<rparr>, w) }"

definition file_close :: "file_t option \<Rightarrow> 'd vfs \<Rightarrow> (int \<times> 'd vfs) option" where
  "file_close file w = (case file of None \<Rightarrow> Some (- 1, w)
     | Some f \<Rightarrow> do { w \<leftarrow> inode_put (file_inode f) w; Some (0, w) })"

definition file_read :: "file_t \<Rightarrow> u8 list \<Rightarrow> u32 \<Rightarrow> 'd vfs \<Rightarrow> (int \<times> u8 list \<times> file_t \<times> 'd vfs) option" where
  "file_read f buf count w = (case file_inode f of None \<Rightarrow> Some (- 1, buf, f, w)
     | Some p \<Rightarrow> do {
         v \<leftarrow> w_inodes w p;
         case Option.bind (o_f_ops v) f_read of None \<Rightarrow> Some (- 1, buf, f, w)
         | Some rd \<Rightarrow> do {
             ((ret, buf), w) \<leftarrow> on_inode p (\<lambda>i s. do {
               (ret, buf, s) \<leftarrow> rd i buf count (file_offset f) s; Some ((ret, buf), i, s) }) w;
             Some (ret, buf, if 0 < ret then f\<lparr>file_offset := file_offset f + of_int ret\<rparr> else f, w) } })"

definition file_write :: "file_t \<Rightarrow> u8 list \<Rightarrow> u32 \<Rightarrow> 'd vfs \<Rightarrow> (int \<times> file_t \<times> 'd vfs) option" where
  "file_write f buf count w = (case file_inode f of None \<Rightarrow> Some (- 1, f, w)
     | Some p \<Rightarrow> do {
         v \<leftarrow> w_inodes w p;
         let f = (if file_flags f AND FILE_FLAG_APPEND \<noteq> 0 then f\<lparr>file_offset := v_size (o_inode v)\<rparr> else f) in
         case Option.bind (o_f_ops v) f_write of None \<Rightarrow> Some (- 1, f, w)
         | Some wr \<Rightarrow> do {
             (ret, w) \<leftarrow> on_inode p (\<lambda>i s. wr i buf count (file_offset f) s) w;
             Some (ret, if 0 < ret then f\<lparr>file_offset := file_offset f + of_int ret\<rparr> else f, w) } })"

definition file_seek :: "file_t \<Rightarrow> u32 \<Rightarrow> int \<times> file_t" where
  "file_seek f offset = (sint offset, f\<lparr>file_offset := offset\<rparr>)"

definition file_stat :: "file_t \<Rightarrow> 'd vfs \<Rightarrow> (int \<times> fs_stat option) option" where
  "file_stat f w = (case file_inode f of None \<Rightarrow> Some (- 1, None)
     | Some p \<Rightarrow> do {
         v \<leftarrow> w_inodes w p;
         case Option.bind (o_f_ops v) f_stat of None \<Rightarrow> Some (- 1, None)
         | Some st \<Rightarrow> let (r, x) = st (o_inode v) in Some (r, Some x) })"

section \<open>Filesystem types (filesystem.c)\<close>

text \<open>Names are equal when \<open>strcmp\<close> returns 0; a list element is a pointer, compared by address.\<close>

definition register_filesystem :: "'d filesystem_type \<Rightarrow> 'd vfs \<Rightarrow> int \<times> 'd vfs" where
  "register_filesystem fs w =
     (if \<exists>p \<in> set (filesystem_list w). ft_name p = ft_name fs then (- 1, w)
      else (0, w\<lparr>filesystem_list := fs # filesystem_list w\<rparr>))"

primrec remove_type :: "nat \<Rightarrow> 'd filesystem_type list \<Rightarrow> 'd filesystem_type list option" where
  "remove_type a [] = None"
| "remove_type a (p # ps) = (if ft_addr p = a then Some ps else map_option (Cons p) (remove_type a ps))"

definition unregister_filesystem :: "'d filesystem_type \<Rightarrow> 'd vfs \<Rightarrow> int \<times> 'd vfs" where
  "unregister_filesystem fs w = (case remove_type (ft_addr fs) (filesystem_list w) of
     None \<Rightarrow> (- 1, w) | Some ps \<Rightarrow> (0, w\<lparr>filesystem_list := ps\<rparr>))"

definition get_filesystem :: "u8 list \<Rightarrow> 'd vfs \<Rightarrow> 'd filesystem_type option" where
  "get_filesystem name w = find (\<lambda>p. ft_name p = name) (filesystem_list w)"

definition ext2_fs_type :: "nat \<Rightarrow> 'd filesystem_type" where
  "ext2_fs_type a = \<lparr>ft_addr = a, ft_name = [0x65, 0x78, 0x74, 0x32], ft_mount = ext2_mount\<rparr>"

definition ext2_init :: "nat \<Rightarrow> 'd vfs \<Rightarrow> int \<times> 'd vfs" where
  "ext2_init a w = register_filesystem (ext2_fs_type a) w"

definition filesystem_init :: "nat \<Rightarrow> 'd vfs \<Rightarrow> int \<times> 'd vfs" where
  "filesystem_init a w = (let (_, w) = ext2_init a (w\<lparr>filesystem_list := []\<rparr>) in (0, w))"

section \<open>Mounts (mount.c)\<close>

definition mount_alloc :: "'d vfs \<Rightarrow> nat option \<times> 'd vfs" where
  "mount_alloc w =
     (let (ok, w) = w_kmalloc w; p = w_next w in
      if ok then (Some p, w\<lparr>w_next := Suc p,
        w_mounts := (w_mounts w)(p \<mapsto> \<lparr>m_dev = 0, m_type = [], m_flags = 0, m_sb = None\<rparr>)\<rparr>)
      else (None, w))"

definition mount_free :: "nat option \<Rightarrow> 'd vfs \<Rightarrow> 'd vfs" where
  "mount_free p w = (case p of None \<Rightarrow> w | Some p \<Rightarrow> w\<lparr>w_mounts := (w_mounts w)(p := None)\<rparr>)"

definition mount_add :: "nat option \<Rightarrow> 'd vfs \<Rightarrow> 'd vfs" where
  "mount_add p w = (case p of None \<Rightarrow> w | Some p \<Rightarrow> w\<lparr>mount_list := p # mount_list w\<rparr>)"

definition mount_remove :: "nat option \<Rightarrow> 'd vfs \<Rightarrow> 'd vfs" where
  "mount_remove p w = (case p of None \<Rightarrow> w | Some p \<Rightarrow> w\<lparr>mount_list := remove1 p (mount_list w)\<rparr>)"

text \<open>The superblock that a mount callback returns becomes an object, with its root inode.\<close>

definition place_super :: "superblock \<Rightarrow> 'd ext2 \<Rightarrow> 'd vfs \<Rightarrow> nat \<times> 'd vfs" where
  "place_super sb s w =
     (let p = w_next w;
          (r, w) = (case sb_root sb of None \<Rightarrow> (None, w\<lparr>w_next := Suc p\<rparr>)
            | Some i \<Rightarrow> let (q, w) = place_inode p i (w\<lparr>w_next := Suc p\<rparr>) in (Some q, w))
      in (p, w\<lparr>w_supers := (w_supers w)(p \<mapsto> \<lparr>x_sb = sb, x_root = r, x_fs = s\<rparr>)\<rparr>))"

text \<open>\<open>blank\<close> stands for the uninitialised \<open>fs_data\<close> that the mount callback fills in.\<close>

definition mount :: "'d ext2 \<Rightarrow> 'd block_device \<Rightarrow> u8 list \<Rightarrow> u32 \<Rightarrow> 'd vfs \<Rightarrow> (nat option \<times> 'd vfs) option" where
  "mount blank dev ty flags w = (case get_filesystem ty w of None \<Rightarrow> Some (None, w)
     | Some fs_type \<Rightarrow> do {
         (sb, s) \<leftarrow> ft_mount fs_type
           (blank\<lparr>disk := w_disk w, heap_answers := w_heap w, heap_calls := w_calls w, fs_dev := dev\<rparr>);
         let w = w\<lparr>w_disk := disk s, w_calls := heap_calls s\<rparr> in
         case sb of None \<Rightarrow> Some (None, w)
         | Some sb \<Rightarrow>
             let (q, w) = place_super sb s w; (mnt, w) = mount_alloc w in
             case mnt of None \<Rightarrow> do { w \<leftarrow> superblock_free (Some q) w; Some (None, w) }
             | Some p \<Rightarrow>
                 let w = w\<lparr>w_mounts := (w_mounts w)(p \<mapsto>
                       \<lparr>m_dev = bd_major (bd_info dev), m_type = ft_name fs_type, m_flags = flags, m_sb = Some q\<rparr>)\<rparr>;
                     w = mount_add mnt w in
                 Some (mnt, if root_mount w = None then w\<lparr>root_mount := mnt\<rparr> else w) })"

definition umount :: "nat option \<Rightarrow> 'd vfs \<Rightarrow> (int \<times> 'd vfs) option" where
  "umount mnt w = (case mnt of None \<Rightarrow> Some (- 1, w)
     | Some p \<Rightarrow> do {
         m \<leftarrow> w_mounts w p;
         w \<leftarrow> (case m_sb m of None \<Rightarrow> Some w
           | Some q \<Rightarrow> do {
               x \<leftarrow> w_supers w q;
               (_, w) \<leftarrow> (if sb_has_ops (x_sb x) then on_super q ext2_sync w else Some (0, w));
               w \<leftarrow> superblock_free (Some q) w;
               Some (w\<lparr>w_mounts := (w_mounts w)(p \<mapsto> m\<lparr>m_sb := None\<rparr>)\<rparr>) });
         let w = mount_remove mnt w;
             w = (if root_mount w = mnt then w\<lparr>root_mount := None\<rparr> else w) in
         Some (0, mount_free mnt w) })"

primrec find_mount :: "u32 \<Rightarrow> nat list \<Rightarrow> 'd vfs \<Rightarrow> nat option option" where
  "find_mount dev [] w = Some None"
| "find_mount dev (p # ps) w = do {
     m \<leftarrow> w_mounts w p;
     if m_dev m = dev then Some (Some p) else find_mount dev ps w }"

definition get_mount :: "u32 \<Rightarrow> 'd vfs \<Rightarrow> nat option option" where
  "get_mount dev w = find_mount dev (mount_list w) w"

end
