(* ===== verification/Fs.thy ===== *)
theory Fs
  imports Vfs
begin

text \<open>
  The file library (\<open>lib/fs.c\<close>): operations on absolute paths that look up, use and release the inodes
  they need.  NULL arguments have no counterpart; error codes are the values of \<open>enum fs_err\<close>.
\<close>

abbreviation (input) FS_OK :: int where "FS_OK \<equiv> 0"
abbreviation (input) FS_ERR_INVAL :: int where "FS_ERR_INVAL \<equiv> - 2"
abbreviation (input) FS_ERR_NOT_FOUND :: int where "FS_ERR_NOT_FOUND \<equiv> - 3"
abbreviation (input) FS_ERR_NOT_DIR :: int where "FS_ERR_NOT_DIR \<equiv> - 4"
abbreviation (input) FS_ERR_NOT_FILE :: int where "FS_ERR_NOT_FILE \<equiv> - 5"
abbreviation (input) FS_ERR_IO :: int where "FS_ERR_IO \<equiv> - 6"
abbreviation (input) FS_ERR_NOMEM :: int where "FS_ERR_NOMEM \<equiv> - 7"

text \<open>The conversion of an error code to \<open>size_t\<close>.\<close>

abbreviation (input) to_size :: "int \<Rightarrow> u32" where "to_size e \<equiv> of_int e"

section \<open>Splitting a path\<close>

text \<open>The two backward loops: over trailing slashes, and over the last name.\<close>

primrec back_slashes :: "u8 list \<Rightarrow> nat \<Rightarrow> nat" where
  "back_slashes path 0 = 0"
| "back_slashes path (Suc e) = (if path ! Suc e = SLASH then back_slashes path e else Suc e)"

primrec back_name :: "u8 list \<Rightarrow> nat \<Rightarrow> nat" where
  "back_name path 0 = 0"
| "back_name path (Suc k) = (if path ! Suc k \<noteq> SLASH then back_name path k else Suc k)"

text \<open>The parent and the name, or \<open>None\<close> for the result -1.\<close>

definition split_absolute_path :: "u8 list \<Rightarrow> nat \<Rightarrow> nat \<Rightarrow> (u8 list \<times> u8 list) option" where
  "split_absolute_path path pmax nmax =
     (if length path \<le> 1 then None
      else if path ! 0 \<noteq> SLASH then None
      else let e = back_slashes path (length path - 1);
               slash = back_name path e;
               nstart = slash + 1;
               nlen = e + 1 - nstart in
      if nlen = 0 \<or> nmax \<le> nlen then None
      else let name = take nlen (drop nstart path) in
      if slash = 0 then Some ([SLASH], name)
      else if pmax \<le> slash then None
      else Some (take slash path, name))"

text \<open>The parent inode and the name, or the error code.\<close>

definition resolve_parent :: "u8 list \<Rightarrow> nat \<Rightarrow> 'd vfs \<Rightarrow> ((int + nat \<times> u8 list) \<times> 'd vfs) option" where
  "resolve_parent path nmax w = (case split_absolute_path path 256 nmax of
     None \<Rightarrow> Some (Inl FS_ERR_INVAL, w)
   | Some (parent_path, name) \<Rightarrow> do {
       (parent, w) \<leftarrow> path_lookup parent_path w;
       case parent of None \<Rightarrow> Some (Inl FS_ERR_NOT_FOUND, w)
       | Some p \<Rightarrow> Some (Inr (p, name), w) })"

section \<open>Files\<close>

text \<open>A call through \<open>inode->f_ops\<close>; a NULL table or entry is a jump to address 0.\<close>

definition inode_op :: "('d file_ops \<Rightarrow> 'f option) \<Rightarrow> nat \<Rightarrow> 'd vfs \<Rightarrow> 'f option" where
  "inode_op sel p w = do { v \<leftarrow> w_inodes w p; ops \<leftarrow> o_f_ops v; sel ops }"

text \<open>Resolve the parent, run one operation on it, release it.\<close>

definition in_parent ::
  "u8 list \<Rightarrow> (nat \<Rightarrow> u8 list \<Rightarrow> 'd vfs \<Rightarrow> (int \<times> 'd vfs) option) \<Rightarrow> 'd vfs \<Rightarrow> (int \<times> 'd vfs) option" where
  "in_parent path act w = do {
     (r, w) \<leftarrow> resolve_parent path 256 w;
     case r of Inl err \<Rightarrow> Some (err, w)
     | Inr (parent, name) \<Rightarrow> do {
         (rc, w) \<leftarrow> act parent name w;
         w \<leftarrow> inode_put (Some parent) w;
         Some (if rc = 0 then FS_OK else FS_ERR_IO, w) } }"

definition fs_create_file :: "u8 list \<Rightarrow> 'd vfs \<Rightarrow> (int \<times> 'd vfs) option" where
  "fs_create_file path w = in_parent path (\<lambda>parent name w. do {
     create \<leftarrow> inode_op f_create parent w;
     on_inode parent (\<lambda>i. create i name 420) w }) w"

definition fs_remove_file :: "u8 list \<Rightarrow> 'd vfs \<Rightarrow> (int \<times> 'd vfs) option" where
  "fs_remove_file path w = in_parent path (\<lambda>parent name w. do {
     unlink \<leftarrow> inode_op f_unlink parent w;
     on_inode parent (\<lambda>i s. do { (rc, s) \<leftarrow> unlink i name s; Some (rc, i, s) }) w }) w"

text \<open>The loop of \<open>fs_read_file\<close>: \<open>buf\<close> is the whole buffer, filled up to \<open>filled\<close>.\<close>

partial_function (option) read_file_loop ::
  "file_t \<Rightarrow> u8 list \<Rightarrow> u32 \<Rightarrow> u32 \<Rightarrow> 'd vfs \<Rightarrow> (u32 \<times> u8 list \<times> file_t \<times> 'd vfs) option" where
  "read_file_loop f buf filled buf_size w =
     (if filled < buf_size then do {
        (n, out, f, w) \<leftarrow> file_read f (drop (unat filled) buf) (buf_size - filled) w;
        let buf = take (unat filled) buf @ out in
        if n \<le> 0 then Some (filled, buf, f, w)
        else read_file_loop f buf (filled + of_int n) buf_size w }
      else Some (filled, buf, f, w))"

definition fs_read_file :: "u8 list \<Rightarrow> u8 list \<Rightarrow> u32 \<Rightarrow> 'd vfs \<Rightarrow> (u32 \<times> u8 list \<times> 'd vfs) option" where
  "fs_read_file path buf buf_size w =
     (if buf_size = 0 then Some (to_size FS_ERR_INVAL, buf, w)
      else do {
        (f, w) \<leftarrow> file_open path FILE_FLAG_READ w;
        case f of None \<Rightarrow> Some (to_size FS_ERR_NOT_FOUND, buf, w)
        | Some f \<Rightarrow> do {
            (filled, buf, f, w) \<leftarrow> read_file_loop f buf 0 buf_size w;
            (_, w) \<leftarrow> file_close (Some f) w;
            Some (filled, buf, w) } })"

definition fs_write_file :: "u8 list \<Rightarrow> u8 list \<Rightarrow> u32 \<Rightarrow> 'd vfs \<Rightarrow> (u32 \<times> 'd vfs) option" where
  "fs_write_file path data len w = do {
     (f, w) \<leftarrow> file_open path FILE_FLAG_WRITE w;
     case f of None \<Rightarrow> Some (to_size FS_ERR_NOT_FOUND, w)
     | Some f \<Rightarrow> do {
         (n, f, w) \<leftarrow> file_write f data len w;
         (_, w) \<leftarrow> file_close (Some f) w;
         Some (if n < 0 then to_size FS_ERR_IO else of_int n, w) } }"

definition fs_append_file :: "u8 list \<Rightarrow> u8 list \<Rightarrow> u32 \<Rightarrow> 'd vfs \<Rightarrow> (u32 \<times> 'd vfs) option" where
  "fs_append_file path data len w = do {
     (f, w) \<leftarrow> file_open path (FILE_FLAG_WRITE OR FILE_FLAG_APPEND) w;
     case f of None \<Rightarrow> Some (to_size FS_ERR_NOT_FOUND, w)
     | Some f \<Rightarrow> do {
         (n, f, w) \<leftarrow> file_write f data len w;
         (_, w) \<leftarrow> file_close (Some f) w;
         Some (if n < 0 then to_size FS_ERR_IO else of_int n, w) } }"

section \<open>Directories\<close>

definition fs_create_dir :: "u8 list \<Rightarrow> 'd vfs \<Rightarrow> (int \<times> 'd vfs) option" where
  "fs_create_dir path w = in_parent path (\<lambda>parent name w. do {
     mkdir \<leftarrow> inode_op f_mkdir parent w;
     on_inode parent (\<lambda>i. mkdir i name 493) w }) w"

definition fs_remove_dir :: "u8 list \<Rightarrow> 'd vfs \<Rightarrow> (int \<times> 'd vfs) option" where
  "fs_remove_dir path w = in_parent path (\<lambda>parent name w. do {
     rmdir \<leftarrow> inode_op f_rmdir parent w;
     on_inode parent (\<lambda>i. rmdir i name) w }) w"

record fs_dir_entry =
  fde_name :: "u8 list"
  fde_ino :: u32
  fde_type :: u8

definition entry_type :: "u8 \<Rightarrow> u8" where
  "entry_type t =
     (if t = EXT2_FT_REG_FILE then 1 else if t = EXT2_FT_DIR then 2 else if t = EXT2_FT_SYMLINK then 3 else 0)"

text \<open>\<open>is_dot\<close>: the names \<open>.\<close> and \<open>..\<close>.\<close>

definition is_dot :: "u8 list \<Rightarrow> nat \<Rightarrow> bool option" where
  "is_dot raw off = do {
     nlen \<leftarrow> de_name_len raw off;
     if nlen = 1 then do { c \<leftarrow> get8 raw (off + 8); Some (c = 0x2E) }
     else if nlen = 2 then do {
       c \<leftarrow> get8 raw (off + 8);
       if c \<noteq> 0x2E then Some False else do { d \<leftarrow> get8 raw (off + 9); Some (d = 0x2E) } }
     else Some False }"

text \<open>The walk over the raw directory data; \<open>acc\<close> are the entries filled so far.\<close>

function list_entries :: "u8 list \<Rightarrow> nat \<Rightarrow> nat \<Rightarrow> nat \<Rightarrow> bool \<Rightarrow> fs_dir_entry list \<Rightarrow> fs_dir_entry list option" where
  "list_entries raw off bytes max_entries skip_dot acc =
     (if off < bytes \<and> length acc < max_entries then do {
        rec_len \<leftarrow> de_rec_len raw off;
        if rec_len = 0 then Some acc
        else do {
          ino \<leftarrow> de_inode raw off;
          acc \<leftarrow> (if ino = 0 then Some acc else do {
            dot \<leftarrow> is_dot raw off;
            if skip_dot \<and> dot then Some acc
            else do {
              nlen \<leftarrow> de_name_len raw off;
              name \<leftarrow> buf_get raw (off + 8) (unat nlen);
              ty \<leftarrow> get8 raw (off + 7);
              Some (acc @ [\<lparr>fde_name = name, fde_ino = ino, fde_type = entry_type ty\<rparr>]) } });
          list_entries raw (off + unat rec_len) bytes max_entries skip_dot acc } }
      else Some acc)"
  by pat_completeness auto
termination
  by (relation "measure (\<lambda>(_, off, bytes, _). bytes - off)") (auto intro: rec_len_progress)

declare list_entries.simps [simp del]

text \<open>The count that the call returns and the entries it fills.\<close>

definition fs_list_dir ::
  "u8 list \<Rightarrow> u32 \<Rightarrow> bool \<Rightarrow> 'd vfs \<Rightarrow> (u32 \<times> fs_dir_entry list \<times> 'd vfs) option" where
  "fs_list_dir path max_entries skip_dot w =
     (if max_entries = 0 then Some (to_size FS_ERR_INVAL, [], w)
      else do {
        (dir, w) \<leftarrow> path_lookup path w;
        case dir of None \<Rightarrow> Some (to_size FS_ERR_NOT_FOUND, [], w)
        | Some p \<Rightarrow> do {
            v \<leftarrow> w_inodes w p;
            if \<not> FS_IS_DIR (v_mode (o_inode v)) then do {
              w \<leftarrow> inode_put dir w; Some (to_size FS_ERR_NOT_DIR, [], w) }
            else let dir_size = v_size (o_inode v) in
            if dir_size = 0 then do { w \<leftarrow> inode_put dir w; Some (0, [], w) }
            else let fresh = w_heap w (w_calls w); (ok, w) = w_kmalloc w in
            case fresh of None \<Rightarrow> do { w \<leftarrow> inode_put dir w; Some (to_size FS_ERR_NOMEM, [], w) }
            | Some g \<Rightarrow> do {
                ((nbytes, raw), w) \<leftarrow> on_inode p (\<lambda>i s. do {
                  (nbytes, raw, s) \<leftarrow> ext2_readdir i (map g [0..<unat dir_size]) dir_size 0 s;
                  Some ((nbytes, raw), i, s) }) w;
                w \<leftarrow> inode_put dir w;
                if nbytes \<le> 0 then Some (if nbytes = 0 then 0 else to_size FS_ERR_IO, [], w)
                else do {
                  entries \<leftarrow> list_entries raw 0 (nat nbytes) (unat max_entries) skip_dot [];
                  Some (of_nat (length entries), entries, w) } } } })"

section \<open>Queries\<close>

definition fs_stat_path :: "u8 list \<Rightarrow> 'd vfs \<Rightarrow> (int \<times> fs_stat option \<times> 'd vfs) option" where
  "fs_stat_path path w = do {
     (f, w) \<leftarrow> file_open path FILE_FLAG_READ w;
     case f of None \<Rightarrow> Some (FS_ERR_NOT_FOUND, None, w)
     | Some f \<Rightarrow> do {
         (rc, st) \<leftarrow> file_stat f w;
         (_, w) \<leftarrow> file_close (Some f) w;
         Some (if rc = 0 then FS_OK else FS_ERR_IO, st, w) } }"

definition fs_exists :: "u8 list \<Rightarrow> 'd vfs \<Rightarrow> (int \<times> 'd vfs) option" where
  "fs_exists path w = do {
     (inode, w) \<leftarrow> path_lookup path w;
     if inode = None then Some (0, w)
     else do { w \<leftarrow> inode_put inode w; Some (1, w) } }"

definition fs_is_dir :: "u8 list \<Rightarrow> 'd vfs \<Rightarrow> (int \<times> 'd vfs) option" where
  "fs_is_dir path w = do {
     (inode, w) \<leftarrow> path_lookup path w;
     case inode of None \<Rightarrow> Some (0, w)
     | Some p \<Rightarrow> do {
         v \<leftarrow> w_inodes w p;
         w \<leftarrow> inode_put inode w;
         Some (if FS_IS_DIR (v_mode (o_inode v)) then 1 else 0, w) } }"

definition fs_is_file :: "u8 list \<Rightarrow> 'd vfs \<Rightarrow> (int \<times> 'd vfs) option" where
  "fs_is_file path w = do {
     (inode, w) \<leftarrow> path_lookup path w;
     case inode of None \<Rightarrow> Some (0, w)
     | Some p \<Rightarrow> do {
         v \<leftarrow> w_inodes w p;
         w \<leftarrow> inode_put inode w;
         Some (if FS_IS_FILE (v_mode (o_inode v)) then 1 else 0, w) } }"

definition fs_file_size :: "u8 list \<Rightarrow> 'd vfs \<Rightarrow> (u32 \<times> 'd vfs) option" where
  "fs_file_size path w = do {
     (inode, w) \<leftarrow> path_lookup path w;
     case inode of None \<Rightarrow> Some (to_size FS_ERR_NOT_FOUND, w)
     | Some p \<Rightarrow> do {
         v \<leftarrow> w_inodes w p;
         if \<not> FS_IS_FILE (v_mode (o_inode v)) then do {
           w \<leftarrow> inode_put inode w; Some (to_size FS_ERR_NOT_FILE, w) }
         else do {
           w \<leftarrow> inode_put inode w;
           Some (v_size (o_inode v), w) } } }"

end
