(* ===== verification/Boot_Fs.thy ===== *)
theory Boot_Fs
  imports Fs Ata
begin

text \<open>Mounting the root filesystem at boot (\<open>mount_init\<close> in \<open>fs/vfs/mount.c\<close>): the ATA driver under the
  VFS.  \<open>self\<close> is the address of the static device structure, \<open>blank\<close> the memory of the volume before
  it is filled in.\<close>

definition mount_init ::
  "'h ata ext2 \<Rightarrow> 'h io_ports \<Rightarrow> u32 \<Rightarrow> 'h ata bdev_registry \<Rightarrow> 'h ata vfs
     \<Rightarrow> (int \<times> 'h ata bdev_registry \<times> 'h ata vfs) option" where
  "mount_init blank io self r w =
     (let w = w\<lparr>mount_list := [], root_mount := None\<rparr>;
          (dev, r, d) = ata_create_block_device io self r (w_disk w);
          w = w\<lparr>w_disk := d\<rparr> in
      if dev = 0 then Some (- 1, r, w)
      else do {
        (mnt, w) \<leftarrow> mount blank (bdev_at r dev) [0x65, 0x78, 0x74, 0x32] 0 w;
        Some (if mnt = None then - 1 else 0, r, w) })"

end
