(* ===== verification/Vga.thy ===== *)
theory Vga
  imports Prelude
begin

text \<open>
  The text console: \<open>drivers/vga.c\<close> and the scrolling handler of \<open>prog/terminal.c\<close>, which the driver calls
  through \<open>vga_EOF_handler\<close>.  The state holds the variables of the driver, the 80 x 25 cells of the text
  buffer and the bytes written to the ports, in order.  An index outside the buffer and a call through a null
  handler give \<open>None\<close>.
\<close>

abbreviation (input) VGA_WIDTH :: u32 where "VGA_WIDTH \<equiv> 80"
abbreviation (input) VGA_HEIGHT :: u32 where "VGA_HEIGHT \<equiv> 25"

abbreviation (input) VGA_COLOR_BLACK :: u8 where "VGA_COLOR_BLACK \<equiv> 0"
abbreviation (input) VGA_COLOR_LIGHT_GREY :: u8 where "VGA_COLOR_LIGHT_GREY \<equiv> 7"

text \<open>The functions the kernel installs with \<open>vga_set_eof_handler\<close>.\<close>

datatype vga_EOF_func = EOF_vga_clear | EOF_scroll_down_once

record vga =
  vga_row :: u32
  vga_column :: u32
  vga_color :: u8
  vga_EOF_handler :: "vga_EOF_func option"
  vga_buffer :: "u16 list"
  vga_ports :: "(u16 \<times> u8) list"

definition vga_outb :: "u16 \<Rightarrow> u8 \<Rightarrow> vga \<Rightarrow> vga" where
  "vga_outb port val v = v\<lparr>vga_ports := vga_ports v @ [(port, val)]\<rparr>"

definition vga_entry_color :: "u8 \<Rightarrow> u8 \<Rightarrow> u8" where
  "vga_entry_color fg bg = fg OR push_bit 4 bg"

definition vga_entry :: "u8 \<Rightarrow> u8 \<Rightarrow> u16" where
  "vga_entry uc color = ucast uc OR push_bit 8 (ucast color)"

definition vga_putchar_at :: "u8 \<Rightarrow> u8 \<Rightarrow> u32 \<Rightarrow> u32 \<Rightarrow> vga \<Rightarrow> vga option" where
  "vga_putchar_at c color x y v = do {
     let index = y * VGA_WIDTH + x;
     b \<leftarrow> aset (vga_buffer v) (unat index) (vga_entry c color);
     Some (v\<lparr>vga_buffer := b\<rparr>) }"

definition vga_move_cursor :: "u32 \<Rightarrow> u32 \<Rightarrow> vga \<Rightarrow> vga" where
  "vga_move_cursor row col v =
     (let pos = ucast (row * VGA_WIDTH + col) :: u16;
          v = vga_outb 0x3D4 14 v;
          v = vga_outb 0x3D5 (ucast (drop_bit 8 pos AND 0xFF)) v;
          v = vga_outb 0x3D4 15 v
      in vga_outb 0x3D5 (ucast (pos AND 0xFF)) v)"

text \<open>The two loops over lines and columns of \<open>vga_clear\<close>.\<close>

primrec clear_line :: "u32 list \<Rightarrow> u32 \<Rightarrow> u8 \<Rightarrow> vga \<Rightarrow> vga option" where
  "clear_line [] y color v = Some v"
| "clear_line (x # xs) y color v = do {
     b \<leftarrow> aset (vga_buffer v) (unat (y * VGA_WIDTH + x)) (vga_entry 0x20 color);
     clear_line xs y color (v\<lparr>vga_buffer := b\<rparr>) }"

primrec clear_lines :: "u32 list \<Rightarrow> u8 \<Rightarrow> vga \<Rightarrow> vga option" where
  "clear_lines [] color v = Some v"
| "clear_lines (y # ys) color v = do {
     v \<leftarrow> clear_line (map of_nat [0..<80]) y color v;
     clear_lines ys color v }"

definition vga_clear :: "vga \<Rightarrow> vga option" where
  "vga_clear v = do {
     let clear_color = vga_entry_color VGA_COLOR_LIGHT_GREY VGA_COLOR_BLACK;
     v \<leftarrow> clear_lines (map of_nat [0..<25]) clear_color v;
     let v = v\<lparr>vga_row := 0, vga_column := 0\<rparr>;
     Some (vga_move_cursor (vga_row v) (vga_column v) v) }"

definition vga_initialize :: "vga \<Rightarrow> vga option" where
  "vga_initialize v = vga_clear (v\<lparr>vga_row := 0, vga_column := 0,
     vga_color := vga_entry_color VGA_COLOR_LIGHT_GREY VGA_COLOR_BLACK, vga_EOF_handler := Some EOF_vga_clear\<rparr>)"

definition vga_get_row :: "vga \<Rightarrow> u32" where
  "vga_get_row v = vga_row v"

definition vga_get_col :: "vga \<Rightarrow> u32" where
  "vga_get_col v = vga_column v"

definition vga_get_color :: "vga \<Rightarrow> u8" where
  "vga_get_color v = vga_color v"

definition vga_set_row :: "u32 \<Rightarrow> vga \<Rightarrow> vga" where
  "vga_set_row row v =
     (let v = (if VGA_HEIGHT \<le> row then v\<lparr>vga_row := VGA_HEIGHT - 1\<rparr> else v\<lparr>vga_row := row\<rparr>)
      in vga_move_cursor (vga_row v) (vga_column v) v)"

definition vga_set_col :: "u32 \<Rightarrow> vga \<Rightarrow> vga" where
  "vga_set_col col v =
     (let v = (if VGA_WIDTH \<le> col then v\<lparr>vga_column := VGA_WIDTH - 1\<rparr> else v\<lparr>vga_column := col\<rparr>)
      in vga_move_cursor (vga_row v) (vga_column v) v)"

definition vga_set_color :: "u8 \<Rightarrow> vga \<Rightarrow> vga" where
  "vga_set_color color v = v\<lparr>vga_color := color\<rparr>"

definition vga_set_eof_handler :: "vga_EOF_func option \<Rightarrow> vga \<Rightarrow> vga" where
  "vga_set_eof_handler handler v = v\<lparr>vga_EOF_handler := handler\<rparr>"

section \<open>Scrolling\<close>

text \<open>The loops of \<open>_scroll_down_once\<close>: copy each line to the one above, then blank the last line.\<close>

primrec scroll_line :: "u32 list \<Rightarrow> u32 \<Rightarrow> vga \<Rightarrow> vga option" where
  "scroll_line [] y v = Some v"
| "scroll_line (x # xs) y v = do {
     let from_index = y * VGA_WIDTH + x;
     let to_index = (y - 1) * VGA_WIDTH + x;
     c \<leftarrow> aget (vga_buffer v) (unat from_index);
     b \<leftarrow> aset (vga_buffer v) (unat to_index) c;
     scroll_line xs y (v\<lparr>vga_buffer := b\<rparr>) }"

primrec scroll_lines :: "u32 list \<Rightarrow> vga \<Rightarrow> vga option" where
  "scroll_lines [] v = Some v"
| "scroll_lines (y # ys) v = do {
     v \<leftarrow> scroll_line (map of_nat [0..<80]) y v;
     scroll_lines ys v }"

primrec blank_last_line :: "u32 list \<Rightarrow> u8 \<Rightarrow> vga \<Rightarrow> vga option" where
  "blank_last_line [] color v = Some v"
| "blank_last_line (x # xs) color v = do {
     v \<leftarrow> vga_putchar_at 0x20 color x (VGA_HEIGHT - 1) v;
     blank_last_line xs color v }"

definition scroll_down_once :: "vga \<Rightarrow> vga option" where
  "scroll_down_once v = do {
     v \<leftarrow> scroll_lines (map of_nat [1..<25]) v;
     let current_color = vga_get_color v;
     v \<leftarrow> blank_last_line (map of_nat [0..<80]) current_color v;
     let v = vga_set_col 0 v;
     let v = vga_set_row (vga_get_row v - 1) v;
     Some (vga_move_cursor (vga_get_row v) (vga_get_col v) v) }"

definition call_EOF_handler :: "vga \<Rightarrow> vga option" where
  "call_EOF_handler v = (case vga_EOF_handler v of
       None \<Rightarrow> None
     | Some EOF_vga_clear \<Rightarrow> vga_clear v
     | Some EOF_scroll_down_once \<Rightarrow> scroll_down_once v)"

section \<open>Characters and strings\<close>

definition vga_putchar :: "u8 \<Rightarrow> vga \<Rightarrow> vga option" where
  "vga_putchar c v = do {
     v \<leftarrow> (if c = 0x0A then Some (v\<lparr>vga_row := vga_row v + 1, vga_column := 0\<rparr>)
           else if c = 0x08 then
             (if 0 < vga_column v then
                (let v = v\<lparr>vga_column := vga_column v - 1\<rparr>
                 in vga_putchar_at 0x20 (vga_color v) (vga_column v) (vga_row v) v)
              else Some v)
           else do {
             v \<leftarrow> vga_putchar_at c (vga_color v) (vga_column v) (vga_row v) v;
             let v = v\<lparr>vga_column := vga_column v + 1\<rparr>;
             Some (if vga_column v = VGA_WIDTH then v\<lparr>vga_column := 0, vga_row := vga_row v + 1\<rparr> else v) });
     v \<leftarrow> (if vga_row v = VGA_HEIGHT then call_EOF_handler v else Some v);
     Some (vga_move_cursor (vga_row v) (vga_column v) v) }"

text \<open>The string is given by its bytes before the NUL, whose number is \<open>strlen data\<close>.\<close>

primrec vga_writestring :: "u8 list \<Rightarrow> vga \<Rightarrow> vga option" where
  "vga_writestring [] v = Some v"
| "vga_writestring (c # cs) v = do { v \<leftarrow> vga_putchar c v; vga_writestring cs v }"

section \<open>What the loops compute\<close>

text \<open>A position of the screen, and the word the code computes for it.\<close>

abbreviation cell :: "nat \<Rightarrow> nat \<Rightarrow> nat" where "cell y x \<equiv> y * 80 + x"

lemma unat_cell: "y < 25 \<Longrightarrow> x < 80 \<Longrightarrow> unat (of_nat y * 80 + of_nat x :: u32) = cell y x"
  by (subst of_nat_numeral [of "num.Bit0 (num.Bit0 (num.Bit0 (num.Bit0 (num.Bit1 (num.Bit0 num.One)))))", symmetric],
      subst of_nat_mult [symmetric], subst of_nat_add [symmetric], rule unat_of_nat32) simp

lemma fold_update_length [simp]: "length (fold (\<lambda>x b. b[f x := e]) xs b) = length b"
  by (induction xs arbitrary: b) auto

lemma fold_update_nth: "i < length b \<Longrightarrow>
    fold (\<lambda>x b. b[f x := e]) xs b ! i = (if i \<in> f ` set xs then e else b ! i)"
  by (induction xs arbitrary: b) (auto simp: nth_list_update)

abbreviation blank :: "u8 \<Rightarrow> u16" where "blank color \<equiv> vga_entry 0x20 color"

lemma clear_line_ok:
  assumes "y < 25" "\<forall>x \<in> set xs. x < 80" "length (vga_buffer v) = 2000"
  shows "clear_line (map of_nat xs) (of_nat y) color v =
    Some (v\<lparr>vga_buffer := fold (\<lambda>x b. b[cell y x := blank color]) xs (vga_buffer v)\<rparr>)"
  using assms(2, 3)
proof (induction xs arbitrary: v)
  case (Cons x xs)
  then have "cell y x < 2000" using assms(1) by simp
  with Cons assms(1) show ?case by (simp add: unat_cell)
qed simp

lemma clear_lines_ok:
  assumes "\<forall>y \<in> set ys. y < 25" "length (vga_buffer v) = 2000"
  shows "clear_lines (map of_nat ys) color v =
    Some (v\<lparr>vga_buffer := fold (\<lambda>y. fold (\<lambda>x b. b[cell y x := blank color]) [0..<80]) ys (vga_buffer v)\<rparr>)"
  using assms
proof (induction ys arbitrary: v)
  case (Cons y ys)
  then have "clear_line (map of_nat [0..<80]) (of_nat y) color v =
      Some (v\<lparr>vga_buffer := fold (\<lambda>x b. b[cell y x := blank color]) [0..<80] (vga_buffer v)\<rparr>)"
    by (intro clear_line_ok) auto
  with Cons show ?case by (simp del: upt_Suc)
qed simp

lemma fold_fold_product: "fold (\<lambda>y. fold (\<lambda>x. f (y, x)) xs) ys b = fold f (List.product ys xs) b"
proof (induction ys arbitrary: b)
  case (Cons y ys)
  have "fold f (map (Pair y) xs) b = fold (\<lambda>x. f (y, x)) xs b" for b
    by (induction xs arbitrary: b) auto
  with Cons show ?case by simp
qed simp

lemma cell_inverse: "i < 2000 \<Longrightarrow> i div 80 < 25 \<and> i mod 80 < 80 \<and> i = cell (i div 80) (i mod 80)"
  by auto

lemma clear_buffer:
  assumes "length b = 2000"
  shows "fold (\<lambda>y. fold (\<lambda>x b. b[cell y x := e]) [0..<80]) [0..<25] b = replicate 2000 e"
proof -
  let ?f = "\<lambda>p. cell (fst p) (snd p)"
  have "fold (\<lambda>y. fold (\<lambda>x b. b[cell y x := e]) [0..<80]) [0..<25] b =
      fold (\<lambda>p b. b[?f p := e]) (List.product [0..<25] [0..<80]) b"
    using fold_fold_product [where f = "\<lambda>p b. b[?f p := e]"] by simp
  also have "\<dots> = replicate 2000 e"
  proof (rule nth_equalityI)
    fix i assume "i < length (fold (\<lambda>p b. b[?f p := e]) (List.product [0..<25] [0..<80]) b)"
    then have i: "i < 2000" using assms by simp
    have "i \<in> ?f ` set (List.product [0..<25] [0..<80])"
      using cell_inverse [OF i] by (auto intro!: image_eqI [where x = "(i div 80, i mod 80)"])
    with i show "fold (\<lambda>p b. b[?f p := e]) (List.product [0..<25] [0..<80]) b ! i = replicate 2000 e ! i"
      using assms by (simp add: fold_update_nth)
  qed (use assms in simp)
  finally show ?thesis .
qed

lemma vga_clear_ok:
  assumes "length (vga_buffer v) = 2000"
  shows "vga_clear v = Some (vga_move_cursor 0 0 (v\<lparr>vga_buffer := replicate 2000 (blank 7), vga_row := 0, vga_column := 0\<rparr>))"
proof -
  have "clear_lines (map of_nat [0..<25]) 7 v = Some (v\<lparr>vga_buffer := replicate 2000 (blank 7)\<rparr>)"
    using assms by (simp add: clear_lines_ok clear_buffer del: upt_Suc)
  then show ?thesis by (simp add: vga_clear_def vga_entry_color_def del: upt_Suc)
qed

text \<open>The screen after the first \<open>n\<close> cells have been replaced by those one line further down.\<close>

definition shifted :: "nat \<Rightarrow> 'a list \<Rightarrow> 'a list" where
  "shifted n b = take n (drop 80 b) @ drop n b"

lemma length_shifted [simp]: "n + 80 \<le> length b \<Longrightarrow> length (shifted n b) = length b"
  by (simp add: shifted_def)

lemma shifted_step:
  assumes "n + 80 < length b"
  shows "shifted n b ! (n + 80) = b ! (n + 80)" "(shifted n b)[n := b ! (n + 80)] = shifted (Suc n) b"
proof -
  show "shifted n b ! (n + 80) = b ! (n + 80)" using assms by (simp add: shifted_def nth_append)
  have "drop n b = b ! n # drop (Suc n) b" using assms by (simp add: Cons_nth_drop_Suc)
  then show "(shifted n b)[n := b ! (n + 80)] = shifted (Suc n) b"
    using assms by (simp add: shifted_def list_update_append take_Suc_conv_app_nth add.commute)
qed

lemma scroll_line_ok:
  assumes y: "y < 24" and "x \<le> 80" "vga_buffer v = shifted (cell y x) b" "length b = 2000"
  shows "scroll_line (map of_nat [x..<80]) (of_nat (Suc y)) v = Some (v\<lparr>vga_buffer := shifted (cell (Suc y) 0) b\<rparr>)"
  using assms(2-)
proof (induction "80 - x" arbitrary: x v)
  case 0
  then have "x = 80" by simp
  with 0 show ?case by (simp add: add.commute)
next
  case (Suc n)
  then have x: "x < 80" by simp
  have f: "unat (of_nat (Suc y) * 80 + of_nat x :: u32) = cell y x + 80"
    using unat_cell [of "Suc y" x] y x by simp
  have t: "unat ((of_nat (Suc y) - 1) * 80 + of_nat x :: u32) = cell y x"
    using unat_cell [of y x] y x by simp
  have le: "cell y x + 80 < 2000" using y x by simp
  note st = shifted_step [of "cell y x" b]
  have "scroll_line (map of_nat [x..<80]) (of_nat (Suc y)) v =
      scroll_line (map of_nat [Suc x..<80]) (of_nat (Suc y)) (v\<lparr>vga_buffer := shifted (cell y (Suc x)) b\<rparr>)"
    using x Suc.prems le st unfolding upt_conv_Cons [OF x] list.map scroll_line.simps Let_def f t
    by (simp del: upt_Suc upt_rec_numeral)
  also have "\<dots> = Some (v\<lparr>vga_buffer := shifted (cell (Suc y) 0) b\<rparr>)"
    using Suc.hyps(1) [of "Suc x" "v\<lparr>vga_buffer := shifted (cell y (Suc x)) b\<rparr>"] Suc.hyps(2) Suc.prems x
    by (simp del: upt_Suc upt_rec_numeral)
  finally show ?case .
qed

lemma scroll_lines_ok:
  assumes "y \<le> 24" "vga_buffer v = shifted (cell y 0) b" "length b = 2000"
  shows "scroll_lines (map of_nat [Suc y..<25]) v = Some (v\<lparr>vga_buffer := shifted 1920 b\<rparr>)"
  using assms
proof (induction "24 - y" arbitrary: y v)
  case 0
  then have "y = 24" by simp
  with 0 show ?case by simp
next
  case (Suc n)
  then have y: "y < 24" by simp
  have "Suc y < 25" using y by simp
  then have u: "[Suc y..<25] = Suc y # [Suc (Suc y)..<25]" by (rule upt_conv_Cons)
  have "scroll_line (map of_nat [0..<80]) (of_nat (Suc y)) v = Some (v\<lparr>vga_buffer := shifted (cell (Suc y) 0) b\<rparr>)"
    using y Suc.prems by (intro scroll_line_ok) auto
  then have "scroll_lines (map of_nat [Suc y..<25]) v =
      scroll_lines (map of_nat [Suc (Suc y)..<25]) (v\<lparr>vga_buffer := shifted (cell (Suc y) 0) b\<rparr>)"
    unfolding u by (simp del: upt_Suc upt_rec_numeral of_nat_Suc)
  also have "\<dots> = Some (v\<lparr>vga_buffer := shifted 1920 b\<rparr>)"
    using Suc.hyps(1) [of "Suc y" "v\<lparr>vga_buffer := shifted (cell (Suc y) 0) b\<rparr>"] Suc.hyps(2) Suc.prems y
    by (simp del: upt_Suc upt_rec_numeral)
  finally show ?case .
qed

lemma blank_last_line_ok:
  assumes "\<forall>x \<in> set xs. x < 80" "length (vga_buffer v) = 2000"
  shows "blank_last_line (map of_nat xs) color v =
    Some (v\<lparr>vga_buffer := fold (\<lambda>x b. b[1920 + x := blank color]) xs (vga_buffer v)\<rparr>)"
  using assms
proof (induction xs arbitrary: v)
  case (Cons x xs)
  then show ?case using unat_cell [of 24 x] by (simp add: vga_putchar_at_def)
qed simp

lemma blank_last:
  assumes "length b = 2000"
  shows "fold (\<lambda>x b. b[1920 + x := e]) [0..<80] (shifted 1920 b) = drop 80 b @ replicate 80 e" (is "?l = ?r")
proof (rule nth_equalityI)
  fix i assume "i < length ?l"
  then have i: "i < 2000" using assms by simp
  have "i \<in> (+) 1920 ` set [0..<80] \<longleftrightarrow> 1920 \<le> i"
    using i by (auto intro!: image_eqI [of i "(+) 1920" "i - 1920"])
  with i show "?l ! i = ?r ! i" using assms
    by (subst fold_update_nth) (auto simp: shifted_def nth_append simp del: upt_Suc upt_rec_numeral)
qed (use assms in simp)

lemma scroll_down_once_ok:
  assumes "length (vga_buffer v) = 2000" "vga_row v = 25"
  shows "\<exists>ps. scroll_down_once v = Some (v\<lparr>vga_buffer := drop 80 (vga_buffer v) @ replicate 80 (blank (vga_color v)),
    vga_column := 0, vga_row := 24, vga_ports := ps\<rparr>)"
proof -
  have "scroll_lines (map of_nat [1..<25]) v = Some (v\<lparr>vga_buffer := shifted 1920 (vga_buffer v)\<rparr>)"
    using scroll_lines_ok [of 0 v "vga_buffer v"] assms by (simp add: shifted_def del: upt_Suc upt_rec_numeral)
  with assms show ?thesis
    by (simp add: scroll_down_once_def blank_last_line_ok blank_last vga_set_col_def vga_set_row_def vga_get_row_def
        vga_get_color_def vga_get_col_def vga_move_cursor_def vga_outb_def Let_def del: upt_Suc upt_rec_numeral)
      (rule exI, rule refl)
qed

section \<open>The console as a cursor on a list of cells\<close>

text \<open>The cursor position and the cells of the screen.\<close>

definition screen :: "vga \<Rightarrow> nat \<times> u16 list" where
  "screen v = (cell (unat (vga_row v)) (unat (vga_column v)), vga_buffer v)"

fun screen_full :: "vga_EOF_func \<Rightarrow> u8 \<Rightarrow> nat \<times> u16 list \<Rightarrow> nat \<times> u16 list" where
  "screen_full EOF_vga_clear color (p, cs) = (if p = 2000 then (0, replicate 2000 (blank 7)) else (p, cs))"
| "screen_full EOF_scroll_down_once color (p, cs) =
     (if p = 2000 then (1920, drop 80 cs @ replicate 80 (blank color)) else (p, cs))"

fun screen_put :: "vga_EOF_func \<Rightarrow> u8 \<Rightarrow> u8 \<Rightarrow> nat \<times> u16 list \<Rightarrow> nat \<times> u16 list" where
  "screen_put h color c (p, cs) = screen_full h color
     (if c = 0x0A then ((p div 80 + 1) * 80, cs)
      else if c = 0x08 then (if p mod 80 = 0 then (p, cs) else (p - 1, cs[p - 1 := blank color]))
      else (p + 1, cs[p := vga_entry c color]))"

text \<open>The cursor the display controller shows: port 0x3D4 selects a register, 0x3D5 writes it.\<close>

fun crtc_write :: "u16 \<times> u8 \<Rightarrow> u8 \<times> u8 \<times> u8 \<Rightarrow> u8 \<times> u8 \<times> u8" where
  "crtc_write (port, val) (ix, hi, lo) =
     (if port = 0x3D4 then (val, hi, lo)
      else if port = 0x3D5 \<and> ix = 14 then (ix, val, lo)
      else if port = 0x3D5 \<and> ix = 15 then (ix, hi, val)
      else (ix, hi, lo))"

definition crtc_cursor :: "(u16 \<times> u8) list \<Rightarrow> nat" where
  "crtc_cursor ps = (case fold crtc_write ps (0, 0, 0) of (_, hi, lo) \<Rightarrow> unat hi * 256 + unat lo)"

definition vga_ok :: "vga \<Rightarrow> bool" where
  "vga_ok v \<longleftrightarrow> vga_row v < 25 \<and> vga_column v < 80 \<and> length (vga_buffer v) = 2000 \<and> vga_EOF_handler v \<noteq> None"

text \<open>What every write leaves alone.\<close>

definition same_style :: "vga \<Rightarrow> vga \<Rightarrow> bool" where
  "same_style v v' \<longleftrightarrow> vga_color v' = vga_color v \<and> vga_EOF_handler v' = vga_EOF_handler v"

lemma unat_hi_lo:
  fixes w :: u16
  shows "unat (ucast (drop_bit 8 w AND 0xFF) :: u8) * 256 + unat (ucast (w AND 0xFF) :: u8) = unat w"
proof -
  have m: "(0xFF :: u16) = mask 8" by (simp add: mask_eq_exp_minus_1)
  have "ucast (drop_bit 8 w AND 0xFF) = (ucast (drop_bit 8 w) :: u8)" "ucast (w AND 0xFF) = (ucast w :: u8)"
    unfolding m by (auto intro!: bit_word_eqI simp: bit_simps)
  moreover have "unat w div 256 < 256" using unsigned_less [where 'a = nat, of w] by (simp add: less_mult_imp_div_less)
  ultimately show ?thesis
    by (simp add: unsigned_ucast_eq unat_drop_bit_eq drop_bit_eq_div take_bit_eq_mod unat_div)
qed

lemma move_cursor_cursor:
  "crtc_cursor (vga_ports (vga_move_cursor r c v)) = unat (ucast (r * 80 + c) :: u16)"
  by (cases "fold crtc_write (vga_ports v) (0, 0, 0)")
    (simp add: vga_move_cursor_def Let_def vga_outb_def crtc_cursor_def unat_hi_lo)

lemma move_cursor_same [simp]:
  "vga_row (vga_move_cursor r c v) = vga_row v" "vga_column (vga_move_cursor r c v) = vga_column v"
  "vga_color (vga_move_cursor r c v) = vga_color v" "vga_EOF_handler (vga_move_cursor r c v) = vga_EOF_handler v"
  "vga_buffer (vga_move_cursor r c v) = vga_buffer v"
  by (simp_all add: vga_move_cursor_def Let_def vga_outb_def)

lemma move_cursor_screen:
  assumes "vga_row v < 25" "vga_column v < 80"
  shows "crtc_cursor (vga_ports (vga_move_cursor (vga_row v) (vga_column v) v)) = fst (screen v)"
proof -
  have r: "unat (vga_row v) < 25" "unat (vga_column v) < 80" using assms by (simp_all add: word_less_nat_alt)
  then have "unat (vga_row v * 80 + vga_column v) = cell (unat (vga_row v)) (unat (vga_column v))"
    using unat_cell [of "unat (vga_row v)" "unat (vga_column v)"] by simp
  moreover from this r have "unat (vga_row v * 80 + vga_column v) < 2 ^ 16" by simp
  ultimately show ?thesis
    by (simp add: move_cursor_cursor unsigned_ucast_eq take_bit_nat_eq_self screen_def)
qed

text \<open>The end of \<open>vga_putchar\<close>: the handler runs when the row has reached 25.\<close>

lemma putchar_finish:
  assumes h: "vga_EOF_handler v = Some h" and l: "length (vga_buffer v) = 2000"
    and rc: "vga_row v < 25 \<and> vga_column v < 80 \<or> vga_row v = 25 \<and> vga_column v = 0"
  shows "\<exists>v'. (if vga_row v = 25 then call_EOF_handler v else Some v) = Some v' \<and> same_style v v' \<and> vga_ok v' \<and>
    screen v' = screen_full h (vga_color v) (screen v)"
proof (cases "vga_row v = 25")
  case True
  with rc have s: "screen v = (2000, vga_buffer v)" by (simp add: screen_def)
  show ?thesis
  proof (cases h)
    case EOF_vga_clear
    with True h l s show ?thesis
      by (simp add: call_EOF_handler_def vga_clear_ok same_style_def vga_ok_def screen_def)
  next
    case EOF_scroll_down_once
    obtain ps where "scroll_down_once v = Some (v\<lparr>vga_buffer := drop 80 (vga_buffer v) @ replicate 80 (blank (vga_color v)),
        vga_column := 0, vga_row := 24, vga_ports := ps\<rparr>)"
      using scroll_down_once_ok [OF l True] by blast
    with EOF_scroll_down_once True h l s show ?thesis
      by (simp add: call_EOF_handler_def same_style_def vga_ok_def screen_def)
  qed
next
  case False
  have "fst (screen v) < 2000" using rc False by (auto simp: screen_def word_less_nat_alt)
  then have "screen_full h (vga_color v) (screen v) = screen v"
    by (cases h; cases "screen v") auto
  with False rc h l show ?thesis by (auto simp: same_style_def vga_ok_def)
qed

text \<open>The beginning of \<open>vga_putchar\<close>: the character is stored and the cursor advances, perhaps below the screen.\<close>

lemma putchar_at_cursor:
  assumes "vga_ok v"
  shows "vga_putchar_at c (vga_color v) (vga_column v) (vga_row v) v =
    Some (v\<lparr>vga_buffer := (vga_buffer v)[fst (screen v) := vga_entry c (vga_color v)]\<rparr>)"
proof -
  have r: "unat (vga_row v) < 25" "unat (vga_column v) < 80" using assms by (simp_all add: vga_ok_def word_less_nat_alt)
  then have "unat (vga_row v * 80 + vga_column v) = cell (unat (vga_row v)) (unat (vga_column v))"
    using unat_cell [of "unat (vga_row v)" "unat (vga_column v)"] by simp
  with assms r show ?thesis by (simp add: vga_putchar_at_def vga_ok_def screen_def)
qed

lemma putchar_store:
  assumes ok: "vga_ok v" and c: "c \<noteq> 0x0A" "c \<noteq> 0x08" and p: "screen v = (p, cs)"
  shows "\<exists>v'. do { v \<leftarrow> vga_putchar_at c (vga_color v) (vga_column v) (vga_row v) v;
      let v = v\<lparr>vga_column := vga_column v + 1\<rparr>;
      Some (if vga_column v = VGA_WIDTH then v\<lparr>vga_column := 0, vga_row := vga_row v + 1\<rparr> else v) } = Some v' \<and>
    same_style v v' \<and> length (vga_buffer v') = 2000 \<and> screen v' = (p + 1, cs[p := vga_entry c (vga_color v)]) \<and>
    (vga_row v' < 25 \<and> vga_column v' < 80 \<or> vga_row v' = 25 \<and> vga_column v' = 0)"
proof -
  have r: "vga_row v < 25" "vga_column v < 80" "length (vga_buffer v) = 2000" using ok by (simp_all add: vga_ok_def)
  have u: "unat (vga_row v + 1) = unat (vga_row v) + 1" "unat (vga_column v + 1) = unat (vga_column v) + 1"
    using unat_plus_one [OF r(1)] unat_plus_one [OF r(2)] by simp_all
  have n: "unat (vga_row v) < 25" "unat (vga_column v) < 80" using r by (simp_all add: word_less_nat_alt)
  have e: "vga_column v + 1 = 80 \<longleftrightarrow> unat (vga_column v) = 79" using u(2) by (simp add: word_unat_eq_iff)
  have ps: "p = cell (unat (vga_row v)) (unat (vga_column v))" "cs = vga_buffer v" using p by (auto simp: screen_def)
  let ?w = "v\<lparr>vga_buffer := cs[p := vga_entry c (vga_color v)], vga_column := vga_column v + 1\<rparr>"
  let ?r = "do { v \<leftarrow> vga_putchar_at c (vga_color v) (vga_column v) (vga_row v) v;
      let v = v\<lparr>vga_column := vga_column v + 1\<rparr>;
      Some (if vga_column v = VGA_WIDTH then v\<lparr>vga_column := 0, vga_row := vga_row v + 1\<rparr> else v) }"
  have run: "?r = Some (if vga_column v + 1 = 80 then ?w\<lparr>vga_column := 0, vga_row := vga_row v + 1\<rparr> else ?w)"
    unfolding putchar_at_cursor [OF ok] bind.bind_lunit Let_def using p ps by simp
  show ?thesis
  proof (cases "vga_column v + 1 = 80")
    case True
    then have "vga_row v + 1 < 25 \<or> vga_row v + 1 = 25" using u(1) n(1) by (auto simp: word_less_nat_alt word_unat_eq_iff)
    moreover have "unat (vga_column v) = 79" using True e by simp
    ultimately show ?thesis using ps r(3) u(1) unfolding run if_P [OF True]
      by (intro exI [of _ "?w\<lparr>vga_column := 0, vga_row := vga_row v + 1\<rparr>"]) (simp add: same_style_def screen_def)
  next
    case False
    then have "vga_column v + 1 < 80" using u(2) n(2) e by (auto simp: word_less_nat_alt)
    then show ?thesis using u(2) ps r unfolding run if_not_P [OF False]
      by (intro exI [of _ ?w]) (simp add: same_style_def screen_def)
  qed
qed

lemma putchar_newline:
  assumes "vga_ok v" "screen v = (p, cs)"
  shows "screen (v\<lparr>vga_row := vga_row v + 1, vga_column := 0\<rparr>) = ((p div 80 + 1) * 80, cs)"
    "vga_row v + 1 < 25 \<or> vga_row v + 1 = 25"
proof -
  have r: "vga_row v < 25" "unat (vga_row v) < 25" "unat (vga_column v) < 80"
    using assms(1) by (simp_all add: vga_ok_def word_less_nat_alt)
  have u: "unat (vga_row v + 1) = unat (vga_row v) + 1" by (rule unat_plus_one [OF r(1)])
  then show "vga_row v + 1 < 25 \<or> vga_row v + 1 = 25" using r(2) by (auto simp: word_less_nat_alt word_unat_eq_iff)
  show "screen (v\<lparr>vga_row := vga_row v + 1, vga_column := 0\<rparr>) = ((p div 80 + 1) * 80, cs)"
    using assms(2) r u by (auto simp: screen_def)
qed

lemma putchar_backspace:
  assumes ok: "vga_ok v" and p: "screen v = (p, cs)" and c: "0 < vga_column v"
  shows "\<exists>v'. (let v = v\<lparr>vga_column := vga_column v - 1\<rparr> in vga_putchar_at 0x20 (vga_color v) (vga_column v) (vga_row v) v) = Some v' \<and>
    vga_ok v' \<and> same_style v v' \<and> screen v' = (p - 1, cs[p - 1 := blank (vga_color v)]) \<and> p mod 80 \<noteq> 0"
proof -
  let ?v = "v\<lparr>vga_column := vga_column v - 1\<rparr>"
  have n: "unat (vga_column v) < 80" "0 < unat (vga_column v)" using ok c by (simp_all add: vga_ok_def word_less_nat_alt)
  have u: "unat (vga_column v - 1) = unat (vga_column v) - 1" using c by (intro unat_pred) auto
  have ok': "vga_ok ?v" using ok n u by (simp add: vga_ok_def word_less_nat_alt)
  have "screen ?v = (p - 1, cs)" using p n u by (auto simp: screen_def)
  moreover have "p mod 80 \<noteq> 0" using p n by (auto simp: screen_def)
  ultimately show ?thesis
    using putchar_at_cursor [OF ok', of "0x20"] ok' by (auto simp: vga_ok_def same_style_def screen_def)
qed

lemma putchar_ok:
  assumes ok: "vga_ok v" and h: "vga_EOF_handler v = Some h"
  shows "\<exists>v'. vga_putchar c v = Some v' \<and> vga_ok v' \<and> same_style v v' \<and>
    screen v' = screen_put h (vga_color v) c (screen v) \<and> crtc_cursor (vga_ports v') = fst (screen v')"
proof -
  obtain p cs where p: "screen v = (p, cs)" by fastforce
  let ?first = "if c = 0x0A then Some (v\<lparr>vga_row := vga_row v + 1, vga_column := 0\<rparr>)
     else if c = 0x08 then
       (if 0 < vga_column v then
          (let v = v\<lparr>vga_column := vga_column v - 1\<rparr>
           in vga_putchar_at 0x20 (vga_color v) (vga_column v) (vga_row v) v)
        else Some v)
     else do {
       v \<leftarrow> vga_putchar_at c (vga_color v) (vga_column v) (vga_row v) v;
       let v = v\<lparr>vga_column := vga_column v + 1\<rparr>;
       Some (if vga_column v = VGA_WIDTH then v\<lparr>vga_column := 0, vga_row := vga_row v + 1\<rparr> else v) }"
  let ?good = "\<lambda>v1. same_style v v1 \<and> length (vga_buffer v1) = 2000 \<and>
    (vga_row v1 < 25 \<and> vga_column v1 < 80 \<or> vga_row v1 = 25 \<and> vga_column v1 = 0) \<and>
    screen_full h (vga_color v) (screen v1) = screen_put h (vga_color v) c (screen v)"
  have "\<exists>v1. ?first = Some v1 \<and> ?good v1"
  proof -
    have ex: "\<exists>v1. ?first = Some v1 \<and> ?good v1" if "?first = Some v1" "?good v1" for v1 using that by blast
    consider "c = 0x0A" | "c = 0x08" "0 < vga_column v" | "c = 0x08" "vga_column v = 0" | "c \<noteq> 0x0A" "c \<noteq> 0x08"
      using word_gt_0 [of "vga_column v"] by (cases "vga_column v = 0"; cases "c = 0x0A"; cases "c = 0x08") auto
    then show ?thesis
    proof cases
      case 1
      then have f: "?first = Some (v\<lparr>vga_row := vga_row v + 1, vga_column := 0\<rparr>)" by simp
      show ?thesis using 1 putchar_newline [OF ok p] ok p by (intro ex [OF f]) (auto simp: same_style_def vga_ok_def)
    next
      case 2
      obtain v' where v': "(let v = v\<lparr>vga_column := vga_column v - 1\<rparr> in vga_putchar_at 0x20 (vga_color v) (vga_column v) (vga_row v) v) = Some v'"
        "vga_ok v'" "same_style v v'" "screen v' = (p - 1, cs[p - 1 := blank (vga_color v)])" "p mod 80 \<noteq> 0"
        using putchar_backspace [OF ok p 2(2)] by blast
      with 2 have f: "?first = Some v'" by simp
      show ?thesis using 2 v'(2-) p by (intro ex [OF f]) (auto simp: vga_ok_def)
    next
      case 3
      then have f: "?first = Some v" by simp
      from 3 p have "p mod 80 = 0" by (auto simp: screen_def)
      then show ?thesis using 3 ok p by (intro ex [OF f]) (auto simp: same_style_def vga_ok_def)
    next
      case 4
      then have f: "?first = do {
         v \<leftarrow> vga_putchar_at c (vga_color v) (vga_column v) (vga_row v) v;
         let v = v\<lparr>vga_column := vga_column v + 1\<rparr>;
         Some (if vga_column v = VGA_WIDTH then v\<lparr>vga_column := 0, vga_row := vga_row v + 1\<rparr> else v) }" by simp
      have sp: "screen_put h (vga_color v) c (screen v) = screen_full h (vga_color v) (p + 1, cs[p := vga_entry c (vga_color v)])"
        using 4 p by simp
      show ?thesis using putchar_store [OF ok 4 p] unfolding f sp
        by (elim exE conjE, intro exI conjI) (assumption | simp only:)+
    qed
  qed
  then obtain v1 where first: "?first = Some v1" and v1: "?good v1" by blast
  then have "vga_EOF_handler v1 = Some h" "vga_color v1 = vga_color v" using h by (auto simp: same_style_def)
  then obtain v2 where v2: "(if vga_row v1 = 25 then call_EOF_handler v1 else Some v1) = Some v2" "same_style v1 v2" "vga_ok v2"
    "screen v2 = screen_put h (vga_color v) c (screen v)"
    using putchar_finish [of v1 h] v1 by auto
  let ?v' = "vga_move_cursor (vga_row v2) (vga_column v2) v2"
  have "vga_putchar c v = Some ?v'" unfolding vga_putchar_def first using v2(1) by simp
  moreover have "crtc_cursor (vga_ports ?v') = fst (screen v2)" using v2(3) by (intro move_cursor_screen) (auto simp: vga_ok_def)
  moreover have "screen ?v' = screen v2" by (simp add: screen_def)
  ultimately show ?thesis using v1 v2 by (auto simp: same_style_def vga_ok_def)
qed

lemma vga_initialize_ok:
  assumes "length (vga_buffer v) = 2000"
  shows "\<exists>v'. vga_initialize v = Some v' \<and> vga_ok v' \<and> screen v' = (0, replicate 2000 (blank 7)) \<and>
    vga_color v' = 7 \<and> vga_EOF_handler v' = Some EOF_vga_clear"
  using assms by (simp add: vga_initialize_def vga_entry_color_def vga_clear_ok vga_ok_def screen_def)

lemma writestring_ok:
  assumes "vga_ok v" "vga_EOF_handler v = Some h"
  shows "\<exists>v'. vga_writestring cs v = Some v' \<and> vga_ok v' \<and> same_style v v' \<and>
    screen v' = fold (screen_put h (vga_color v)) cs (screen v)"
  using assms
proof (induction cs arbitrary: v)
  case (Cons c cs)
  obtain v1 where v1: "vga_putchar c v = Some v1" "vga_ok v1" "same_style v v1" "screen v1 = screen_put h (vga_color v) c (screen v)"
    using putchar_ok [OF Cons.prems] by blast
  then have "vga_EOF_handler v1 = Some h" "vga_color v1 = vga_color v" using Cons.prems(2) by (auto simp: same_style_def)
  with Cons.IH [of v1] v1 show ?case by (auto simp: same_style_def)
qed (simp add: same_style_def)

text \<open>C8. On a well-formed console every character can be written, no access leaves the text
  buffer, and the result is again well formed.  Its cells and cursor are those of the abstract console: newline
  moves to the next line, backspace blanks the cell before the cursor within its line, any other character is
  stored at the cursor with the current colour, and a cursor that leaves the last line calls the installed
  handler, which clears the screen or moves every line up.  The hardware cursor is at the same position, and
  colour and handler stay as they were.\<close>

theorem vga_putchar_refines:
  assumes "vga_ok v" "vga_EOF_handler v = Some h"
  shows "\<exists>v'. vga_putchar c v = Some v' \<and> vga_ok v' \<and> screen v' = screen_put h (vga_color v) c (screen v) \<and>
    crtc_cursor (vga_ports v') = fst (screen v') \<and> vga_color v' = vga_color v \<and> vga_EOF_handler v' = Some h"
  using putchar_ok [OF assms] assms(2) by (auto simp: same_style_def)

definition example_vga :: vga where
  "example_vga = \<lparr>vga_row = 24, vga_column = 79, vga_color = 7, vga_EOF_handler = Some EOF_scroll_down_once,
     vga_buffer = replicate 2000 (blank 7), vga_ports = []\<rparr>"

text \<open>An A in the last cell of the screen: the screen scrolls, and the A is at the end of the line above.\<close>

theorem vga_putchar_refines_witness:
  "\<exists>v'. vga_putchar 0x41 example_vga = Some v' \<and> vga_buffer v' ! 1919 = 0x0741 \<and> crtc_cursor (vga_ports v') = 1920"
proof -
  have ok: "vga_ok example_vga" "vga_EOF_handler example_vga = Some EOF_scroll_down_once"
    by (simp_all add: vga_ok_def example_vga_def)
  have s: "screen example_vga = (1999, replicate 2000 (blank 7))" "vga_color example_vga = 7"
    by (simp_all add: screen_def example_vga_def)
  have "vga_entry 0x41 7 = 0x0741" by (simp add: vga_entry_def)
  then have "screen_put EOF_scroll_down_once 7 0x41 (screen example_vga) =
      (1920, drop 80 ((replicate 2000 (blank 7))[1999 := 0x0741]) @ replicate 80 (blank 7))"
    by (simp add: s)
  with vga_putchar_refines [OF ok, of "0x41"] s show ?thesis by (auto simp: screen_def nth_append)
qed

end
