(* ===== verification/Keyboard.thy ===== *)
theory Keyboard
  imports Prelude
begin

text \<open>
  The keyboard driver (\<open>drivers/keyboard.c\<close>): scan code set 1, modifiers, the translation to ASCII, and the
  ring buffer between the interrupt handler and \<open>keyboard_read\<close>.
\<close>

section \<open>Key codes and events\<close>

text \<open>\<open>keycode_t\<close> is an enumeration; its constants are numbered from 0 on.\<close>

type_synonym keycode = nat

abbreviation (input) KC_NONE :: keycode where "KC_NONE \<equiv> 0"
abbreviation (input) KC_ESC :: keycode where "KC_ESC \<equiv> 1"
abbreviation (input) KC_F1 :: keycode where "KC_F1 \<equiv> 2"
abbreviation (input) KC_F2 :: keycode where "KC_F2 \<equiv> 3"
abbreviation (input) KC_F3 :: keycode where "KC_F3 \<equiv> 4"
abbreviation (input) KC_F4 :: keycode where "KC_F4 \<equiv> 5"
abbreviation (input) KC_F5 :: keycode where "KC_F5 \<equiv> 6"
abbreviation (input) KC_F6 :: keycode where "KC_F6 \<equiv> 7"
abbreviation (input) KC_F7 :: keycode where "KC_F7 \<equiv> 8"
abbreviation (input) KC_F8 :: keycode where "KC_F8 \<equiv> 9"
abbreviation (input) KC_F9 :: keycode where "KC_F9 \<equiv> 10"
abbreviation (input) KC_F10 :: keycode where "KC_F10 \<equiv> 11"
abbreviation (input) KC_F11 :: keycode where "KC_F11 \<equiv> 12"
abbreviation (input) KC_F12 :: keycode where "KC_F12 \<equiv> 13"
abbreviation (input) KC_GRAVE :: keycode where "KC_GRAVE \<equiv> 14"
abbreviation (input) KC_1 :: keycode where "KC_1 \<equiv> 15"
abbreviation (input) KC_2 :: keycode where "KC_2 \<equiv> 16"
abbreviation (input) KC_3 :: keycode where "KC_3 \<equiv> 17"
abbreviation (input) KC_4 :: keycode where "KC_4 \<equiv> 18"
abbreviation (input) KC_5 :: keycode where "KC_5 \<equiv> 19"
abbreviation (input) KC_6 :: keycode where "KC_6 \<equiv> 20"
abbreviation (input) KC_7 :: keycode where "KC_7 \<equiv> 21"
abbreviation (input) KC_8 :: keycode where "KC_8 \<equiv> 22"
abbreviation (input) KC_9 :: keycode where "KC_9 \<equiv> 23"
abbreviation (input) KC_0 :: keycode where "KC_0 \<equiv> 24"
abbreviation (input) KC_MINUS :: keycode where "KC_MINUS \<equiv> 25"
abbreviation (input) KC_EQUAL :: keycode where "KC_EQUAL \<equiv> 26"
abbreviation (input) KC_BSPC :: keycode where "KC_BSPC \<equiv> 27"
abbreviation (input) KC_TAB :: keycode where "KC_TAB \<equiv> 28"
abbreviation (input) KC_Q :: keycode where "KC_Q \<equiv> 29"
abbreviation (input) KC_W :: keycode where "KC_W \<equiv> 30"
abbreviation (input) KC_E :: keycode where "KC_E \<equiv> 31"
abbreviation (input) KC_R :: keycode where "KC_R \<equiv> 32"
abbreviation (input) KC_T :: keycode where "KC_T \<equiv> 33"
abbreviation (input) KC_Y :: keycode where "KC_Y \<equiv> 34"
abbreviation (input) KC_U :: keycode where "KC_U \<equiv> 35"
abbreviation (input) KC_I :: keycode where "KC_I \<equiv> 36"
abbreviation (input) KC_O :: keycode where "KC_O \<equiv> 37"
abbreviation (input) KC_P :: keycode where "KC_P \<equiv> 38"
abbreviation (input) KC_LBR :: keycode where "KC_LBR \<equiv> 39"
abbreviation (input) KC_RBR :: keycode where "KC_RBR \<equiv> 40"
abbreviation (input) KC_ENTER :: keycode where "KC_ENTER \<equiv> 41"
abbreviation (input) KC_LCTRL :: keycode where "KC_LCTRL \<equiv> 42"
abbreviation (input) KC_A :: keycode where "KC_A \<equiv> 43"
abbreviation (input) KC_S :: keycode where "KC_S \<equiv> 44"
abbreviation (input) KC_D :: keycode where "KC_D \<equiv> 45"
abbreviation (input) KC_F :: keycode where "KC_F \<equiv> 46"
abbreviation (input) KC_G :: keycode where "KC_G \<equiv> 47"
abbreviation (input) KC_H :: keycode where "KC_H \<equiv> 48"
abbreviation (input) KC_J :: keycode where "KC_J \<equiv> 49"
abbreviation (input) KC_K :: keycode where "KC_K \<equiv> 50"
abbreviation (input) KC_L :: keycode where "KC_L \<equiv> 51"
abbreviation (input) KC_SEMI :: keycode where "KC_SEMI \<equiv> 52"
abbreviation (input) KC_APOS :: keycode where "KC_APOS \<equiv> 53"
abbreviation (input) KC_BSLASH :: keycode where "KC_BSLASH \<equiv> 54"
abbreviation (input) KC_LSHIFT :: keycode where "KC_LSHIFT \<equiv> 55"
abbreviation (input) KC_Z :: keycode where "KC_Z \<equiv> 56"
abbreviation (input) KC_X :: keycode where "KC_X \<equiv> 57"
abbreviation (input) KC_C :: keycode where "KC_C \<equiv> 58"
abbreviation (input) KC_V :: keycode where "KC_V \<equiv> 59"
abbreviation (input) KC_B :: keycode where "KC_B \<equiv> 60"
abbreviation (input) KC_N :: keycode where "KC_N \<equiv> 61"
abbreviation (input) KC_M :: keycode where "KC_M \<equiv> 62"
abbreviation (input) KC_COMMA :: keycode where "KC_COMMA \<equiv> 63"
abbreviation (input) KC_DOT :: keycode where "KC_DOT \<equiv> 64"
abbreviation (input) KC_SLASH :: keycode where "KC_SLASH \<equiv> 65"
abbreviation (input) KC_RSHIFT :: keycode where "KC_RSHIFT \<equiv> 66"
abbreviation (input) KC_KP_STAR :: keycode where "KC_KP_STAR \<equiv> 67"
abbreviation (input) KC_LALT :: keycode where "KC_LALT \<equiv> 68"
abbreviation (input) KC_SPACE :: keycode where "KC_SPACE \<equiv> 69"
abbreviation (input) KC_CAPS :: keycode where "KC_CAPS \<equiv> 70"
abbreviation (input) KC_HOME :: keycode where "KC_HOME \<equiv> 71"
abbreviation (input) KC_UP :: keycode where "KC_UP \<equiv> 72"
abbreviation (input) KC_PGUP :: keycode where "KC_PGUP \<equiv> 73"
abbreviation (input) KC_LEFT :: keycode where "KC_LEFT \<equiv> 74"
abbreviation (input) KC_RIGHT :: keycode where "KC_RIGHT \<equiv> 75"
abbreviation (input) KC_END :: keycode where "KC_END \<equiv> 76"
abbreviation (input) KC_DOWN :: keycode where "KC_DOWN \<equiv> 77"
abbreviation (input) KC_PGDN :: keycode where "KC_PGDN \<equiv> 78"
abbreviation (input) KC_INS :: keycode where "KC_INS \<equiv> 79"
abbreviation (input) KC_DEL :: keycode where "KC_DEL \<equiv> 80"
abbreviation (input) KC_RCTRL :: keycode where "KC_RCTRL \<equiv> 81"
abbreviation (input) KC_RALT :: keycode where "KC_RALT \<equiv> 82"

record key_mods =
  m_shift :: bool
  m_ctrl :: bool
  m_alt :: bool
  m_caps :: bool

record key_event =
  ev_code :: keycode
  ev_pressed :: bool
  ev_ascii :: u8
  ev_mods :: key_mods

abbreviation (input) KEYBOARD_BUFFER_SIZE :: nat where "KEYBOARD_BUFFER_SIZE \<equiv> 256"

record keyboard =
  s_shift :: bool
  s_ctrl :: bool
  s_alt :: bool
  s_caps :: bool
  s_e0 :: bool
  keyboard_buffer :: "key_event list"
  buffer_head :: u8
  buffer_tail :: u8

section \<open>Translation\<close>

text \<open>The entries of the table that the initialiser does not list are 0, that is \<open>KC_NONE\<close>.\<close>

definition sc1_to_keycode :: "keycode list" where
  "sc1_to_keycode =
     [KC_NONE, KC_ESC, KC_1, KC_2, KC_3, KC_4, KC_5, KC_6, KC_7, KC_8,
      KC_9, KC_0, KC_MINUS, KC_EQUAL, KC_BSPC, KC_TAB, KC_Q, KC_W, KC_E, KC_R,
      KC_T, KC_Y, KC_U, KC_I, KC_O, KC_P, KC_LBR, KC_RBR, KC_ENTER, KC_LCTRL,
      KC_A, KC_S, KC_D, KC_F, KC_G, KC_H, KC_J, KC_K, KC_L, KC_SEMI,
      KC_APOS, KC_GRAVE, KC_LSHIFT, KC_BSLASH, KC_Z, KC_X, KC_C, KC_V, KC_B, KC_N,
      KC_M, KC_COMMA, KC_DOT, KC_SLASH, KC_RSHIFT, KC_KP_STAR, KC_LALT, KC_SPACE, KC_CAPS, KC_F1,
      KC_F2, KC_F3, KC_F4, KC_F5, KC_F6, KC_F7, KC_F8, KC_F9, KC_F10] @ replicate 59 KC_NONE"

definition e0_map :: "u8 \<Rightarrow> keycode" where
  "e0_map sc =
     (if sc = 0x1D then KC_RCTRL
      else if sc = 0x38 then KC_RALT
      else if sc = 0x47 then KC_HOME
      else if sc = 0x48 then KC_UP
      else if sc = 0x49 then KC_PGUP
      else if sc = 0x4B then KC_LEFT
      else if sc = 0x4D then KC_RIGHT
      else if sc = 0x4F then KC_END
      else if sc = 0x50 then KC_DOWN
      else if sc = 0x51 then KC_PGDN
      else if sc = 0x52 then KC_INS
      else if sc = 0x53 then KC_DEL
      else KC_NONE)"

definition letter_from_keycode :: "keycode \<Rightarrow> bool \<Rightarrow> bool \<Rightarrow> u8" where
  "letter_from_keycode kc shift caps =
     (let upper = (shift \<noteq> caps) in
      if kc = KC_A then (if upper then 0x41 else 0x61)
      else if kc = KC_B then (if upper then 0x42 else 0x62)
      else if kc = KC_C then (if upper then 0x43 else 0x63)
      else if kc = KC_D then (if upper then 0x44 else 0x64)
      else if kc = KC_E then (if upper then 0x45 else 0x65)
      else if kc = KC_F then (if upper then 0x46 else 0x66)
      else if kc = KC_G then (if upper then 0x47 else 0x67)
      else if kc = KC_H then (if upper then 0x48 else 0x68)
      else if kc = KC_I then (if upper then 0x49 else 0x69)
      else if kc = KC_J then (if upper then 0x4A else 0x6A)
      else if kc = KC_K then (if upper then 0x4B else 0x6B)
      else if kc = KC_L then (if upper then 0x4C else 0x6C)
      else if kc = KC_M then (if upper then 0x4D else 0x6D)
      else if kc = KC_N then (if upper then 0x4E else 0x6E)
      else if kc = KC_O then (if upper then 0x4F else 0x6F)
      else if kc = KC_P then (if upper then 0x50 else 0x70)
      else if kc = KC_Q then (if upper then 0x51 else 0x71)
      else if kc = KC_R then (if upper then 0x52 else 0x72)
      else if kc = KC_S then (if upper then 0x53 else 0x73)
      else if kc = KC_T then (if upper then 0x54 else 0x74)
      else if kc = KC_U then (if upper then 0x55 else 0x75)
      else if kc = KC_V then (if upper then 0x56 else 0x76)
      else if kc = KC_W then (if upper then 0x57 else 0x77)
      else if kc = KC_X then (if upper then 0x58 else 0x78)
      else if kc = KC_Y then (if upper then 0x59 else 0x79)
      else if kc = KC_Z then (if upper then 0x5A else 0x7A)
      else 0)"

definition symbol_from_keycode :: "keycode \<Rightarrow> bool \<Rightarrow> u8" where
  "symbol_from_keycode kc shift =
     (if kc = KC_1 then (if shift then 0x21 else 0x31)
      else if kc = KC_2 then (if shift then 0x40 else 0x32)
      else if kc = KC_3 then (if shift then 0x23 else 0x33)
      else if kc = KC_4 then (if shift then 0x24 else 0x34)
      else if kc = KC_5 then (if shift then 0x25 else 0x35)
      else if kc = KC_6 then (if shift then 0x5E else 0x36)
      else if kc = KC_7 then (if shift then 0x26 else 0x37)
      else if kc = KC_8 then (if shift then 0x2A else 0x38)
      else if kc = KC_9 then (if shift then 0x28 else 0x39)
      else if kc = KC_0 then (if shift then 0x29 else 0x30)
      else if kc = KC_MINUS then (if shift then 0x5F else 0x2D)
      else if kc = KC_EQUAL then (if shift then 0x2B else 0x3D)
      else if kc = KC_LBR then (if shift then 0x7B else 0x5B)
      else if kc = KC_RBR then (if shift then 0x7D else 0x5D)
      else if kc = KC_BSLASH then (if shift then 0x7C else 0x5C)
      else if kc = KC_SEMI then (if shift then 0x3A else 0x3B)
      else if kc = KC_APOS then (if shift then 0x22 else 0x27)
      else if kc = KC_GRAVE then (if shift then 0x7E else 0x60)
      else if kc = KC_COMMA then (if shift then 0x3C else 0x2C)
      else if kc = KC_DOT then (if shift then 0x3E else 0x2E)
      else if kc = KC_SLASH then (if shift then 0x3F else 0x2F)
      else if kc = KC_SPACE then 0x20
      else 0)"

definition ascii_from_keycode :: "keycode \<Rightarrow> bool \<Rightarrow> bool \<Rightarrow> bool \<Rightarrow> u8" where
  "ascii_from_keycode kc shift caps ctrl =
     (let ch = letter_from_keycode kc shift caps in
      if ch \<noteq> 0 then ch
      else let ch = symbol_from_keycode kc shift in
      if ch \<noteq> 0 then ch
      else if kc = KC_ENTER then 0x0A
      else if kc = KC_TAB then 0x09
      else if kc = KC_BSPC then 0x08
      else if kc = KC_ESC then 27
      else 0)"

definition decode_make :: "u8 \<Rightarrow> keyboard \<Rightarrow> keycode" where
  "decode_make sc k =
     (if s_e0 k then e0_map sc else if sc < 128 then sc1_to_keycode ! unat sc else KC_NONE)"

definition decode_break :: "u8 \<Rightarrow> keyboard \<Rightarrow> keycode" where
  "decode_break sc k = decode_make (sc AND 0x7F) k"

definition apply_modifier :: "keycode \<Rightarrow> bool \<Rightarrow> keyboard \<Rightarrow> keyboard" where
  "apply_modifier kc pressed k =
     (if kc = KC_LSHIFT then k\<lparr>s_shift := pressed\<rparr>
      else if kc = KC_RSHIFT then k\<lparr>s_shift := pressed\<rparr>
      else if kc = KC_LCTRL then k\<lparr>s_ctrl := pressed\<rparr>
      else if kc = KC_RCTRL then k\<lparr>s_ctrl := pressed\<rparr>
      else if kc = KC_LALT then k\<lparr>s_alt := pressed\<rparr>
      else if kc = KC_RALT then k\<lparr>s_alt := pressed\<rparr>
      else if kc = KC_CAPS then (if pressed then k\<lparr>s_caps := \<not> s_caps k\<rparr> else k)
      else k)"

section \<open>The interrupt handler and the reader\<close>

text \<open>The push at the end of \<open>keyboard_callback\<close>.\<close>

definition push_event :: "key_event \<Rightarrow> keyboard \<Rightarrow> keyboard option" where
  "push_event ev k = do {
     buf \<leftarrow> aset (keyboard_buffer k) (unat (buffer_head k)) ev;
     Some (k\<lparr>keyboard_buffer := buf, buffer_head := of_nat ((unat (buffer_head k) + 1) mod KEYBOARD_BUFFER_SIZE)\<rparr>) }"

definition make_event :: "keycode \<Rightarrow> bool \<Rightarrow> keyboard \<Rightarrow> key_event" where
  "make_event kc break_code k =
     \<lparr>ev_code = kc, ev_pressed = \<not> break_code,
      ev_ascii = (if break_code then 0 else ascii_from_keycode kc (s_shift k) (s_caps k) (s_ctrl k)),
      ev_mods = \<lparr>m_shift = s_shift k, m_ctrl = s_ctrl k, m_alt = s_alt k, m_caps = s_caps k\<rparr>\<rparr>"

text \<open>\<open>sc\<close> is the byte that \<open>inb(KBD_DATA)\<close> returns.\<close>

definition keyboard_callback :: "u8 \<Rightarrow> keyboard \<Rightarrow> keyboard option" where
  "keyboard_callback sc k =
     (if sc = 0xE0 then Some (k\<lparr>s_e0 := True\<rparr>)
      else let break_code = (sc AND 0x80 \<noteq> 0);
               kc = (if break_code then decode_break sc k else decode_make sc k) in do {
        k \<leftarrow> (if kc \<noteq> KC_NONE then
                let k = apply_modifier kc (\<not> break_code) k in push_event (make_event kc break_code k) k
              else Some k);
        Some (k\<lparr>s_e0 := False\<rparr>) })"

definition keyboard_read :: "keyboard \<Rightarrow> (key_event option \<times> keyboard) option" where
  "keyboard_read k =
     (if buffer_head k \<noteq> buffer_tail k then do {
        ev \<leftarrow> aget (keyboard_buffer k) (unat (buffer_tail k));
        Some (Some ev, k\<lparr>buffer_tail := of_nat ((unat (buffer_tail k) + 1) mod KEYBOARD_BUFFER_SIZE)\<rparr>) }
      else Some (None, k))"

section \<open>The ring buffer as a queue\<close>

definition kbd_ok :: "keyboard \<Rightarrow> bool" where
  "kbd_ok k \<longleftrightarrow> length (keyboard_buffer k) = 256"

text \<open>The events between tail and head, oldest first.\<close>

definition pending :: "keyboard \<Rightarrow> key_event list" where
  "pending k = map (\<lambda>i. keyboard_buffer k ! unat (buffer_tail k + of_nat i)) [0..<unat (buffer_head k - buffer_tail k)]"

text \<open>The event that a scan code produces, if any.\<close>

definition scan_events :: "u8 \<Rightarrow> keyboard \<Rightarrow> key_event list" where
  "scan_events sc k =
     (if sc = 0xE0 then []
      else let break_code = (sc AND 0x80 \<noteq> 0);
               kc = (if break_code then decode_break sc k else decode_make sc k) in
      if kc \<noteq> KC_NONE then [make_event kc break_code (apply_modifier kc (\<not> break_code) k)] else [])"

lemma of_nat_mod256: "of_nat ((unat w + 1) mod 256) = (w :: u8) + 1"
  by (rule word_unat_eq_iff [THEN iffD2]) (simp add: unat_of_nat unat_word_ariths(1))

lemma unat_u8_less: "unat (w :: u8) < 256"
  using unsigned_less [of w] by simp

lemma apply_modifier_frame [simp]:
  "keyboard_buffer (apply_modifier kc b k) = keyboard_buffer k" "buffer_head (apply_modifier kc b k) = buffer_head k"
  "buffer_tail (apply_modifier kc b k) = buffer_tail k" "s_e0 (apply_modifier kc b k) = s_e0 k"
  by (simp_all add: apply_modifier_def)

lemma pending_cong:
  "keyboard_buffer k' = keyboard_buffer k \<Longrightarrow> buffer_head k' = buffer_head k \<Longrightarrow> buffer_tail k' = buffer_tail k \<Longrightarrow>
     pending k' = pending k"
  by (simp add: pending_def)

lemma unat_of_nat8: "i < 256 \<Longrightarrow> unat (of_nat i :: u8) = i"
  by (simp add: unat_of_nat)

lemma of_nat_inj8: "i < 256 \<Longrightarrow> j < 256 \<Longrightarrow> (of_nat i :: u8) = of_nat j \<longleftrightarrow> i = j"
  by (metis unat_of_nat8)

lemma unat_Suc8: "unat w < 255 \<Longrightarrow> unat (w + 1 :: u8) = Suc (unat w)"
  by (simp add: unat_word_ariths(1))

lemma succ_diff: "h + 1 - t = (h - t) + (1 :: u8)"
  by simp

lemma length_pending: "length (pending k) = unat (buffer_head k - buffer_tail k)"
  by (simp add: pending_def)

text \<open>The slot at the head is not one of the pending slots.\<close>

lemma head_slot_free:
  assumes "i < unat (h - t :: u8)"
  shows "t + of_nat i \<noteq> h"
proof
  assume "t + of_nat i = h"
  then have "h - t = of_nat i" by auto
  moreover have "i < 256" using assms unat_u8_less [of "h - t"] by linarith
  ultimately show False using assms by (simp add: unat_of_nat8)
qed

lemma push_event_eq:
  assumes "kbd_ok k"
  shows "push_event ev k = Some (k\<lparr>keyboard_buffer := (keyboard_buffer k)[unat (buffer_head k) := ev], buffer_head := buffer_head k + 1\<rparr>)"
  using assms unat_u8_less [of "buffer_head k"] of_nat_mod256 [of "buffer_head k"]
  by (simp add: push_event_def kbd_ok_def)

lemma push_pending:
  assumes ok: "kbd_ok k" and len: "length (pending k) < 255"
  obtains k' where "push_event ev k = Some k'" and "kbd_ok k'" and "pending k' = pending k @ [ev]"
proof -
  let ?k = "k\<lparr>keyboard_buffer := (keyboard_buffer k)[unat (buffer_head k) := ev], buffer_head := buffer_head k + 1\<rparr>"
  let ?n = "unat (buffer_head k - buffer_tail k)"
  have n: "unat (buffer_head k + 1 - buffer_tail k) = Suc ?n"
    using len unat_Suc8 [of "buffer_head k - buffer_tail k"] unfolding length_pending succ_diff by simp
  have "unat (buffer_tail k + of_nat i) \<noteq> unat (buffer_head k)" if "i < ?n" for i
    using head_slot_free [OF that] by (simp add: word_unat_eq_iff)
  then have old: "(keyboard_buffer k)[unat (buffer_head k) := ev] ! unat (buffer_tail k + of_nat i) =
      keyboard_buffer k ! unat (buffer_tail k + of_nat i)" if "i < ?n" for i
    using that by (metis nth_list_update_neq)
  have "pending ?k = map (\<lambda>i. (keyboard_buffer k)[unat (buffer_head k) := ev] ! unat (buffer_tail k + of_nat i)) [0..<?n] @
      [(keyboard_buffer k)[unat (buffer_head k) := ev] ! unat (buffer_head k)]"
    by (simp add: pending_def n)
  also have "\<dots> = pending k @ [ev]"
    using ok unat_u8_less [of "buffer_head k"] by (simp add: pending_def kbd_ok_def old)
  finally show thesis using ok by (intro that [of ?k]) (simp_all add: push_event_eq kbd_ok_def)
qed

text \<open>A push into a buffer with 255 pending events moves the head onto the tail.\<close>

lemma push_full:
  assumes ok: "kbd_ok k" and len: "length (pending k) = 255"
  obtains k' where "push_event ev k = Some k'" and "kbd_ok k'" and "pending k' = []"
proof -
  let ?k = "k\<lparr>keyboard_buffer := (keyboard_buffer k)[unat (buffer_head k) := ev], buffer_head := buffer_head k + 1\<rparr>"
  have "buffer_head k - buffer_tail k = of_nat 255" using len unfolding length_pending by (rule eq_of_nat)
  then have "buffer_head k + 1 - buffer_tail k = 0" unfolding succ_diff by simp
  then have "pending ?k = []" by (simp add: pending_def)
  then show thesis using ok by (intro that [of ?k]) (simp_all add: push_event_eq kbd_ok_def)
qed

lemma callback_eq:
  "keyboard_callback sc k =
     (if sc = 0xE0 then Some (k\<lparr>s_e0 := True\<rparr>)
      else let b = (sc AND 0x80 \<noteq> 0); kc = (if b then decode_break sc k else decode_make sc k);
               k' = (if kc \<noteq> KC_NONE then apply_modifier kc (\<not> b) k else k) in
      map_option (\<lambda>k. k\<lparr>s_e0 := False\<rparr>) (case scan_events sc k of [] \<Rightarrow> Some k' | ev # _ \<Rightarrow> push_event ev k'))"
  by (auto simp: keyboard_callback_def scan_events_def Let_def split: bind_splits)

lemma scan_events_cases:
  obtains "scan_events sc k = []" | ev where "scan_events sc k = [ev]" "sc \<noteq> 0xE0"
proof (cases "sc = 0xE0 \<or> (if sc AND 0x80 \<noteq> 0 then decode_break sc k else decode_make sc k) = KC_NONE")
  case True
  then show thesis by (intro that(1)) (auto simp: scan_events_def Let_def split: if_splits)
next
  case False
  then show thesis by (intro that(2) conjI) (simp_all add: scan_events_def Let_def)
qed

text \<open>A byte that produces no event.\<close>

lemma callback_silent:
  assumes ok: "kbd_ok k" and none: "scan_events sc k = []"
  shows "\<exists>k'. keyboard_callback sc k = Some k' \<and> kbd_ok k' \<and> pending k' = pending k"
proof -
  have *: "keyboard_callback sc k = Some k' \<Longrightarrow> kbd_ok k' \<and> pending k' = pending k" for k'
    using ok none pending_cong [of k' k] unfolding callback_eq by (auto simp: Let_def kbd_ok_def split: if_splits)
  have "\<exists>k'. keyboard_callback sc k = Some k'"
    using none unfolding callback_eq by (simp add: Let_def split: if_split)
  with * show ?thesis by blast
qed

lemma callback_pending:
  assumes ok: "kbd_ok k" and room: "length (pending k) < 255"
  obtains k' where "keyboard_callback sc k = Some k'" and "kbd_ok k'" and "pending k' = pending k @ scan_events sc k"
proof (cases rule: scan_events_cases [of sc k])
  case 1
  then show thesis using callback_silent [OF ok 1] that by auto
next
  case (2 ev)
  let ?b = "sc AND 0x80 \<noteq> 0"
  let ?kc = "if ?b then decode_break sc k else decode_make sc k"
  let ?k = "if ?kc \<noteq> KC_NONE then apply_modifier ?kc (\<not> ?b) k else k"
  have p: "pending ?k = pending k" by (rule pending_cong) auto
  have "kbd_ok ?k" using ok by (simp add: kbd_ok_def)
  then obtain k' where k': "push_event ev ?k = Some k'" "kbd_ok k'" "pending k' = pending ?k @ [ev]"
    by (rule push_pending) (use room p in auto)
  show thesis
  proof (rule that)
    show "keyboard_callback sc k = Some (k'\<lparr>s_e0 := False\<rparr>)"
      using 2 k'(1) unfolding callback_eq by (simp only: if_False Let_def list.case option.map)
    show "pending (k'\<lparr>s_e0 := False\<rparr>) = pending k @ scan_events sc k"
      using 2(1) k'(3) p pending_cong [of "k'\<lparr>s_e0 := False\<rparr>" k'] by simp
  qed (use k'(2) in \<open>simp add: kbd_ok_def\<close>)
qed

lemma read_pending:
  assumes ok: "kbd_ok k" and p: "pending k = e # es"
  shows "\<exists>k'. keyboard_read k = Some (Some e, k') \<and> pending k' = es \<and> kbd_ok k'"
proof -
  let ?k = "k\<lparr>buffer_tail := buffer_tail k + 1\<rparr>" and ?d = "buffer_head k - buffer_tail k"
  have d: "?d \<noteq> 0" using p length_pending [of k] by auto
  then have n: "unat ?d = Suc (unat (?d - 1))" by (simp add: unat_pred unat_gt_0 Suc_diff_1)
  have e: "buffer_head k - (buffer_tail k + 1) = ?d - 1" by simp
  have "pending k = keyboard_buffer k ! unat (buffer_tail k) # pending ?k"
    unfolding pending_def n by (simp add: e map_upt_Suc add.assoc del: upt_Suc)
  with p have "e = keyboard_buffer k ! unat (buffer_tail k)" "pending ?k = es" by auto
  moreover have "buffer_head k \<noteq> buffer_tail k" using d by auto
  ultimately show ?thesis using ok unat_u8_less [of "buffer_tail k"] of_nat_mod256 [of "buffer_tail k"]
    by (simp add: keyboard_read_def kbd_ok_def)
qed

lemma read_empty: "pending k = [] \<Longrightarrow> keyboard_read k = Some (None, k)"
  by (auto simp: pending_def keyboard_read_def unat_eq_zero)

section \<open>What a reader of events relies on\<close>

locale event_source =
  fixes poll :: "'s \<Rightarrow> ('e option \<times> 's) option"
    and queue :: "'s \<Rightarrow> 'e list"
    and inv :: "'s \<Rightarrow> bool"
  assumes poll_empty: "inv s \<Longrightarrow> queue s = [] \<Longrightarrow> poll s = Some (None, s)"
    and poll_next: "inv s \<Longrightarrow> queue s = e # es \<Longrightarrow> \<exists>s'. poll s = Some (Some e, s') \<and> queue s' = es \<and> inv s'"
begin

text \<open>A poll returns exactly when the invariant holds, and an event comes from the front.\<close>

lemma poll_total: "inv s \<Longrightarrow> \<exists>r s'. poll s = Some (r, s') \<and> inv s'"
  by (cases "queue s") (use poll_empty poll_next in blast)+

lemma poll_event: "inv s \<Longrightarrow> poll s = Some (Some e, s') \<Longrightarrow> queue s = e # queue s' \<and> inv s'"
  using poll_empty [of s] poll_next [of s] by (cases "queue s") fastforce+

end

interpretation kbd: event_source keyboard_read pending kbd_ok
  by unfold_locales (use read_empty read_pending in blast)+

section \<open>Runs of interrupts and reads\<close>

text \<open>\<open>kbd_run k ps rs k'\<close>: from \<open>k\<close> to \<open>k'\<close> the interrupt handler produced the events \<open>ps\<close> and the reader
  received \<open>rs\<close>, in any interleaving, with room in the buffer at every interrupt.\<close>

inductive kbd_run :: "keyboard \<Rightarrow> key_event list \<Rightarrow> key_event list \<Rightarrow> keyboard \<Rightarrow> bool" where
  start: "kbd_run k [] [] k"
| irq: "kbd_run k ps rs k1 \<Longrightarrow> length (pending k1) < 255 \<Longrightarrow> keyboard_callback sc k1 = Some k2 \<Longrightarrow>
    kbd_run k (ps @ scan_events sc k1) rs k2"
| read: "kbd_run k ps rs k1 \<Longrightarrow> keyboard_read k1 = Some (Some e, k2) \<Longrightarrow> kbd_run k ps (rs @ [e]) k2"

lemma fifo_run:
  assumes "kbd_run k ps rs k'" "kbd_ok k"
  shows "rs @ pending k' = pending k @ ps \<and> kbd_ok k'"
  using assms
proof (induction rule: kbd_run.induct)
  case (irq k ps rs k1 sc k2)
  then have "kbd_ok k1" by simp
  then obtain k' where "keyboard_callback sc k1 = Some k'" "kbd_ok k'" "pending k' = pending k1 @ scan_events sc k1"
    using irq.hyps(2) by (rule callback_pending)
  with irq show ?case by (metis append_assoc option.inject)
next
  case (read k ps rs k1 e k2)
  then have "kbd_ok k1" by simp
  from kbd.poll_event [OF this read.hyps(2)] read show ?case by simp
qed simp

text \<open>C7. The ring buffer is a FIFO queue under every interleaving of interrupts and
  reads that never finds 255 events pending: the events read so far, followed by the pending ones, are the
  initially pending ones followed by those the interrupts produced, each once and in order.\<close>

theorem keyboard_fifo:
  assumes "kbd_run k ps rs k'" "kbd_ok k"
  shows "rs @ pending k' = pending k @ ps \<and> kbd_ok k'"
  using assms by (rule fifo_run)

definition idle_keyboard :: keyboard where
  "idle_keyboard = \<lparr>s_shift = False, s_ctrl = False, s_alt = False, s_caps = False, s_e0 = False,
     keyboard_buffer = replicate 256 \<lparr>ev_code = KC_NONE, ev_pressed = False, ev_ascii = 0,
       ev_mods = \<lparr>m_shift = False, m_ctrl = False, m_alt = False, m_caps = False\<rparr>\<rparr>,
     buffer_head = 0, buffer_tail = 0\<rparr>"

lemma idle_ok: "kbd_ok idle_keyboard" "pending idle_keyboard = []"
  by (simp_all add: kbd_ok_def pending_def idle_keyboard_def)

text \<open>The A key is pressed, and the event is read.\<close>

lemma idle_run:
  obtains k' where "kbd_run idle_keyboard [make_event KC_A False idle_keyboard] [make_event KC_A False idle_keyboard] k'"
proof -
  note ok = idle_ok(1) and p = idle_ok(2)
  have sc: "scan_events 0x1E idle_keyboard = [make_event KC_A False idle_keyboard]"
    by code_simp
  obtain k1 where k1: "keyboard_callback 0x1E idle_keyboard = Some k1" "kbd_ok k1"
    "pending k1 = pending idle_keyboard @ scan_events 0x1E idle_keyboard"
    by (rule callback_pending [OF ok]) (simp_all add: p)
  let ?e = "make_event KC_A False idle_keyboard"
  have "pending k1 = ?e # []" using k1(3) p sc by simp
  then obtain k2 where k2: "keyboard_read k1 = Some (Some ?e, k2)" using read_pending [OF k1(2)] by blast
  have "kbd_run idle_keyboard ([] @ scan_events 0x1E idle_keyboard) [] k1"
    by (rule kbd_run.irq [OF kbd_run.start _ k1(1)]) (simp add: p)
  then have "kbd_run idle_keyboard [?e] ([] @ [?e]) k2"
    unfolding sc by (intro kbd_run.read [OF _ k2]) simp
  then show thesis using that by simp
qed

theorem keyboard_fifo_witness:
  "\<exists>k' e. kbd_run idle_keyboard [e] [e] k' \<and> ev_ascii e = 0x61 \<and> pending k' = []"
proof -
  obtain k' where run: "kbd_run idle_keyboard [make_event KC_A False idle_keyboard] [make_event KC_A False idle_keyboard] k'"
    by (rule idle_run)
  moreover have "ev_ascii (make_event KC_A False idle_keyboard) = 0x61" by code_simp
  ultimately show ?thesis using keyboard_fifo [OF run idle_ok(1)] idle_ok(2) by auto
qed

text \<open>C25. There is no check for a full buffer.  A key event that arrives with 255 events
  pending moves the head onto the tail, so the reader finds the buffer empty: all 256 events are lost.\<close>

theorem keyboard_overflow:
  assumes "kbd_ok k" "length (pending k) = 255" "scan_events sc k = [ev]"
  shows "\<exists>k'. keyboard_callback sc k = Some k' \<and> pending k' = [] \<and> keyboard_read k' = Some (None, k')"
proof -
  let ?b = "sc AND 0x80 \<noteq> 0"
  let ?kc = "if ?b then decode_break sc k else decode_make sc k"
  let ?k = "if ?kc \<noteq> KC_NONE then apply_modifier ?kc (\<not> ?b) k else k"
  have "sc \<noteq> 0xE0" using assms(3) by (auto simp: scan_events_def)
  have "pending ?k = pending k" by (rule pending_cong) auto
  moreover have "kbd_ok ?k" using assms(1) by (simp add: kbd_ok_def)
  ultimately obtain k' where k': "push_event ev ?k = Some k'" "pending k' = []"
    using push_full [of ?k ev] assms(2) by metis
  have "keyboard_callback sc k = Some (k'\<lparr>s_e0 := False\<rparr>)"
    using \<open>sc \<noteq> 0xE0\<close> assms(3) k'(1) unfolding callback_eq by (simp only: if_False Let_def list.case option.map)
  moreover have p: "pending (k'\<lparr>s_e0 := False\<rparr>) = []"
    using k'(2) pending_cong [of "k'\<lparr>s_e0 := False\<rparr>" k'] by simp
  ultimately show ?thesis using read_empty [OF p] by blast
qed

theorem keyboard_overflow_witness:
  "\<exists>k'. keyboard_callback 0x1E (idle_keyboard\<lparr>buffer_head := 255\<rparr>) = Some k' \<and> pending k' = []"
  using keyboard_overflow [of "idle_keyboard\<lparr>buffer_head := 255\<rparr>" "0x1E" "make_event KC_A False idle_keyboard"]
  by (auto simp: kbd_ok_def idle_keyboard_def length_pending scan_events_def decode_make_def sc1_to_keycode_def
      apply_modifier_def make_event_def)

section \<open>The keyboard layout\<close>

text \<open>The US layout as rows of keys: the key code, the character, the character with shift.  Caps lock acts on the
  letters.\<close>

definition us_keys :: "(keycode \<times> u8 \<times> u8) list" where
  "us_keys =
     zip [KC_GRAVE..<KC_BSPC] (zip (map of_char (CHR 0x60 # ''1234567890-='')) (map of_char (CHR 0x7E # ''!@#$%^&*()_+''))) @
     zip [KC_Q..<KC_ENTER] (zip (map of_char ''qwertyuiop[]'') (map of_char ''QWERTYUIOP{}'')) @
     zip [KC_A..<KC_LSHIFT] (zip (map of_char (''asdfghjkl;'' @ [CHR 0x27, CHR 0x5C])) (map of_char (''ASDFGHJKL:'' @ [CHR 0x22, CHR 0x7C]))) @
     zip [KC_Z..<KC_RSHIFT] (zip (map of_char ''zxcvbnm,./'') (map of_char ''ZXCVBNM<>?'')) @
     [(KC_SPACE, 0x20, 0x20), (KC_ENTER, 0x0A, 0x0A), (KC_TAB, 0x09, 0x09), (KC_BSPC, 0x08, 0x08), (KC_ESC, 0x1B, 0x1B)]"

definition is_letter :: "u8 \<Rightarrow> bool" where
  "is_letter c \<longleftrightarrow> 0x61 \<le> c \<and> c \<le> 0x7A"

definition us_char :: "keycode \<Rightarrow> bool \<Rightarrow> bool \<Rightarrow> u8" where
  "us_char kc shift caps = (case map_of us_keys kc of None \<Rightarrow> 0
     | Some (c, d) \<Rightarrow> if (if is_letter c then shift \<noteq> caps else shift) then d else c)"

lemma us_keys_list: "us_keys =
    [(14, 0x60, 0x7E), (15, 0x31, 0x21), (16, 0x32, 0x40), (17, 0x33, 0x23), (18, 0x34, 0x24), (19, 0x35, 0x25),
     (20, 0x36, 0x5E), (21, 0x37, 0x26), (22, 0x38, 0x2A), (23, 0x39, 0x28), (24, 0x30, 0x29), (25, 0x2D, 0x5F),
     (26, 0x3D, 0x2B), (29, 0x71, 0x51), (30, 0x77, 0x57), (31, 0x65, 0x45), (32, 0x72, 0x52), (33, 0x74, 0x54),
     (34, 0x79, 0x59), (35, 0x75, 0x55), (36, 0x69, 0x49), (37, 0x6F, 0x4F), (38, 0x70, 0x50), (39, 0x5B, 0x7B),
     (40, 0x5D, 0x7D), (43, 0x61, 0x41), (44, 0x73, 0x53), (45, 0x64, 0x44), (46, 0x66, 0x46), (47, 0x67, 0x47),
     (48, 0x68, 0x48), (49, 0x6A, 0x4A), (50, 0x6B, 0x4B), (51, 0x6C, 0x4C), (52, 0x3B, 0x3A), (53, 0x27, 0x22),
     (54, 0x5C, 0x7C), (56, 0x7A, 0x5A), (57, 0x78, 0x58), (58, 0x63, 0x43), (59, 0x76, 0x56), (60, 0x62, 0x42),
     (61, 0x6E, 0x4E), (62, 0x6D, 0x4D), (63, 0x2C, 0x3C), (64, 0x2E, 0x3E), (65, 0x2F, 0x3F), (69, 0x20, 0x20),
     (41, 0x0A, 0x0A), (28, 0x09, 0x09), (27, 0x08, 0x08), (1, 0x1B, 0x1B)]"
  by code_simp

text \<open>The translation of the driver, key by key.\<close>

lemma ascii_us: "ascii_from_keycode kc shift caps ctrl = us_char kc shift caps"
proof (cases "kc \<in> fst ` set us_keys")
  case True
  have "list_all (\<lambda>(k, c, d). \<forall>shift caps. ascii_from_keycode k shift caps ctrl =
      (if (if is_letter c then shift \<noteq> caps else shift) then d else c)) us_keys"
    unfolding us_keys_list by (simp add: ascii_from_keycode_def letter_from_keycode_def symbol_from_keycode_def is_letter_def)
  moreover obtain c d where "map_of us_keys kc = Some (c, d)" using True by (metis map_of_eq_None_iff not_None_eq surj_pair)
  ultimately show ?thesis using map_of_SomeD [of us_keys kc "(c, d)"] by (auto simp: list_all_iff us_char_def)
next
  case False
  then have "map_of us_keys kc = None" by (simp add: map_of_eq_None_iff)
  moreover have "ascii_from_keycode kc shift caps ctrl = 0"
    using False unfolding us_keys_list by (simp add: ascii_from_keycode_def letter_from_keycode_def symbol_from_keycode_def)
  ultimately show ?thesis by (simp add: us_char_def)
qed

text \<open>An event that says what the key is: its character on the US layout under the modifiers the event carries when
  it is pressed, and no character when it is released.\<close>

definition event_ok :: "key_event \<Rightarrow> bool" where
  "event_ok ev \<longleftrightarrow> ev_code ev \<noteq> KC_NONE \<and>
     ev_ascii ev = (if ev_pressed ev then us_char (ev_code ev) (m_shift (ev_mods ev)) (m_caps (ev_mods ev)) else 0)"

lemma make_event_ok: "kc \<noteq> KC_NONE \<Longrightarrow> event_ok (make_event kc b k)"
  by (simp add: make_event_def event_ok_def ascii_us)

lemma scan_events_ok: "ev \<in> set (scan_events sc k) \<Longrightarrow> event_ok ev"
  by (auto simp: scan_events_def Let_def make_event_ok simp del: neq0_conv split: if_splits)

section \<open>Every sequence of interrupts and reads\<close>

datatype kbd_step = Irq u8 | Poll

primrec kbd_steps :: "kbd_step list \<Rightarrow> keyboard \<Rightarrow> (key_event list \<times> keyboard) option" where
  "kbd_steps [] k = Some ([], k)"
| "kbd_steps (x # xs) k = (case x of
     Irq sc \<Rightarrow> do { k \<leftarrow> keyboard_callback sc k; kbd_steps xs k }
   | Poll \<Rightarrow> do {
       (r, k) \<leftarrow> keyboard_read k;
       (rs, k) \<leftarrow> kbd_steps xs k;
       Some (case r of None \<Rightarrow> rs | Some ev \<Rightarrow> ev # rs, k) })"

text \<open>The handler in every state, a full buffer included.\<close>

lemma callback_total:
  assumes ok: "kbd_ok k" and ev: "\<forall>ev \<in> set (pending k). event_ok ev"
  shows "\<exists>k'. keyboard_callback sc k = Some k' \<and> kbd_ok k' \<and> (\<forall>ev \<in> set (pending k'). event_ok ev)"
proof (cases "length (pending k) < 255")
  case True
  obtain k' where "keyboard_callback sc k = Some k'" "kbd_ok k'" "pending k' = pending k @ scan_events sc k"
    by (rule callback_pending [OF ok True])
  then show ?thesis using ev scan_events_ok by auto
next
  case False
  then have full: "length (pending k) = 255" using unat_u8_less [of "buffer_head k - buffer_tail k"] by (simp add: length_pending)
  let ?b = "sc AND 0x80 \<noteq> 0"
  let ?kc = "if ?b then decode_break sc k else decode_make sc k"
  let ?k = "if ?kc \<noteq> KC_NONE then apply_modifier ?kc (\<not> ?b) k else k"
  have p: "pending ?k = pending k" by (rule pending_cong) auto
  have ok': "kbd_ok ?k" using ok by (simp add: kbd_ok_def)
  show ?thesis
  proof (cases rule: scan_events_cases [of sc k])
    case 1
    then show ?thesis using callback_silent [OF ok 1] ev by metis
  next
    case (2 e)
    obtain k' where k': "push_event e ?k = Some k'" "kbd_ok k'" "pending k' = []"
      by (rule push_full [OF ok']) (use full p in auto)
    have "keyboard_callback sc k = Some (k'\<lparr>s_e0 := False\<rparr>)"
      using 2 k'(1) unfolding callback_eq by (simp only: if_False Let_def list.case option.map)
    moreover have "pending (k'\<lparr>s_e0 := False\<rparr>) = []" using k'(3) pending_cong [of "k'\<lparr>s_e0 := False\<rparr>" k'] by simp
    ultimately show ?thesis using k'(2) by (simp add: kbd_ok_def)
  qed
qed

lemma steps_ok:
  "kbd_ok k \<Longrightarrow> \<forall>ev \<in> set (pending k). event_ok ev \<Longrightarrow>
    \<exists>rs k'. kbd_steps xs k = Some (rs, k') \<and> kbd_ok k' \<and> (\<forall>ev \<in> set rs. event_ok ev)"
proof (induction xs arbitrary: k)
  case (Cons x xs)
  show ?case
  proof (cases x)
    case (Irq sc)
    then show ?thesis using callback_total [OF Cons.prems, of sc] Cons.IH by fastforce
  next
    case Poll
    show ?thesis
    proof (cases "pending k")
      case Nil
      then show ?thesis using Poll read_empty [OF Nil] Cons.IH [OF Cons.prems] by auto
    next
      case (Cons e es)
      obtain k' where k': "keyboard_read k = Some (Some e, k')" "pending k' = es" "kbd_ok k'"
        using read_pending [OF Cons.prems(1) Cons] by blast
      then show ?thesis using Poll Cons.IH [OF k'(3)] Cons.prems(2) Cons by auto
    qed
  qed
qed simp

text \<open>C26. Whatever bytes the controller delivers and however interrupts and reads alternate, also
  when the buffer overflows, the driver keeps its invariant and every event read has a key code and the right
  character: the one of the US layout for the shift and caps lock state in the event on a press, 0 on a release.  The
  control key has no influence on the character.\<close>

theorem keyboard_events_ok:
  assumes "kbd_ok k" "pending k = []"
  shows "\<exists>rs k'. kbd_steps xs k = Some (rs, k') \<and> kbd_ok k' \<and> (\<forall>ev \<in> set rs. ev_code ev \<noteq> KC_NONE \<and>
     ev_ascii ev = (if ev_pressed ev then us_char (ev_code ev) (m_shift (ev_mods ev)) (m_caps (ev_mods ev)) else 0))"
  using steps_ok [OF assms(1), of xs] assms(2) by (simp add: event_ok_def)

text \<open>Control and A pressed, both released: the character is a small a, not the control code 1.\<close>

theorem keyboard_events_ok_witness:
  "\<exists>rs k'. kbd_steps [Irq 0x1D, Irq 0x1E, Irq 0x9E, Irq 0x9D, Poll, Poll, Poll, Poll, Poll] idle_keyboard = Some (rs, k') \<and>
     (\<forall>ev \<in> set rs. ev_code ev \<noteq> KC_NONE) \<and>
     map (\<lambda>ev. (ev_code ev, ev_pressed ev, ev_ascii ev, m_ctrl (ev_mods ev))) rs =
       [(KC_LCTRL, True, 0, True), (KC_A, True, 0x61, True), (KC_A, False, 0, True), (KC_LCTRL, False, 0, False)]"
proof -
  let ?xs = "[Irq 0x1D, Irq 0x1E, Irq 0x9E, Irq 0x9D, Poll, Poll, Poll, Poll, Poll]"
  have "map_option (\<lambda>(rs, _). map (\<lambda>ev. (ev_code ev, ev_pressed ev, ev_ascii ev, m_ctrl (ev_mods ev))) rs) (kbd_steps ?xs idle_keyboard) =
      Some [(KC_LCTRL, True, 0, True), (KC_A, True, 0x61, True), (KC_A, False, 0, True), (KC_LCTRL, False, 0, False)]"
    by code_simp
  then show ?thesis using keyboard_events_ok [OF idle_ok, of ?xs] by auto
qed

end
