(* ===== verification/Stdio.thy ===== *)
theory Stdio
  imports Vga Keyboard
begin

text \<open>
  Formatted output and the terminal: \<open>lib/stdio.c\<close> and \<open>prog/terminal.c\<close>.  The active interface is a record
  of functions on the console, each possibly null.  The arguments of \<open>printf\<close> are a list of words and strings;
  reading an argument of the wrong kind or past the last one, and reading the format past its NUL, are undefined
  (\<open>None\<close>).
\<close>

section \<open>lib/stdio.c\<close>

record stdio_interface =
  if_init :: "(vga \<Rightarrow> vga option) option"
  if_clear :: "(vga \<Rightarrow> vga option) option"
  if_putc :: "(u8 \<Rightarrow> vga \<Rightarrow> vga option) option"
  if_puts :: "(u8 list \<Rightarrow> vga \<Rightarrow> vga option) option"

record console =
  con_vga :: vga
  active_interface :: stdio_interface

abbreviation (input) STD_COLOR_GREEN :: u32 where "STD_COLOR_GREEN \<equiv> 2"
abbreviation (input) STD_COLOR_RED :: u32 where "STD_COLOR_RED \<equiv> 4"
abbreviation (input) STD_COLOR_MAGENTA :: u32 where "STD_COLOR_MAGENTA \<equiv> 5"

definition set_color :: "u32 \<Rightarrow> console \<Rightarrow> console" where
  "set_color color con = con\<lparr>con_vga := vga_set_color (ucast color) (con_vga con)\<rparr>"

text \<open>A non-null member of the new interface replaces the active one.\<close>

definition override :: "'a option \<Rightarrow> 'a option \<Rightarrow> 'a option" where
  "override new old = (case new of None \<Rightarrow> old | Some f \<Rightarrow> Some f)"

definition stdio_set_interface :: "stdio_interface option \<Rightarrow> console \<Rightarrow> console" where
  "stdio_set_interface interface con = (case interface of None \<Rightarrow> con | Some i \<Rightarrow>
     (let a = active_interface con
      in con\<lparr>active_interface := \<lparr>if_init = override (if_init i) (if_init a), if_clear = override (if_clear i) (if_clear a),
           if_putc = override (if_putc i) (if_putc a), if_puts = override (if_puts i) (if_puts a)\<rparr>\<rparr>))"

definition stdio_init :: "console \<Rightarrow> console option" where
  "stdio_init con = (case if_init (active_interface con) of
       Some init \<Rightarrow> do { v \<leftarrow> init (con_vga con); Some (con\<lparr>con_vga := v\<rparr>) }
     | None \<Rightarrow> do {
         let con = con\<lparr>active_interface := \<lparr>if_init = Some vga_initialize, if_clear = Some vga_clear,
           if_putc = Some vga_putchar, if_puts = Some vga_writestring\<rparr>\<rparr>;
         v \<leftarrow> vga_initialize (con_vga con);
         Some (con\<lparr>con_vga := v\<rparr>) })"

definition stdio_clear :: "console \<Rightarrow> console option" where
  "stdio_clear con = (case if_clear (active_interface con) of
       Some clear \<Rightarrow> do { v \<leftarrow> clear (con_vga con); Some (con\<lparr>con_vga := v\<rparr>) }
     | None \<Rightarrow> Some con)"

definition putc :: "u8 \<Rightarrow> console \<Rightarrow> console option" where
  "putc c con = (case if_putc (active_interface con) of
       Some f \<Rightarrow> do { v \<leftarrow> f c (con_vga con); Some (con\<lparr>con_vga := v\<rparr>) }
     | None \<Rightarrow> Some con)"

definition puts :: "u8 list \<Rightarrow> console \<Rightarrow> console option" where
  "puts str con = (case if_puts (active_interface con) of
       Some f \<Rightarrow> do { v \<leftarrow> f str (con_vga con); Some (con\<lparr>con_vga := v\<rparr>) }
     | None \<Rightarrow> Some con)"

subsection \<open>printf\<close>

datatype va = Va_int u32 | Va_str "u8 list"

fun va_int :: "va list \<Rightarrow> (u32 \<times> va list) option" where
  "va_int (Va_int w # args) = Some (w, args)"
| "va_int _ = None"

fun va_str :: "va list \<Rightarrow> (u8 list \<times> va list) option" where
  "va_str (Va_str s # args) = Some (s, args)"
| "va_str _ = None"

text \<open>The digit loops of \<open>%d\<close> and \<open>%x\<close> fill the buffer with the low digits first.\<close>

function dec_digits :: "int \<Rightarrow> u8 list \<Rightarrow> nat \<Rightarrow> (u8 list \<times> nat) option" where
  "dec_digits val buffer len = do {
     buffer \<leftarrow> aset buffer len (of_int (val mod 10) + 0x30);
     if 0 < val div 10 then dec_digits (val div 10) buffer (len + 1) else Some (buffer, len + 1) }"
  by pat_completeness auto
termination by (relation "measure (\<lambda>(val, _). nat val)") auto

declare dec_digits.simps [simp del]

function hex_digits :: "u32 \<Rightarrow> u8 list \<Rightarrow> nat \<Rightarrow> (u8 list \<times> nat) option" where
  "hex_digits val buffer len = do {
     let digit = val mod 16;
     buffer \<leftarrow> aset buffer len (if digit < 10 then ucast digit + 0x30 else ucast (digit - 10) + 0x61);
     if 0 < val div 16 then hex_digits (val div 16) buffer (len + 1) else Some (buffer, len + 1) }"
  by pat_completeness auto
termination
proof (relation "measure (\<lambda>(val, _). unat val)", goal_cases)
  case (2 val buffer len)
  then have "unat (val div 16) \<noteq> 0" by (simp add: word_gt_0 unat_eq_zero)
  then show ?case by (simp add: unat_div)
qed simp

declare hex_digits.simps [simp del]

primrec print_back :: "nat \<Rightarrow> u8 list \<Rightarrow> u32 \<Rightarrow> console \<Rightarrow> (u32 \<times> console) option" where
  "print_back 0 buffer count con = Some (count, con)"
| "print_back (Suc i) buffer count con = do {
     c \<leftarrow> aget buffer i;
     con \<leftarrow> putc c con;
     print_back i buffer (count + 1) con }"

definition printf_d :: "u32 \<Rightarrow> u32 \<Rightarrow> console \<Rightarrow> (u32 \<times> console) option" where
  "printf_d w count con = do {
     let val = sint w;
     let buffer = replicate 20 0;
     (val, count, con) \<leftarrow> (if val < 0 then do {
         con \<leftarrow> putc 0x2D con;
         val \<leftarrow> (if val = - (2 ^ 31) then None else Some (- val));
         Some (val, count + 1, con) }
       else Some (val, count, con));
     (buffer, len) \<leftarrow> dec_digits val buffer 0;
     print_back len buffer count con }"

definition printf_x :: "u32 \<Rightarrow> u32 \<Rightarrow> console \<Rightarrow> (u32 \<times> console) option" where
  "printf_x val count con = do {
     let buffer = replicate 20 0;
     (buffer, len) \<leftarrow> hex_digits val buffer 0;
     print_back len buffer count con }"

text \<open>The loop over the format; \<open>count\<close> is the 32-bit counter of the characters written.\<close>

fun printf_loop :: "string \<Rightarrow> va list \<Rightarrow> u32 \<Rightarrow> console \<Rightarrow> (u32 \<times> console) option" where
  "printf_loop [] args count con = Some (count, con)"
| "printf_loop (p # ps) args count con =
     (if p = CHR ''%'' then
        (case ps of [] \<Rightarrow> None
         | q # ps \<Rightarrow>
           if q = CHR ''c'' then do {
             (val, args) \<leftarrow> va_int args;
             con \<leftarrow> putc (ucast val) con;
             printf_loop ps args (count + 1) con }
           else if q = CHR ''s'' then do {
             (val, args) \<leftarrow> va_str args;
             con \<leftarrow> puts val con;
             printf_loop ps args (count + of_nat (length val)) con }
           else if q = CHR ''d'' then do {
             (val, args) \<leftarrow> va_int args;
             (count, con) \<leftarrow> printf_d val count con;
             printf_loop ps args count con }
           else if q = CHR ''x'' then do {
             (val, args) \<leftarrow> va_int args;
             (count, con) \<leftarrow> printf_x val count con;
             printf_loop ps args count con }
           else if q = CHR ''o'' then do {
             (color, args) \<leftarrow> va_int args;
             printf_loop ps args count (set_color color con) }
           else if q = CHR ''%'' then do {
             con \<leftarrow> putc (of_char CHR ''%'') con;
             printf_loop ps args (count + 1) con }
           else do {
             con \<leftarrow> putc (of_char CHR ''%'') con;
             con \<leftarrow> putc (of_char q) con;
             printf_loop ps args (count + 2) con })
      else do {
        con \<leftarrow> putc (of_char p) con;
        printf_loop ps args (count + 1) con })"

definition printf :: "string \<Rightarrow> va list \<Rightarrow> console \<Rightarrow> (u32 \<times> console) option" where
  "printf format args con = do {
     let color = vga_get_color (con_vga con);
     (count, con) \<leftarrow> printf_loop format args 0 con;
     Some (count, con\<lparr>con_vga := vga_set_color color (con_vga con)\<rparr>) }"

section \<open>prog/terminal.c\<close>

definition vga_interface :: stdio_interface where
  "vga_interface = \<lparr>if_init = Some vga_initialize, if_clear = Some vga_clear, if_putc = Some vga_putchar,
     if_puts = Some vga_writestring\<rparr>"

definition is_printable_ascii :: "u8 \<Rightarrow> bool" where
  "is_printable_ascii ascii \<longleftrightarrow> 0x20 \<le> ascii \<and> ascii \<le> 0x7E"

definition handle_non_printable_ascii :: "u8 \<Rightarrow> console \<Rightarrow> console option" where
  "handle_non_printable_ascii ascii con =
     (if ascii = 0x0A then putc 0x0A con
      else if ascii = 0x08 then putc 0x08 con
      else putc (of_char CHR ''?'') con)"

definition terminal_initialize :: "console \<Rightarrow> console option" where
  "terminal_initialize con = do {
     let con = stdio_set_interface (Some vga_interface) con;
     con \<leftarrow> stdio_init con;
     let con = con\<lparr>con_vga := vga_set_eof_handler (Some EOF_scroll_down_once) (con_vga con)\<rparr>;
     (_, con) \<leftarrow> printf (''%oWelcome to Iddo and Hillel amazing os!!!!'' @ [CHR 0x0A]) [Va_int STD_COLOR_MAGENTA] con;
     Some con }"

definition terminal_handle_keypress :: "key_event \<Rightarrow> console \<Rightarrow> console option" where
  "terminal_handle_keypress event con =
     (if ev_pressed event \<and> ev_ascii event \<noteq> 0 then
        if is_printable_ascii (ev_ascii event) then putc (ev_ascii event) con
        else handle_non_printable_ascii (ev_ascii event) con
      else Some con)"

section \<open>Numbers\<close>

text \<open>The digits of a number, lowest first.\<close>

function digits :: "nat \<Rightarrow> nat \<Rightarrow> nat list" where
  "digits b n = (if b < 2 \<or> n < b then [n] else n mod b # digits b (n div b))"
  by pat_completeness auto
termination by (relation "measure snd") (auto simp: div_less_dividend)

declare digits.simps [simp del]

lemma digits_value: "2 \<le> b \<Longrightarrow> foldr (\<lambda>d a. d + b * a) (digits b n) 0 = n"
  by (induction b n rule: digits.induct) (subst digits.simps, auto)

lemma digits_less: "2 \<le> b \<Longrightarrow> d \<in> set (digits b n) \<Longrightarrow> d < b"
  by (induction b n rule: digits.induct) (subst (asm) (2) digits.simps, auto split: if_splits)

lemma digits_length: "2 \<le> b \<Longrightarrow> n < b ^ Suc k \<Longrightarrow> length (digits b n) \<le> Suc k"
proof (induction k arbitrary: n)
  case 0
  then show ?case by (subst digits.simps) simp
next
  case (Suc k)
  then have "n div b < b ^ Suc k" by (simp add: less_mult_imp_div_less mult.commute)
  with Suc show ?case by (subst digits.simps) simp
qed

text \<open>The characters of a digit, and the number a numeral stands for.\<close>

definition dec_char :: "nat \<Rightarrow> u8" where
  "dec_char d = of_nat d + 0x30"

definition hex_char :: "nat \<Rightarrow> u8" where
  "hex_char d = (if d < 10 then of_nat d + 0x30 else of_nat (d - 10) + 0x61)"

definition char_digit :: "u8 \<Rightarrow> nat" where
  "char_digit c = (if c < 0x61 then unat (c - 0x30) else unat (c - 0x61) + 10)"

definition read_numeral :: "nat \<Rightarrow> u8 list \<Rightarrow> nat" where
  "read_numeral b cs = foldl (\<lambda>a c. a * b + char_digit c) 0 cs"

definition read_decimal :: "u8 list \<Rightarrow> int" where
  "read_decimal cs = (case cs of [] \<Rightarrow> 0 | c # ds \<Rightarrow> if c = 0x2D then - int (read_numeral 10 ds) else int (read_numeral 10 cs))"

lemma char_digit_dec [simp]: "d < 10 \<Longrightarrow> char_digit (dec_char d) = d"
proof -
  assume "d < 10"
  then have "unat (of_nat d + 0x30 :: u8) = d + 0x30"
    by (subst unat_plus_no_wrap) (simp_all add: unat_of_nat)
  with \<open>d < 10\<close> show ?thesis by (simp add: char_digit_def dec_char_def word_less_nat_alt unat_of_nat)
qed

lemma char_digit_letter: "e < 6 \<Longrightarrow> char_digit (of_nat e + 0x61) = e + 10"
proof -
  assume "e < 6"
  then have "unat (of_nat e + 0x61 :: u8) = e + 0x61"
    by (subst unat_plus_no_wrap) (simp_all add: unat_of_nat)
  with \<open>e < 6\<close> show ?thesis by (simp add: char_digit_def word_less_nat_alt unat_of_nat)
qed

lemma char_digit_hex [simp]: "d < 16 \<Longrightarrow> char_digit (hex_char d) = d"
  using char_digit_dec [of d] char_digit_letter [of "d - 10"] unfolding hex_char_def dec_char_def
  by (cases "d < 10") (simp_all del: of_nat_diff)

lemma read_numeral_digits:
  assumes "2 \<le> b" "\<And>d. d < b \<Longrightarrow> char_digit (f d) = d"
  shows "read_numeral b (rev (map f (digits b n))) = n"
proof -
  have "foldr (\<lambda>c a. a * b + char_digit c) (map f ds) 0 = foldr (\<lambda>d a. d + b * a) ds 0" if "\<forall>d \<in> set ds. d < b" for ds
    using that by (induction ds) (auto simp: assms(2) mult.commute)
  from this [of "digits b n"] show ?thesis
    using digits_less [OF assms(1)] digits_value [OF assms(1), of n] by (simp add: read_numeral_def foldl_conv_foldr rev_map)
qed

text \<open>Writing a list into a buffer from an index on.\<close>

definition fill :: "nat \<Rightarrow> 'a list \<Rightarrow> 'a list \<Rightarrow> 'a list" where
  "fill i xs b = take i b @ xs @ drop (i + length xs) b"

lemma fill_Cons: "i < length b \<Longrightarrow> fill (Suc i) xs (b[i := x]) = fill i (x # xs) b"
  by (simp add: fill_def take_Suc_conv_app_nth)

lemma dec_digits_ok:
  "len + length (digits 10 n) \<le> length buf \<Longrightarrow>
    dec_digits (int n) buf len = Some (fill len (map dec_char (digits 10 n)) buf, len + length (digits 10 n))"
proof (induction "10 :: nat" n arbitrary: buf len rule: digits.induct)
  case (1 n)
  have m: "int n mod 10 = int (n mod 10)" "int n div 10 = int (n div 10)" by (simp_all add: zdiv_int zmod_int)
  show ?case
  proof (cases "n < 10")
    case True
    with 1(2) show ?thesis
      by (subst dec_digits.simps, subst (asm) digits.simps, subst (1 2) digits.simps)
        (simp add: fill_Cons [where xs = "[]", simplified] m dec_char_def fill_def take_Suc_conv_app_nth upd_conv_take_nth_drop)
  next
    case False
    have d: "digits 10 n = n mod 10 # digits 10 (n div 10)" using False by (subst digits.simps) simp
    have l: "len < length buf" "Suc len + length (digits 10 (n div 10)) \<le> length (buf[len := dec_char (n mod 10)])"
      using 1(2) unfolding d by simp_all
    from 1(1) [OF _ l(2)] False have
      "dec_digits (int (n div 10)) (buf[len := dec_char (n mod 10)]) (Suc len) =
        Some (fill len (map dec_char (digits 10 n)) buf, len + length (digits 10 n))"
      using l(1) by (simp add: fill_Cons d)
    moreover have "0 < int n div 10" using False by (simp add: m div_greater_zero_iff)
    ultimately show ?thesis using l(1) by (subst dec_digits.simps) (simp add: m dec_char_def)
  qed
qed

lemma unat_numeral_10: "unat (10 :: u32) = 10"
  by simp

lemma hex_digits_ok:
  "len + length (digits 16 (unat w)) \<le> length buf \<Longrightarrow>
    hex_digits w buf len = Some (fill len (map hex_char (digits 16 (unat w))) buf, len + length (digits 16 (unat w)))"
proof (induction "unat w" arbitrary: w buf len rule: less_induct)
  case less
  have m: "unat (w mod 16) = unat w mod 16" "unat (w div 16) = unat w div 16" by (simp_all add: unat_mod unat_div)
  have c: "(if w mod 16 < 10 then ucast (w mod 16) + 0x30 else ucast (w mod 16 - 10) + 0x61) = hex_char (unat w mod 16)"
  proof -
    have "ucast (w mod 16) = (of_nat (unat w mod 16) :: u8)" by (metis m(1) of_nat_unat)
    moreover have "ucast (w mod 16 - 10) = (of_nat (unat w mod 16 - 10) :: u8)" if "\<not> w mod 16 < 10"
    proof -
      have "unat (w mod 16 - 10) = unat (w mod 16) - unat (10 :: u32)" using that by (intro unat_sub) simp
      then show ?thesis using m(1) by (metis of_nat_unat unat_numeral_10)
    qed
    ultimately show ?thesis by (simp add: hex_char_def word_less_nat_alt m)
  qed
  show ?case
  proof (cases "unat w < 16")
    case True
    then have "w div 16 = 0" "digits 16 (unat w) = [unat w]" "unat w mod 16 = unat w"
      using m by (simp_all add: unat_eq_zero [symmetric] digits.simps)
    with less(2) show ?thesis
      by (subst hex_digits.simps) (simp add: Let_def c fill_def upd_conv_take_nth_drop)
  next
    case False
    have d: "digits 16 (unat w) = unat w mod 16 # digits 16 (unat (w div 16))" using False m by (subst digits.simps) simp
    have l: "len < length buf" "Suc len + length (digits 16 (unat (w div 16))) \<le> length (buf[len := hex_char (unat w mod 16)])"
      using less(2) unfolding d by simp_all
    have "unat (w div 16) < unat w" using False m by simp
    from less(1) [OF this l(2)] have
      "hex_digits (w div 16) (buf[len := hex_char (unat w mod 16)]) (Suc len) =
        Some (fill len (map hex_char (digits 16 (unat w))) buf, len + length (digits 16 (unat w)))"
      using l(1) by (simp add: fill_Cons d)
    moreover have "0 < w div 16" using False m by (simp add: word_gt_0 word_unat_eq_iff)
    ultimately show ?thesis using l(1) by (subst hex_digits.simps) (simp add: c Let_def)
  qed
qed

text \<open>Writing characters one after the other.\<close>

primrec putcs :: "u8 list \<Rightarrow> console \<Rightarrow> console option" where
  "putcs [] con = Some con"
| "putcs (c # cs) con = do { con \<leftarrow> putc c con; putcs cs con }"

lemma print_back_ok:
  "take (length ds) buf = ds \<Longrightarrow>
    print_back (length ds) buf count con = map_option (Pair (count + of_nat (length ds))) (putcs (rev ds) con)"
proof (induction ds arbitrary: count con rule: rev_induct)
  case (snoc d ds)
  have l: "length ds < length buf" using arg_cong [OF snoc.prems, of length] by simp
  moreover have "buf ! length ds = d" "take (length ds) buf = ds"
    using snoc.prems l by (simp_all add: take_Suc_conv_app_nth)
  ultimately show ?case using snoc.IH by (simp add: ac_simps split: Option.bind_split)
qed simp

lemma printf_x_ok:
  "printf_x w count con = map_option (Pair (count + of_nat (length (digits 16 (unat w)))))
     (putcs (rev (map hex_char (digits 16 (unat w)))) con)"
proof -
  have l: "length (digits 16 (unat w)) \<le> 8" using digits_length [of 16 "unat w" 7] unat_bound32 [of w] by simp
  then have "hex_digits w (replicate 20 0) 0 =
      Some (fill 0 (map hex_char (digits 16 (unat w))) (replicate 20 0), length (digits 16 (unat w)))"
    by (subst hex_digits_ok) simp_all
  then show ?thesis
    using print_back_ok [of "map hex_char (digits 16 (unat w))" "fill 0 (map hex_char (digits 16 (unat w))) (replicate 20 0)" count con]
    by (simp add: printf_x_def fill_def)
qed

text \<open>The characters \<open>%d\<close> prints.\<close>

definition decimal :: "int \<Rightarrow> u8 list" where
  "decimal i = (if i < 0 then [0x2D] else []) @ rev (map dec_char (digits 10 (nat \<bar>i\<bar>)))"

lemma dec_length: "length (digits 10 (nat \<bar>sint (w :: u32)\<bar>)) \<le> 10"
proof -
  have "nat \<bar>sint w\<bar> < 10 ^ Suc 9" using sint_greater_eq [of w] sint_less [of w] by simp
  then show ?thesis using digits_length [of 10 "nat \<bar>sint w\<bar>" 9] by simp
qed

lemma decimal_length: "length (decimal (sint (w :: u32))) \<le> 11"
  using dec_length [of w] by (cases "sint w < 0") (simp_all add: decimal_def)

lemma printf_d_ok:
  assumes "w \<noteq> 0x80000000"
  shows "printf_d w count con = map_option (Pair (count + of_nat (length (decimal (sint w))))) (putcs (decimal (sint w)) con)"
proof -
  let ?n = "nat \<bar>sint w\<bar>" and ?ds = "digits 10 (nat \<bar>sint w\<bar>)"
  have r: "- (2 ^ 31) \<le> sint w" "sint w < 2 ^ 31" using sint_greater_eq [of w] sint_less [of w] by simp_all
  have ne: "sint w \<noteq> - (2 ^ 31)"
  proof
    assume "sint w = - (2 ^ 31)"
    then have "sint w = sint (0x80000000 :: u32)" by simp
    with assms show False by (metis signed_word_eqI)
  qed
  have l: "length ?ds \<le> 10" by (rule dec_length)
  have d: "dec_digits (int ?n) (replicate 20 0) 0 = Some (fill 0 (map dec_char ?ds) (replicate 20 0), length ?ds)"
    using l by (subst dec_digits_ok) simp_all
  have b: "print_back (length ?ds) (fill 0 (map dec_char ?ds) (replicate 20 0)) k c =
      map_option (Pair (k + of_nat (length ?ds))) (putcs (rev (map dec_char ?ds)) c)" for k c
    using print_back_ok [of "map dec_char ?ds" "fill 0 (map dec_char ?ds) (replicate 20 0)" k c] by (simp add: fill_def)
  show ?thesis
  proof (cases "sint w < 0")
    case True
    then have "int ?n = - sint w" by simp
    with True ne d b show ?thesis
      by (simp add: printf_d_def decimal_def ac_simps Let_def split: Option.bind_split)
  next
    case False
    then have "int ?n = sint w" by simp
    with d b show ?thesis using False by (simp add: printf_d_def decimal_def Let_def)
  qed
qed

lemma hd_rev_digit: "2 \<le> b \<Longrightarrow> \<exists>d ds. rev (map f (digits b n)) = f d # ds \<and> d < b"
proof -
  assume b: "2 \<le> b"
  have "digits b n \<noteq> []" by (subst digits.simps) simp
  then obtain d ds where r: "rev (digits b n) = d # ds" by (cases "rev (digits b n)") auto
  then have "d \<in> set (digits b n)" by (metis list.set_intros(1) set_rev)
  then have "d < b" by (rule digits_less [OF b])
  with r show ?thesis unfolding rev_map by auto
qed

lemma read_decimal_decimal: "read_decimal (decimal i) = i"
proof -
  have n: "read_numeral 10 (rev (map dec_char (digits 10 (nat \<bar>i\<bar>)))) = nat \<bar>i\<bar>"
    by (rule read_numeral_digits) simp_all
  obtain d ds where r: "rev (map dec_char (digits 10 (nat \<bar>i\<bar>))) = dec_char d # ds" "d < 10"
    using hd_rev_digit [of 10 dec_char "nat \<bar>i\<bar>"] by auto
  have "char_digit 0x2D = 253" by (simp add: char_digit_def)
  then have "dec_char d \<noteq> 0x2D" using char_digit_dec [OF r(2)] r(2) by (intro notI) simp
  with n r(1) show ?thesis by (auto simp: read_decimal_def decimal_def)
qed

section \<open>The console invariant\<close>

definition con_ok :: "console \<Rightarrow> bool" where
  "con_ok con \<longleftrightarrow> vga_ok (con_vga con) \<and> active_interface con = vga_interface"

definition con_same :: "console \<Rightarrow> console \<Rightarrow> bool" where
  "con_same con con' \<longleftrightarrow> same_style (con_vga con) (con_vga con')"

lemma putc_ok: "con_ok con \<Longrightarrow> \<exists>con'. putc c con = Some con' \<and> con_ok con' \<and> con_same con con'"
  using putchar_ok [of "con_vga con" _ c]
  by (auto simp: con_ok_def con_same_def putc_def vga_interface_def vga_ok_def)

lemma puts_ok: "con_ok con \<Longrightarrow> \<exists>con'. puts s con = Some con' \<and> con_ok con' \<and> con_same con con'"
  using writestring_ok [of "con_vga con" _ s]
  by (auto simp: con_ok_def con_same_def puts_def vga_interface_def vga_ok_def)

lemma con_same_trans: "con_same a b \<Longrightarrow> con_same b c \<Longrightarrow> con_same a c"
  by (simp add: con_same_def same_style_def)

lemma putcs_ok: "con_ok con \<Longrightarrow> \<exists>con'. putcs cs con = Some con' \<and> con_ok con' \<and> con_same con con'"
proof (induction cs arbitrary: con)
  case (Cons c cs)
  obtain con1 where 1: "putc c con = Some con1" "con_ok con1" "con_same con con1" using putc_ok [OF Cons.prems] by blast
  obtain con2 where "putcs cs con1 = Some con2" "con_ok con2" "con_same con1 con2" using Cons.IH [OF 1(2)] by blast
  with 1 show ?case using con_same_trans by auto
qed (simp add: con_same_def same_style_def)

lemma puts_putcs:
  assumes "con_ok con"
  shows "puts cs con = putcs cs con"
proof -
  have "putcs cs con = map_option (\<lambda>v. con\<lparr>con_vga := v\<rparr>) (vga_writestring cs (con_vga con))"
    if "active_interface con = vga_interface" for con
    using that
  proof (induction cs arbitrary: con)
    case (Cons c cs)
    then show ?case by (auto simp: putc_def vga_interface_def split: Option.bind_split)
  qed simp
  with assms show ?thesis by (auto simp: puts_def con_ok_def vga_interface_def split: Option.bind_split)
qed

lemma set_color_ok: "con_ok con \<Longrightarrow> con_ok (set_color c con)"
  by (simp add: con_ok_def set_color_def vga_set_color_def vga_ok_def)

text \<open>The formats a list of arguments fits: what the caller of \<open>printf\<close> has to provide.\<close>

fun fmt_ok :: "string \<Rightarrow> va list \<Rightarrow> bool" where
  "fmt_ok [] args = True"
| "fmt_ok (p # ps) args =
     (if p = CHR ''%'' then
        (case ps of [] \<Rightarrow> False
         | q # ps \<Rightarrow>
           if q \<in> {CHR ''c'', CHR ''x'', CHR ''o''} then (case args of Va_int w # args \<Rightarrow> fmt_ok ps args | _ \<Rightarrow> False)
           else if q = CHR ''d'' then (case args of Va_int w # args \<Rightarrow> w \<noteq> 0x80000000 \<and> fmt_ok ps args | _ \<Rightarrow> False)
           else if q = CHR ''s'' then (case args of Va_str s # args \<Rightarrow> fmt_ok ps args | _ \<Rightarrow> False)
           else fmt_ok ps args)
      else fmt_ok ps args)"

lemma printf_num_ok:
  assumes "con_ok con"
  shows "\<exists>k con'. printf_x w count con = Some (k, con') \<and> con_ok con'"
    "w \<noteq> 0x80000000 \<Longrightarrow> \<exists>k con'. printf_d w count con = Some (k, con') \<and> con_ok con'"
  using putcs_ok [OF assms] by (fastforce simp: printf_x_ok printf_d_ok)+

lemma printf_loop_ok:
  "con_ok con \<Longrightarrow> fmt_ok format args \<Longrightarrow> \<exists>k con'. printf_loop format args count con = Some (k, con') \<and> con_ok con'"
proof (induction format arbitrary: args count con rule: length_induct)
  case (1 format)
  note ok = \<open>con_ok con\<close> and fmt = \<open>fmt_ok format args\<close>
  show ?case
  proof (cases format)
    case (Cons p ps)
    show ?thesis
    proof (cases "p = CHR ''%''")
      case False
      then obtain con1 where "putc (of_char p) con = Some con1" "con_ok con1" using putc_ok [OF ok] by blast
      with 1(1) fmt Cons False show ?thesis by simp
    next
      case True
      with fmt Cons obtain q qs where q: "format = CHR ''%'' # q # qs" by (auto split: list.splits)
      then have ih: "con_ok c \<Longrightarrow> fmt_ok qs as \<Longrightarrow> \<exists>k con'. printf_loop qs as n c = Some (k, con') \<and> con_ok con'" for as n c
        using 1(1) by simp
      obtain con1 where c1: "putc (of_char CHR ''%'') con = Some con1" "con_ok con1" using putc_ok [OF ok] by blast
      obtain con2 where c2: "putc (of_char q) con1 = Some con2" "con_ok con2" using putc_ok [OF c1(2)] by blast
      have arg: "(\<exists>w as. args = Va_int w # as \<and> fmt_ok qs as \<and> (q = CHR ''d'' \<longrightarrow> w \<noteq> 0x80000000)) \<and>
            q \<in> {CHR ''c'', CHR ''x'', CHR ''o'', CHR ''d''} \<or>
          (\<exists>t as. args = Va_str t # as \<and> fmt_ok qs as) \<and> q = CHR ''s'' \<or>
          fmt_ok qs args \<and> q \<notin> {CHR ''c'', CHR ''x'', CHR ''o'', CHR ''d'', CHR ''s''}"
        using fmt unfolding q by (auto split: if_splits list.splits va.splits)
      from arg show ?thesis
      proof (elim disjE conjE exE)
        fix w as assume a: "args = Va_int w # as" "fmt_ok qs as" "q = CHR ''d'' \<longrightarrow> w \<noteq> 0x80000000"
          and k: "q \<in> {CHR ''c'', CHR ''x'', CHR ''o'', CHR ''d''}"
        from k consider "q = CHR ''c''" | "q = CHR ''x''" | "q = CHR ''o''" | "q = CHR ''d''" by blast
        then show ?thesis
        proof cases
          case 1
          with a q ih putc_ok [OF ok, of "ucast w"] show ?thesis by auto
        next
          case 2
          with a q ih printf_num_ok(1) [OF ok, of w count] show ?thesis by auto
        next
          case 3
          with a q ih set_color_ok [OF ok, of w] show ?thesis by auto
        next
          case 4
          with a q ih printf_num_ok(2) [OF ok, of w count] show ?thesis by auto
        qed
      next
        fix t as assume "args = Va_str t # as" "fmt_ok qs as" "q = CHR ''s''"
        with q ih puts_ok [OF ok, of t] show ?thesis by auto
      next
        assume "fmt_ok qs args" "q \<notin> {CHR ''c'', CHR ''x'', CHR ''o'', CHR ''d'', CHR ''s''}"
        with q ih c1 c2 show ?thesis by (auto split: if_split)
      qed
    qed
  qed (use ok in simp)
qed

lemma printf_ok:
  assumes "con_ok con" "fmt_ok format args"
  shows "\<exists>k con'. printf format args con = Some (k, con') \<and> con_ok con' \<and> vga_color (con_vga con') = vga_color (con_vga con)"
  using printf_loop_ok [OF assms, of 0]
  by (auto simp: printf_def vga_get_color_def vga_set_color_def con_ok_def vga_ok_def)

text \<open>C16. \<open>printf\<close> with arguments that fit the format always returns: no digit buffer overflows,
  no access leaves the text buffer, the console stays well formed, and the colour is the one before the call,
  whatever \<open>%o\<close> set in between.\<close>

theorem printf_typed:
  assumes "con_ok con" "fmt_ok format args"
  shows "\<exists>k con'. printf format args con = Some (k, con') \<and> con_ok con' \<and> vga_color (con_vga con') = vga_color (con_vga con)"
  using assms by (rule printf_ok)

definition example_con :: console where
  "example_con = \<lparr>con_vga = example_vga, active_interface = vga_interface\<rparr>"

lemma example_con_ok: "con_ok example_con"
  by (simp add: con_ok_def example_con_def vga_ok_def example_vga_def)

theorem printf_typed_witness:
  "\<exists>k con'. printf ''%oi=%d, %s'' [Va_int 4, Va_int (- 7), Va_str [0x41]] example_con = Some (k, con') \<and> con_ok con'"
  using printf_typed [OF example_con_ok, of "''%oi=%d, %s''" "[Va_int 4, Va_int (- 7), Va_str [0x41]]"] by auto

text \<open>C17. \<open>%d\<close> and \<open>%x\<close> print numerals that read back as the argument.  \<open>%d\<close> prints at most 11
  characters, \<open>%x\<close> at most 8, and \<open>printf\<close> returns their number.  The one exception is \<open>%d\<close> of the smallest
  integer, whose negation overflows.\<close>

theorem printf_numbers:
  assumes "con_ok con"
  shows "(w \<noteq> 0x80000000 \<longrightarrow> (\<exists>cs con'. printf ''%d'' [Va_int w] con = Some (of_nat (length cs), con') \<and>
      putcs cs con = Some con' \<and> read_decimal cs = sint w \<and> length cs \<le> 11)) \<and>
    (\<exists>cs con'. printf ''%x'' [Va_int w] con = Some (of_nat (length cs), con') \<and> putcs cs con = Some con' \<and>
      read_numeral 16 cs = unat w \<and> length cs \<le> 8) \<and>
    printf ''%d'' [Va_int 0x80000000] con = None"
proof (intro conjI impI)
  have restored: "printf f xs con = Some (k, con')" if "printf_loop f xs 0 con = Some (k, con')" "con_same con con'" for f xs k con'
    using that by (simp add: printf_def vga_set_color_def vga_get_color_def con_same_def same_style_def)
  show "\<exists>cs con'. printf ''%d'' [Va_int w] con = Some (of_nat (length cs), con') \<and> putcs cs con = Some con' \<and>
      read_decimal cs = sint w \<and> length cs \<le> 11" if w: "w \<noteq> 0x80000000"
  proof -
    obtain con' where c: "putcs (decimal (sint w)) con = Some con'" "con_same con con'" using putcs_ok [OF assms] by blast
    have "printf ''%d'' [Va_int w] con = Some (of_nat (length (decimal (sint w))), con')"
      by (rule restored) (use c w in \<open>simp_all add: printf_d_ok\<close>)
    then show ?thesis using c(1) read_decimal_decimal decimal_length by blast
  qed
  let ?cs = "rev (map hex_char (digits 16 (unat w)))"
  obtain con' where c: "putcs ?cs con = Some con'" "con_same con con'" using putcs_ok [OF assms] by blast
  have "printf ''%x'' [Va_int w] con = Some (of_nat (length ?cs), con')"
    by (rule restored) (use c in \<open>simp_all add: printf_x_ok\<close>)
  moreover have "read_numeral 16 ?cs = unat w" by (rule read_numeral_digits) simp_all
  moreover have "length ?cs \<le> 8" using digits_length [of 16 "unat w" 7] unat_bound32 [of w] by simp
  ultimately show "\<exists>cs con'. printf ''%x'' [Va_int w] con = Some (of_nat (length cs), con') \<and> putcs cs con = Some con' \<and>
      read_numeral 16 cs = unat w \<and> length cs \<le> 8" using c(1) by blast
  show "printf ''%d'' [Va_int 0x80000000] con = None"
    by (simp add: printf_def printf_d_def Let_def split: Option.bind_split)
qed

theorem printf_numbers_witness:
  "\<exists>cs con'. printf ''%d'' [Va_int 42] example_con = Some (of_nat (length cs), con') \<and> read_decimal cs = 42"
  using printf_numbers [OF example_con_ok, of 42] by auto

section \<open>The terminal\<close>

lemma welcome_ok: "fmt_ok (''%oWelcome to Iddo and Hillel amazing os!!!!'' @ [CHR 0x0A]) [Va_int c]"
  by simp

lemma terminal_initialize_ok:
  assumes l: "length (vga_buffer (con_vga con0)) = 2000"
  shows "\<exists>con. terminal_initialize con0 = Some con \<and> con_ok con"
proof -
  let ?con1 = "con0\<lparr>active_interface := vga_interface\<rparr>"
  obtain v where v: "vga_initialize (con_vga con0) = Some v" "vga_ok v" using vga_initialize_ok [OF l] by blast
  have i: "stdio_set_interface (Some vga_interface) con0 = ?con1"
    by (simp add: stdio_set_interface_def vga_interface_def override_def Let_def)
  have "stdio_init ?con1 = Some (?con1\<lparr>con_vga := v\<rparr>)" using v(1) by (simp add: stdio_init_def vga_interface_def)
  moreover let ?con2 = "?con1\<lparr>con_vga := v, con_vga := vga_set_eof_handler (Some EOF_scroll_down_once) v\<rparr>"
  have "con_ok ?con2" using v(2) by (simp add: con_ok_def vga_ok_def vga_set_eof_handler_def)
  then obtain k con where "printf (''%oWelcome to Iddo and Hillel amazing os!!!!'' @ [CHR 0x0A]) [Va_int STD_COLOR_MAGENTA] ?con2 = Some (k, con)"
    "con_ok con" using printf_ok [OF _ welcome_ok] by blast
  ultimately show ?thesis unfolding terminal_initialize_def Let_def i by simp
qed

text \<open>A sequence of key events, and the characters they put on the screen.\<close>

primrec terminal_run :: "key_event list \<Rightarrow> console \<Rightarrow> console option" where
  "terminal_run [] con = Some con"
| "terminal_run (ev # evs) con = do { con \<leftarrow> terminal_handle_keypress ev con; terminal_run evs con }"

definition typed :: "key_event \<Rightarrow> u8 list" where
  "typed ev = (if ev_pressed ev \<and> ev_ascii ev \<noteq> 0 then
     [if is_printable_ascii (ev_ascii ev) \<or> ev_ascii ev \<in> {0x0A, 0x08} then ev_ascii ev else 0x3F] else [])"

lemma keypress_putcs: "terminal_handle_keypress ev con = putcs (typed ev) con"
  by (auto simp: terminal_handle_keypress_def handle_non_printable_ascii_def typed_def split: Option.bind_split)

lemma putcs_append: "putcs (cs @ ds) con = putcs cs con \<bind> putcs ds"
  by (induction cs arbitrary: con) (auto split: Option.bind_split)

lemma terminal_run_putcs: "terminal_run evs con = putcs (concat (map typed evs)) con"
  by (induction evs arbitrary: con) (auto simp: keypress_putcs putcs_append split: Option.bind_split)

text \<open>C18. \<open>terminal_initialize\<close> establishes the console invariant, from any contents of the
  text memory and whatever interface was active, and every sequence of key events keeps it.  The screen shows
  the pressed keys in order: printable characters, newline and backspace as they are, the other characters as a
  question mark, and nothing for keys without a character.\<close>

theorem terminal_invariant:
  assumes "length (vga_buffer (con_vga con0)) = 2000"
  shows "\<exists>con. terminal_initialize con0 = Some con \<and> con_ok con \<and>
    (\<forall>evs. \<exists>con'. terminal_run evs con = Some con' \<and> con_ok con' \<and> putcs (concat (map typed evs)) con = Some con')"
  using terminal_initialize_ok [OF assms] putcs_ok unfolding terminal_run_putcs by blast

theorem terminal_invariant_witness:
  "\<exists>con. terminal_initialize example_con = Some con \<and> con_ok con"
  using terminal_invariant [of example_con] by (auto simp: example_con_def example_vga_def)

end
