(* ===== verification/Pic.thy ===== *)
theory Pic
  imports Ports
begin

text \<open>
  The interrupt controllers: \<open>include/arch/i686/pic.h\<close> over port I/O, and a model of the two 8259 chips behind the
  ports, which the properties use as the concrete hardware.  The chips keep the vector base and the mask; the third and fourth
  initialisation words (cascade line and mode) are accepted and not looked at.
\<close>

abbreviation (input) PIC_MASTER_CMD :: u16 where "PIC_MASTER_CMD \<equiv> 0x20"
abbreviation (input) PIC_MASTER_DATA :: u16 where "PIC_MASTER_DATA \<equiv> 0x21"
abbreviation (input) PIC_SLAVE_CMD :: u16 where "PIC_SLAVE_CMD \<equiv> 0xA0"
abbreviation (input) PIC_SLAVE_DATA :: u16 where "PIC_SLAVE_DATA \<equiv> 0xA1"
abbreviation (input) PIC_EOI :: u8 where "PIC_EOI \<equiv> 0x20"
abbreviation (input) ICW1_INIT :: u8 where "ICW1_INIT \<equiv> 0x10"
abbreviation (input) ICW1_ICW4 :: u8 where "ICW1_ICW4 \<equiv> 0x01"
abbreviation (input) ICW4_8086 :: u8 where "ICW4_8086 \<equiv> 0x01"

definition pic_send_eoi :: "'h io_ports \<Rightarrow> u8 \<Rightarrow> 'h \<Rightarrow> 'h" where
  "pic_send_eoi io irq h =
     (let h = (if 8 \<le> irq then io_outb io PIC_SLAVE_CMD PIC_EOI h else h)
      in io_outb io PIC_MASTER_CMD PIC_EOI h)"

definition pic_remap :: "'h io_ports \<Rightarrow> u8 \<Rightarrow> u8 \<Rightarrow> 'h \<Rightarrow> 'h" where
  "pic_remap io offset1 offset2 h =
     (case io_inb io PIC_MASTER_DATA h of (master_mask, h) \<Rightarrow>
      case io_inb io PIC_SLAVE_DATA h of (slave_mask, h) \<Rightarrow>
      let h = io_outb io PIC_MASTER_CMD (ICW1_INIT OR ICW1_ICW4) h;
          h = io_outb io PIC_SLAVE_CMD (ICW1_INIT OR ICW1_ICW4) h;
          h = io_outb io PIC_MASTER_DATA offset1 h;
          h = io_outb io PIC_SLAVE_DATA offset2 h;
          h = io_outb io PIC_MASTER_DATA 0x04 h;
          h = io_outb io PIC_SLAVE_DATA 0x02 h;
          h = io_outb io PIC_MASTER_DATA ICW4_8086 h;
          h = io_outb io PIC_SLAVE_DATA ICW4_8086 h;
          h = io_outb io PIC_MASTER_DATA master_mask h
      in io_outb io PIC_SLAVE_DATA slave_mask h)"

text \<open>The port and the line on the chip, and the shift \<open>1 << irq_line\<close> of an \<open>int\<close>.\<close>

definition pic_line :: "u8 \<Rightarrow> u16 \<times> u8" where
  "pic_line irq_line = (if irq_line < 8 then (PIC_MASTER_DATA, irq_line) else (PIC_SLAVE_DATA, irq_line - 8))"

definition shl_int :: "u8 \<Rightarrow> u8 option" where
  "shl_int n = (if n < 31 then Some (ucast (push_bit (unat n) 1 :: u32)) else None)"

definition pic_set_mask :: "'h io_ports \<Rightarrow> u8 \<Rightarrow> 'h \<Rightarrow> 'h option" where
  "pic_set_mask io irq_line h = (case pic_line irq_line of (port, line) \<Rightarrow>
     case io_inb io port h of (v, h) \<Rightarrow> do {
       b \<leftarrow> shl_int line;
       Some (io_outb io port (v OR b) h) })"

definition pic_clear_mask :: "'h io_ports \<Rightarrow> u8 \<Rightarrow> 'h \<Rightarrow> 'h option" where
  "pic_clear_mask io irq_line h = (case pic_line irq_line of (port, line) \<Rightarrow>
     case io_inb io port h of (v, h) \<Rightarrow> do {
       b \<leftarrow> shl_int line;
       Some (io_outb io port (v AND NOT b) h) })"

definition pic_disable_all :: "'h io_ports \<Rightarrow> 'h \<Rightarrow> 'h" where
  "pic_disable_all io h = io_outb io PIC_SLAVE_DATA 0xFF (io_outb io PIC_MASTER_DATA 0xFF h)"

section \<open>The 8259 pair\<close>

text \<open>
  A chip is ready or expects the next word of its initialisation sequence.  In the ready state a write to the data
  port sets the mask; the command 0x20 ends the in-service interrupt of the highest priority, the lowest line.
\<close>

datatype pic_stage = Ready | Wait_ICW2 | Wait_ICW3 | Wait_ICW4

record chip =
  stage :: pic_stage
  imr :: u8
  vector_offset :: u8
  cascade :: u8
  in_service :: "nat list"

definition chip_cmd :: "u8 \<Rightarrow> chip \<Rightarrow> chip" where
  "chip_cmd v c =
     (if v AND 0x10 \<noteq> 0 then c\<lparr>stage := Wait_ICW2, imr := 0, in_service := []\<rparr>
      else if v = 0x20 then c\<lparr>in_service := tl (in_service c)\<rparr>
      else c)"

definition chip_data :: "u8 \<Rightarrow> chip \<Rightarrow> chip" where
  "chip_data v c = (case stage c of
       Ready \<Rightarrow> c\<lparr>imr := v\<rparr>
     | Wait_ICW2 \<Rightarrow> c\<lparr>vector_offset := v, stage := Wait_ICW3\<rparr>
     | Wait_ICW3 \<Rightarrow> c\<lparr>cascade := v, stage := Wait_ICW4\<rparr>
     | Wait_ICW4 \<Rightarrow> c\<lparr>stage := Ready\<rparr>)"

record pics =
  master :: chip
  slave :: chip

definition pics_outb :: "u16 \<Rightarrow> u8 \<Rightarrow> pics \<Rightarrow> pics" where
  "pics_outb port v p =
     (if port = PIC_MASTER_CMD then p\<lparr>master := chip_cmd v (master p)\<rparr>
      else if port = PIC_MASTER_DATA then p\<lparr>master := chip_data v (master p)\<rparr>
      else if port = PIC_SLAVE_CMD then p\<lparr>slave := chip_cmd v (slave p)\<rparr>
      else if port = PIC_SLAVE_DATA then p\<lparr>slave := chip_data v (slave p)\<rparr>
      else p)"

definition pics_inb :: "u16 \<Rightarrow> pics \<Rightarrow> u8 \<times> pics" where
  "pics_inb port p =
     (if port = PIC_MASTER_DATA then (imr (master p), p)
      else if port = PIC_SLAVE_DATA then (imr (slave p), p)
      else (0, p))"

definition pics_io :: "pics io_ports" where
  "pics_io = \<lparr>io_inb = pics_inb, io_inw = (\<lambda>_ p. (0, p)), io_outb = pics_outb, io_outw = (\<lambda>_ _ p. p),
     io_irq = (\<lambda>p. (False, p)), io_hlt = (\<lambda>p. (False, p))\<rparr>"

text \<open>Both chips are ready; whether the line of an interrupt 0 to 15 is masked; the vector of its interrupt.\<close>

definition pics_ready :: "pics \<Rightarrow> bool" where
  "pics_ready p \<longleftrightarrow> stage (master p) = Ready \<and> stage (slave p) = Ready"

definition masked :: "pics \<Rightarrow> nat \<Rightarrow> bool" where
  "masked p n = (if n < 8 then bit (imr (master p)) n else bit (imr (slave p)) (n - 8))"

definition irq_vector :: "pics \<Rightarrow> nat \<Rightarrow> nat" where
  "irq_vector p n = (if n < 8 then unat (vector_offset (master p)) + n else unat (vector_offset (slave p)) + (n - 8))"

lemmas pics_simps = pics_io_def pics_inb_def pics_outb_def chip_cmd_def chip_data_def

lemma bit_all_ones: "bit (0xFF :: int) n \<longleftrightarrow> n < 8"
proof -
  have "(0xFF :: int) = mask 8" by (simp add: mask_eq_exp_minus_1)
  then show ?thesis by (simp only: bit_mask_iff) simp
qed

lemma shl_int_line: "n < 8 \<Longrightarrow> shl_int (of_nat n) = Some (2 ^ n)"
proof -
  assume n: "n < 8"
  then have u: "unat (of_nat n :: u8) = n" by (simp add: unat_of_nat)
  have "ucast (push_bit n 1 :: u32) = (push_bit n 1 :: u8)"
    using n by (intro bit_word_eqI) (auto simp: bit_simps)
  then show ?thesis using n u by (simp add: shl_int_def word_less_nat_alt push_bit_eq_mult)
qed

lemma pic_line_of_nat:
  assumes "n < 16"
  shows "pic_line (of_nat n) = (if n < 8 then (PIC_MASTER_DATA, of_nat n) else (PIC_SLAVE_DATA, of_nat (n - 8)))"
proof -
  have "unat (of_nat n :: u8) = n" using assms by (simp add: unat_of_nat)
  then show ?thesis using assms by (auto simp: pic_line_def word_less_nat_alt)
qed

lemma u8_less_16: "irq < 16 \<Longrightarrow> \<exists>n < 16. irq = (of_nat n :: u8)"
  by (rule exI [of _ "unat irq"]) (simp add: word_less_nat_alt)

lemma set_mask_ok:
  assumes r: "pics_ready p" and n: "n < 16"
  shows "\<exists>p'. pic_set_mask pics_io (of_nat n) p = Some p' \<and> pics_ready p' \<and> (\<forall>m < 16. masked p' m \<longleftrightarrow> masked p m \<or> m = n)"
proof (cases "n < 8")
  case True
  then show ?thesis using r
    by (simp add: pic_set_mask_def pic_line_of_nat shl_int_line pics_simps pics_ready_def masked_def bit_set_one)
next
  case False
  then have "n - 8 < 8" using n by simp
  with False n r show ?thesis
    by (auto simp: pic_set_mask_def pic_line_of_nat shl_int_line pics_simps pics_ready_def masked_def bit_set_one simp del: of_nat_diff)
qed

lemma clear_mask_ok:
  assumes r: "pics_ready p" and n: "n < 16"
  shows "\<exists>p'. pic_clear_mask pics_io (of_nat n) p = Some p' \<and> pics_ready p' \<and>
    (\<forall>m < 16. masked p' m \<longleftrightarrow> masked p m \<and> m \<noteq> n) \<and> (\<forall>m. irq_vector p' m = irq_vector p m)"
proof (cases "n < 8")
  case True
  then show ?thesis using r
    by (simp add: pic_clear_mask_def pic_line_of_nat shl_int_line pics_simps pics_ready_def masked_def bit_clear_one irq_vector_def)
next
  case False
  then have "n - 8 < 8" using n by simp
  with False n r show ?thesis
    by (auto simp: pic_clear_mask_def pic_line_of_nat shl_int_line pics_simps pics_ready_def masked_def bit_clear_one irq_vector_def
        simp del: of_nat_diff)
qed

lemma pics_ports:
  "io_outb pics_io PIC_MASTER_CMD v p = p\<lparr>master := chip_cmd v (master p)\<rparr>"
  "io_outb pics_io PIC_MASTER_DATA v p = p\<lparr>master := chip_data v (master p)\<rparr>"
  "io_outb pics_io PIC_SLAVE_CMD v p = p\<lparr>slave := chip_cmd v (slave p)\<rparr>"
  "io_outb pics_io PIC_SLAVE_DATA v p = p\<lparr>slave := chip_data v (slave p)\<rparr>"
  "io_inb pics_io PIC_MASTER_DATA p = (imr (master p), p)"
  "io_inb pics_io PIC_SLAVE_DATA p = (imr (slave p), p)"
  by (simp_all add: pics_io_def pics_outb_def pics_inb_def)

lemma chip_init: "chip_data m (chip_data i4 (chip_data i3 (chip_data i2 (chip_cmd (ICW1_INIT OR ICW1_ICW4) c)))) =
    c\<lparr>stage := Ready, imr := m, vector_offset := i2, cascade := i3, in_service := []\<rparr>"
  by (cases c) (simp add: chip_cmd_def chip_data_def)

lemma disable_remap:
  assumes "pics_ready p"
  shows "pic_remap pics_io o1 o2 (pic_disable_all pics_io p) =
    p\<lparr>master := (master p)\<lparr>stage := Ready, imr := 0xFF, vector_offset := o1, cascade := 4, in_service := []\<rparr>,
      slave := (slave p)\<lparr>stage := Ready, imr := 0xFF, vector_offset := o2, cascade := 2, in_service := []\<rparr>\<rparr>"
proof -
  have d: "pic_disable_all pics_io p = p\<lparr>master := (master p)\<lparr>imr := 0xFF\<rparr>, slave := (slave p)\<lparr>imr := 0xFF\<rparr>\<rparr>"
    using assms by (simp add: pic_disable_all_def pics_ports chip_data_def pics_ready_def)
  show ?thesis unfolding d pic_remap_def pics_ports prod.case Let_def
    by (cases p; cases "master p"; cases "slave p") (simp add: chip_init [simplified])
qed

lemma disable_remap_ok:
  assumes "pics_ready p"
  shows "pics_ready (pic_remap pics_io 0x20 0x28 (pic_disable_all pics_io p)) \<and>
    (\<forall>n < 16. masked (pic_remap pics_io 0x20 0x28 (pic_disable_all pics_io p)) n \<and>
      irq_vector (pic_remap pics_io 0x20 0x28 (pic_disable_all pics_io p)) n = 32 + n)"
  unfolding disable_remap [OF assms]
  by (auto simp: pics_ready_def masked_def irq_vector_def simp: bit_all_ones)

text \<open>C30. On two 8259 chips, \<open>pic_disable_all\<close> followed by \<open>pic_remap\<close>, as \<open>idt_init\<close> calls them, leaves both
  chips initialised with every line masked and interrupt \<open>n\<close> on vector \<open>32 + n\<close>; \<open>pic_clear_mask\<close> then
  unmasks exactly its line, on the master or on the slave, and \<open>pic_set_mask\<close> masks it again.\<close>

theorem pic_setup:
  assumes "pics_ready p" "n < 16"
  shows "\<exists>p1 p2. pic_clear_mask pics_io (of_nat n) (pic_remap pics_io 0x20 0x28 (pic_disable_all pics_io p)) = Some p1 \<and>
    (\<forall>m < 16. (masked p1 m \<longleftrightarrow> m \<noteq> n) \<and> irq_vector p1 m = 32 + m) \<and>
    pic_set_mask pics_io (of_nat n) p1 = Some p2 \<and> (\<forall>m < 16. masked p2 m) \<and> pics_ready p2"
proof -
  let ?p = "pic_remap pics_io 0x20 0x28 (pic_disable_all pics_io p)"
  note i = disable_remap_ok [OF assms(1)]
  obtain p1 where p1: "pic_clear_mask pics_io (of_nat n) ?p = Some p1" "pics_ready p1"
    "\<forall>m < 16. masked p1 m \<longleftrightarrow> masked ?p m \<and> m \<noteq> n" "\<forall>m. irq_vector p1 m = irq_vector ?p m"
    using clear_mask_ok [OF _ assms(2), of ?p] i by blast
  obtain p2 where "pic_set_mask pics_io (of_nat n) p1 = Some p2" "pics_ready p2" "\<forall>m < 16. masked p2 m \<longleftrightarrow> masked p1 m \<or> m = n"
    using set_mask_ok [OF p1(2) assms(2)] by blast
  with p1 i show ?thesis by auto
qed

definition example_chip :: chip where
  "example_chip = \<lparr>stage = Ready, imr = 0, vector_offset = 8, cascade = 0, in_service = []\<rparr>"

theorem pic_setup_witness:
  "\<exists>p1. pic_clear_mask pics_io 14 (pic_remap pics_io 0x20 0x28 (pic_disable_all pics_io \<lparr>master = example_chip, slave = example_chip\<rparr>)) = Some p1 \<and>
    \<not> masked p1 14 \<and> masked p1 1"
  using pic_setup [of "\<lparr>master = example_chip, slave = example_chip\<rparr>" 14]
  by (fastforce simp: pics_ready_def example_chip_def)

end
