(* ===== verification/Gdt.thy ===== *)
theory Gdt
  imports Prelude
begin

text \<open>
  Segment descriptors and the task state segment: \<open>arch/i686/cpu/gdt.c\<close> with the two routines of
  \<open>arch/i686/cpu/lgdt.s\<close>.  The addresses the linker gives to the tables are parameters.
\<close>

record gdt_entry =
  limit_low :: u16
  base_low :: u16
  base_mid :: u8
  g_access :: u8
  gran :: u8
  base_high :: u8

record gdt_ptr =
  gp_limit :: u16
  gp_base :: u32

record tss_entry =
  t_prev_tss :: u32
  t_esp0 :: u32
  t_ss0 :: u32
  t_esp1 :: u32
  t_ss1 :: u32
  t_esp2 :: u32
  t_ss2 :: u32
  t_cr3 :: u32
  t_eip :: u32
  t_eflags :: u32
  t_eax :: u32
  t_ecx :: u32
  t_edx :: u32
  t_ebx :: u32
  t_esp :: u32
  t_ebp :: u32
  t_esi :: u32
  t_edi :: u32
  t_es :: u32
  t_cs :: u32
  t_ss :: u32
  t_ds :: u32
  t_fs :: u32
  t_gs :: u32
  t_ldt :: u32
  t_trap :: u16
  t_iomap_base :: u16

text \<open>The file-scope variables, and the registers the assembly routines load.\<close>

record gdt_state =
  gdt :: "gdt_entry list"
  gp :: gdt_ptr
  tss :: tss_entry
  gdtr :: "gdt_ptr option"
  task_register :: u16
  seg_cs :: u16
  seg_data :: u16

record gdt_addrs =
  addr_gdt :: u32
  addr_tss :: u32
  addr_interrupt_stack :: u32

abbreviation (input) GDT_SEGMENT_LIMIT :: u32 where "GDT_SEGMENT_LIMIT \<equiv> 0x000FFFFF"
abbreviation (input) GDT_ACCESS_KERNEL_CODE :: u8 where "GDT_ACCESS_KERNEL_CODE \<equiv> 0x9A"
abbreviation (input) GDT_ACCESS_KERNEL_DATA :: u8 where "GDT_ACCESS_KERNEL_DATA \<equiv> 0x92"
abbreviation (input) GDT_ACCESS_USER_CODE :: u8 where "GDT_ACCESS_USER_CODE \<equiv> 0xFA"
abbreviation (input) GDT_ACCESS_USER_DATA :: u8 where "GDT_ACCESS_USER_DATA \<equiv> 0xF2"
abbreviation (input) GDT_KERNEL_CODE_SEL :: u16 where "GDT_KERNEL_CODE_SEL \<equiv> 0x08"
abbreviation (input) GDT_KERNEL_DATA_SEL :: u16 where "GDT_KERNEL_DATA_SEL \<equiv> 0x10"
abbreviation (input) GDT_USER_CODE_SEL :: u16 where "GDT_USER_CODE_SEL \<equiv> 0x1B"
abbreviation (input) GDT_USER_DATA_SEL :: u16 where "GDT_USER_DATA_SEL \<equiv> 0x23"
abbreviation (input) GDT_TSS_SEL :: u16 where "GDT_TSS_SEL \<equiv> 0x28"
abbreviation (input) GDT_GRANULARITY_FLAGS :: u8 where "GDT_GRANULARITY_FLAGS \<equiv> 0xC"
abbreviation (input) KERNEL_INTERRUPT_STACK_SIZE :: u32 where "KERNEL_INTERRUPT_STACK_SIZE \<equiv> 0x4000"

text \<open>\<open>flags_high_nibble << 4\<close> is an \<open>int\<close> and is cut to eight bits with the whole byte.\<close>

definition encode_entry :: "u32 \<Rightarrow> u32 \<Rightarrow> u8 \<Rightarrow> u8 \<Rightarrow> gdt_entry" where
  "encode_entry base limit access flags =
     \<lparr>limit_low = ucast (limit AND 0xFFFF), base_low = ucast (base AND 0xFFFF),
      base_mid = ucast (drop_bit 16 base AND 0xFF), g_access = access,
      gran = ucast ((drop_bit 16 limit AND 0x0F) OR push_bit 4 (ucast flags)),
      base_high = ucast (drop_bit 24 base AND 0xFF)\<rparr>"

definition gdt_set_entry :: "nat \<Rightarrow> u32 \<Rightarrow> u32 \<Rightarrow> u8 \<Rightarrow> u8 \<Rightarrow> gdt_state \<Rightarrow> gdt_state option" where
  "gdt_set_entry i base limit access flags s = do {
     g \<leftarrow> aset (gdt s) i (encode_entry base limit access flags);
     Some (s\<lparr>gdt := g\<rparr>) }"

definition zero_tss :: tss_entry where
  "zero_tss = \<lparr>t_prev_tss = 0, t_esp0 = 0, t_ss0 = 0, t_esp1 = 0, t_ss1 = 0, t_esp2 = 0, t_ss2 = 0, t_cr3 = 0, t_eip = 0,
     t_eflags = 0, t_eax = 0, t_ecx = 0, t_edx = 0, t_ebx = 0, t_esp = 0, t_ebp = 0, t_esi = 0, t_edi = 0, t_es = 0,
     t_cs = 0, t_ss = 0, t_ds = 0, t_fs = 0, t_gs = 0, t_ldt = 0, t_trap = 0, t_iomap_base = 0\<rparr>"

text \<open>\<open>gdt_load\<close> reloads CS and then, at \<open>flush_cs\<close>, the data segments; \<open>tss_load\<close> falls through to \<open>flush_cs\<close>.\<close>

definition flush_cs :: "gdt_state \<Rightarrow> gdt_state" where
  "flush_cs s = s\<lparr>seg_data := 0x10\<rparr>"

definition gdt_load :: "gdt_ptr \<Rightarrow> gdt_state \<Rightarrow> gdt_state" where
  "gdt_load g s = flush_cs (s\<lparr>gdtr := Some g, seg_cs := 0x08\<rparr>)"

definition tss_load :: "u16 \<Rightarrow> gdt_state \<Rightarrow> gdt_state" where
  "tss_load sel s = flush_cs (s\<lparr>task_register := sel\<rparr>)"

text \<open>A descriptor has 8 bytes, the task state segment 104.\<close>

definition gdt_init :: "gdt_addrs \<Rightarrow> gdt_state \<Rightarrow> gdt_state option" where
  "gdt_init ad s = do {
     let s = s\<lparr>gp := \<lparr>gp_limit = 6 * 8 - 1, gp_base = addr_gdt ad\<rparr>\<rparr>;
     s \<leftarrow> gdt_set_entry 0 0 0 0 0 s;
     s \<leftarrow> gdt_set_entry 1 0 GDT_SEGMENT_LIMIT GDT_ACCESS_KERNEL_CODE GDT_GRANULARITY_FLAGS s;
     s \<leftarrow> gdt_set_entry 2 0 GDT_SEGMENT_LIMIT GDT_ACCESS_KERNEL_DATA GDT_GRANULARITY_FLAGS s;
     s \<leftarrow> gdt_set_entry 3 0 GDT_SEGMENT_LIMIT GDT_ACCESS_USER_CODE GDT_GRANULARITY_FLAGS s;
     s \<leftarrow> gdt_set_entry 4 0 GDT_SEGMENT_LIMIT GDT_ACCESS_USER_DATA GDT_GRANULARITY_FLAGS s;
     let s = s\<lparr>tss := zero_tss\<lparr>t_ss0 := ucast GDT_KERNEL_DATA_SEL,
       t_esp0 := addr_interrupt_stack ad + KERNEL_INTERRUPT_STACK_SIZE, t_iomap_base := 104\<rparr>\<rparr>;
     s \<leftarrow> gdt_set_entry 5 (addr_tss ad) (104 - 1) 0x89 0x0 s;
     let s = gdt_load (gp s) s;
     Some (tss_load GDT_TSS_SEL s) }"

definition tss_set_stack :: "u32 \<Rightarrow> gdt_state \<Rightarrow> gdt_state" where
  "tss_set_stack esp0 s = s\<lparr>tss := (tss s)\<lparr>t_esp0 := esp0\<rparr>\<rparr>"

section \<open>What the processor reads\<close>

text \<open>The base, the limit and the flags of a descriptor, as the processor assembles them.\<close>

definition entry_base :: "gdt_entry \<Rightarrow> u32" where
  "entry_base e = ucast (base_low e) OR push_bit 16 (ucast (base_mid e)) OR push_bit 24 (ucast (base_high e))"

definition entry_limit :: "gdt_entry \<Rightarrow> u32" where
  "entry_limit e = ucast (limit_low e) OR push_bit 16 (ucast (gran e) AND 0x0F)"

definition entry_flags :: "gdt_entry \<Rightarrow> u8" where
  "entry_flags e = drop_bit 4 (gran e)"

definition entry_dpl :: "gdt_entry \<Rightarrow> u8" where
  "entry_dpl e = drop_bit 5 (g_access e) AND 3"

text \<open>The descriptor a selector names: the index is above the three low bits.\<close>

definition selected :: "gdt_state \<Rightarrow> u16 \<Rightarrow> gdt_entry option" where
  "selected s sel = aget (gdt s) (unat (drop_bit 3 sel))"

lemma and_low_bits:
  "(w :: 'a::len word) AND 0x0F = take_bit 4 w" "w AND 0xFF = take_bit 8 w" "w AND 0xFFFF = take_bit 16 w"
  by (simp_all add: take_bit_eq_mask mask_eq_exp_minus_1)

lemma decode_encode:
  assumes "limit < 0x100000" "flags < 16"
  shows "entry_base (encode_entry base limit access flags) = base"
    "entry_limit (encode_entry base limit access flags) = limit"
    "entry_flags (encode_entry base limit access flags) = flags"
    "g_access (encode_entry base limit access flags) = access"
proof -
  have l: "\<not> bit limit n" if "20 \<le> n" for n using assms(1) that less_exp_not_bit [of limit 20 n] by simp
  have f: "\<not> bit flags n" if "\<not> n < 4" for n using assms(2) that less_exp_not_bit [of flags 4 n] by simp
  show "entry_base (encode_entry base limit access flags) = base"
  proof (rule bit_word_eqI)
    fix n :: nat
    consider "n < 16" | "16 \<le> n" "n < 24" | "24 \<le> n" by linarith
    then show "bit (entry_base (encode_entry base limit access flags)) n \<longleftrightarrow> bit base n" if "n < LENGTH(32)"
      using that by cases (auto simp: entry_base_def encode_entry_def and_low_bits bit_simps)
  qed
  show "entry_limit (encode_entry base limit access flags) = limit"
  proof (rule bit_word_eqI)
    fix n :: nat
    consider "n < 16" | "16 \<le> n" "n < 20" | "20 \<le> n" by linarith
    then show "bit (entry_limit (encode_entry base limit access flags)) n \<longleftrightarrow> bit limit n" if "n < LENGTH(32)"
      using that l by cases (auto simp: entry_limit_def encode_entry_def and_low_bits bit_simps)
  qed
  show "entry_flags (encode_entry base limit access flags) = flags"
    using f by (intro bit_word_eqI) (auto simp: entry_flags_def encode_entry_def and_low_bits bit_simps not_le)
qed (simp add: encode_entry_def)

text \<open>C29. After \<open>gdt_init\<close> the processor uses the table, and each selector of the kernel names the
  descriptor meant: kernel and user code and data segments with base 0 and a limit of 4 GB, at privilege level 0
  and 3, and a task state segment at its address whose \<open>esp0\<close> is the top of the interrupt stack; \<open>tss_set_stack\<close>
  changes that stack only.\<close>

theorem gdt_init_segments:
  assumes "length (gdt s) = 6"
  shows "\<exists>s'. gdt_init ad s = Some s' \<and> gdtr s' = Some \<lparr>gp_limit = 47, gp_base = addr_gdt ad\<rparr> \<and>
    seg_cs s' = GDT_KERNEL_CODE_SEL \<and> seg_data s' = GDT_KERNEL_DATA_SEL \<and> task_register s' = GDT_TSS_SEL \<and>
    (\<forall>(sel, access, dpl) \<in> {(GDT_KERNEL_CODE_SEL, GDT_ACCESS_KERNEL_CODE, 0), (GDT_KERNEL_DATA_SEL, GDT_ACCESS_KERNEL_DATA, 0),
        (GDT_USER_CODE_SEL, GDT_ACCESS_USER_CODE, 3), (GDT_USER_DATA_SEL, GDT_ACCESS_USER_DATA, 3)}.
      \<exists>e. selected s' sel = Some e \<and> entry_base e = 0 \<and> entry_limit e = 0xFFFFF \<and> entry_flags e = 0xC \<and>
        g_access e = access \<and> entry_dpl e = dpl) \<and>
    (\<exists>e. selected s' GDT_TSS_SEL = Some e \<and> entry_base e = addr_tss ad \<and> entry_limit e = 103 \<and> g_access e = 0x89) \<and>
    t_esp0 (tss s') = addr_interrupt_stack ad + 0x4000 \<and> t_ss0 (tss s') = 0x10 \<and>
    (\<forall>esp. gdt (tss_set_stack esp s') = gdt s' \<and> tss (tss_set_stack esp s') = (tss s')\<lparr>t_esp0 := esp\<rparr>)"
proof -
  have sel: "drop_bit 3 (0x08 :: u16) = 1" "drop_bit 3 (0x10 :: u16) = 2" "drop_bit 3 (0x1B :: u16) = 3"
    "drop_bit 3 (0x23 :: u16) = 4" "drop_bit 3 (0x28 :: u16) = 5"
    by simp_all
  have dpl: "drop_bit 5 (0x9A :: u8) AND 3 = 0" "drop_bit 5 (0x92 :: u8) AND 3 = 0" "drop_bit 5 (0xFA :: u8) AND 3 = 3"
    "drop_bit 5 (0xF2 :: u8) AND 3 = 3" by simp_all
  note seg = decode_encode [of "0xFFFFF" "0xC" "0"] and t = decode_encode [of "103" "0" "addr_tss ad"]
  show ?thesis using assms
    by (simp add: gdt_init_def gdt_set_entry_def gdt_load_def tss_load_def flush_cs_def selected_def sel entry_dpl_def
        dpl seg t tss_set_stack_def)
qed

definition example_gdt :: gdt_state where
  "example_gdt = \<lparr>gdt = replicate 6 (encode_entry 0 0 0 0), gp = \<lparr>gp_limit = 0, gp_base = 0\<rparr>, tss = zero_tss, gdtr = None,
     task_register = 0, seg_cs = 0, seg_data = 0\<rparr>"

theorem gdt_init_segments_witness:
  "\<exists>s'. gdt_init \<lparr>addr_gdt = 0xC0200000, addr_tss = 0xC0200040, addr_interrupt_stack = 0xC0204000\<rparr> example_gdt = Some s' \<and>
     t_esp0 (tss s') = 0xC0208000"
  using gdt_init_segments [of example_gdt "\<lparr>addr_gdt = 0xC0200000, addr_tss = 0xC0200040, addr_interrupt_stack = 0xC0204000\<rparr>"]
  by (fastforce simp: example_gdt_def)

end
