(* ===== verification/Idt.thy ===== *)
theory Idt
  imports Pic Gdt
begin

text \<open>
  Interrupts: \<open>arch/i686/cpu/idt.c\<close> with the frame of \<open>include/arch/i686/idt.h\<close>.  The table of handlers holds
  function pointers of a type \<open>'f\<close>; what a handler does is given to the dispatcher as a parameter.  A handler
  may switch to another stack and not come back, which is the outcome \<open>Gone\<close>.
\<close>

datatype ('a, 'b) flow = Returned 'a | Gone 'b

record interrupt_frame =
  f_gs :: u32
  f_fs :: u32
  f_es :: u32
  f_ds :: u32
  f_edi :: u32
  f_esi :: u32
  f_ebp :: u32
  f_esp :: u32
  f_ebx :: u32
  f_edx :: u32
  f_ecx :: u32
  f_eax :: u32
  f_int_no :: u32
  f_err_code :: u32
  f_eip :: u32
  f_cs :: u32
  f_eflags :: u32
  f_useresp :: u32
  f_ss :: u32

record idt_entry =
  isr_low :: u16
  kernel_cs :: u16
  i_reserved :: u8
  attributes :: u8
  isr_high :: u16

record idtr =
  idtr_limit :: u16
  idtr_base :: u32

record ('f, 'h) ints =
  idt :: "idt_entry list"
  idtr_var :: idtr
  isr_table :: "'f option list"
  loaded_idtr :: "idtr option"
  int_enabled :: bool
  int_hw :: 'h

text \<open>Addresses given by the linker: the table and the entry stubs of \<open>interrupts.s\<close>.\<close>

record idt_addrs =
  addr_idt :: u32
  isr_stub :: "nat \<Rightarrow> u32"
  irq_stub :: "nat \<Rightarrow> u32"

abbreviation (input) MAX_HANDELERS_PER_INTURRUPT :: nat where "MAX_HANDELERS_PER_INTURRUPT \<equiv> 4"
abbreviation (input) INTURRUPT_COUNT :: nat where "INTURRUPT_COUNT \<equiv> 256"
abbreviation (input) EXCEPTION_COUNT :: nat where "EXCEPTION_COUNT \<equiv> 32"
abbreviation (input) IRQ_COUNT :: nat where "IRQ_COUNT \<equiv> 16"
abbreviation (input) SYSCALL_INT :: u8 where "SYSCALL_INT \<equiv> 0x67"
abbreviation (input) IDT_INTERRUPT_GATE :: u8 where "IDT_INTERRUPT_GATE \<equiv> 0x8E"
abbreviation (input) IDT_TRAP_GATE_USER :: u8 where "IDT_TRAP_GATE_USER \<equiv> 0xEF"

definition irq_to_vector :: "u8 \<Rightarrow> u8" where
  "irq_to_vector irq = irq + 0x20"

definition encode_gate :: "u32 \<Rightarrow> u16 \<Rightarrow> u8 \<Rightarrow> idt_entry" where
  "encode_gate base sel flags = \<lparr>isr_low = ucast (base AND 0xFFFF), kernel_cs = sel, i_reserved = 0, attributes = flags,
     isr_high = ucast (drop_bit 16 base AND 0xFFFF)\<rparr>"

definition idt_set_gate :: "u8 \<Rightarrow> u32 \<Rightarrow> u16 \<Rightarrow> u8 \<Rightarrow> ('f, 'h) ints \<Rightarrow> ('f, 'h) ints option" where
  "idt_set_gate num base sel flags s = do {
     g \<leftarrow> aset (idt s) (unat num) (encode_gate base sel flags);
     Some (s\<lparr>idt := g\<rparr>) }"

text \<open>The two loops of \<open>idt_init\<close> set consecutive gates.\<close>

primrec set_gates :: "nat list \<Rightarrow> nat \<Rightarrow> (nat \<Rightarrow> u32) \<Rightarrow> ('f, 'h) ints \<Rightarrow> ('f, 'h) ints option" where
  "set_gates [] first stub s = Some s"
| "set_gates (i # is) first stub s = do {
     s \<leftarrow> idt_set_gate (of_nat (first + i)) (stub i) GDT_KERNEL_CODE_SEL IDT_INTERRUPT_GATE s;
     set_gates is first stub s }"

definition idt_init :: "'h io_ports \<Rightarrow> idt_addrs \<Rightarrow> ('f, 'h) ints \<Rightarrow> ('f, 'h) ints option" where
  "idt_init io ad s = do {
     let s = s\<lparr>int_hw := pic_remap io 0x20 0x28 (pic_disable_all io (int_hw s))\<rparr>;
     let s = s\<lparr>isr_table := replicate (INTURRUPT_COUNT * MAX_HANDELERS_PER_INTURRUPT) None\<rparr>;
     let s = s\<lparr>idtr_var := \<lparr>idtr_limit = 256 * 8 - 1, idtr_base = addr_idt ad\<rparr>\<rparr>;
     s \<leftarrow> set_gates [0..<EXCEPTION_COUNT] 0 (isr_stub ad) s;
     s \<leftarrow> set_gates [0..<IRQ_COUNT] EXCEPTION_COUNT (irq_stub ad) s;
     s \<leftarrow> idt_set_gate SYSCALL_INT (isr_stub ad 103) GDT_KERNEL_CODE_SEL IDT_TRAP_GATE_USER s;
     Some (s\<lparr>loaded_idtr := Some (idtr_var s), int_enabled := True\<rparr>) }"

definition isr_register_handler :: "u8 \<Rightarrow> 'f \<Rightarrow> ('f, 'h) ints \<Rightarrow> ('f, 'h) ints option" where
  "isr_register_handler num handler s = do {
     t \<leftarrow> aset (isr_table s) (unat num * MAX_HANDELERS_PER_INTURRUPT) (Some handler);
     Some (s\<lparr>isr_table := t\<rparr>) }"

primrec unregister_slots :: "nat list \<Rightarrow> u8 \<Rightarrow> 'f \<Rightarrow> ('f, 'h) ints \<Rightarrow> ('f, 'h) ints option" where
  "unregister_slots [] num handler s = Some s"
| "unregister_slots (i # is) num handler s = do {
     f \<leftarrow> aget (isr_table s) (unat num * MAX_HANDELERS_PER_INTURRUPT + i);
     if f = Some handler then do {
       t \<leftarrow> aset (isr_table s) (unat num * MAX_HANDELERS_PER_INTURRUPT + i) None;
       Some (s\<lparr>isr_table := t\<rparr>) }
     else unregister_slots is num handler s }"

definition isr_unregister_handler :: "u8 \<Rightarrow> 'f \<Rightarrow> ('f, 'h) ints \<Rightarrow> ('f, 'h) ints option" where
  "isr_unregister_handler num handler s = unregister_slots [0..<MAX_HANDELERS_PER_INTURRUPT] num handler s"

text \<open>The dispatcher.  \<open>call\<close> runs a handler on the frame, the interrupt state and the rest of the kernel.\<close>

type_synonym ('f, 'h, 's) handler_code =
  "'f \<Rightarrow> interrupt_frame \<Rightarrow> ('f, 'h) ints \<times> 's \<Rightarrow> (interrupt_frame \<times> ('f, 'h) ints \<times> 's, ('f, 'h) ints \<times> 's) flow option"

primrec run_handlers ::
  "('f, 'h, 's) handler_code \<Rightarrow> nat list \<Rightarrow> interrupt_frame \<Rightarrow> ('f, 'h) ints \<times> 's \<Rightarrow>
     (interrupt_frame \<times> ('f, 'h) ints \<times> 's, ('f, 'h) ints \<times> 's) flow option" where
  "run_handlers call [] frame st = Some (Returned (frame, st))"
| "run_handlers call (i # is) frame st = do {
     f \<leftarrow> aget (isr_table (fst st)) (unat (f_int_no frame * of_nat MAX_HANDELERS_PER_INTURRUPT + of_nat i));
     case f of
       None \<Rightarrow> run_handlers call is frame st
     | Some g \<Rightarrow> do {
         r \<leftarrow> call g frame st;
         case r of
           Gone st \<Rightarrow> Some (Gone st)
         | Returned (frame, st) \<Rightarrow> run_handlers call is frame st } }"

definition send_eoi :: "'h io_ports \<Rightarrow> u32 \<Rightarrow> 'h \<Rightarrow> 'h" where
  "send_eoi io int_no h =
     (let h = (if 40 \<le> int_no then io_outb io 0xA0 0x20 h else h) in io_outb io 0x20 0x20 h)"

definition isr_common_handler ::
  "'h io_ports \<Rightarrow> ('f, 'h, 's) handler_code \<Rightarrow> interrupt_frame \<Rightarrow> ('f, 'h) ints \<times> 's \<Rightarrow>
     (interrupt_frame \<times> ('f, 'h) ints \<times> 's, ('f, 'h) ints \<times> 's) flow option" where
  "isr_common_handler io call frame st = do {
     r \<leftarrow> run_handlers call [0..<MAX_HANDELERS_PER_INTURRUPT] frame st;
     case r of
       Gone st \<Rightarrow> Some (Gone st)
     | Returned (frame, s, k) \<Rightarrow>
         Some (Returned (frame, s\<lparr>int_hw := send_eoi io (f_int_no frame) (int_hw s)\<rparr>, k)) }"

section \<open>Gates\<close>

definition gate_target :: "idt_entry \<Rightarrow> u32" where
  "gate_target e = ucast (isr_low e) OR push_bit 16 (ucast (isr_high e))"

lemma gate_target_encode: "gate_target (encode_gate base sel flags) = base"
proof (rule bit_word_eqI)
  fix n :: nat
  assume "n < LENGTH(32)"
  then show "bit (gate_target (encode_gate base sel flags)) n \<longleftrightarrow> bit base n"
    by (cases "n < 16") (auto simp: gate_target_def encode_gate_def and_low_bits bit_simps)
qed

text \<open>The gate of a vector: target, selector and attributes.\<close>

definition gate :: "('f, 'h) ints \<Rightarrow> nat \<Rightarrow> u32 \<times> u16 \<times> u8" where
  "gate s n = (gate_target (idt s ! n), kernel_cs (idt s ! n), attributes (idt s ! n))"

lemma set_gates_ok:
  assumes "\<forall>i \<in> set is. first + i < 256" "length (idt s) = 256"
  shows "\<exists>g. set_gates is first stub s = Some (s\<lparr>idt := g\<rparr>) \<and> length g = 256 \<and>
    (\<forall>n < 256. gate (s\<lparr>idt := g\<rparr>) n =
      (if first \<le> n \<and> n - first \<in> set is then (stub (n - first), 0x08, 0x8E) else gate s n))"
  using assms
proof (induction "is" arbitrary: s)
  case (Cons i "is")
  have u: "unat (of_nat (first + i) :: u8) = first + i" using Cons.prems(1) by (simp add: unat_of_nat del: of_nat_add)
  let ?s = "s\<lparr>idt := (idt s)[first + i := encode_gate (stub i) 0x08 0x8E]\<rparr>"
  have s: "idt_set_gate (of_nat (first + i)) (stub i) 0x08 0x8E s = Some ?s"
    using Cons.prems u by (simp add: idt_set_gate_def del: of_nat_add)
  obtain g where g: "set_gates is first stub ?s = Some (?s\<lparr>idt := g\<rparr>)" "length g = 256"
    "\<forall>n < 256. gate (?s\<lparr>idt := g\<rparr>) n = (if first \<le> n \<and> n - first \<in> set is then (stub (n - first), 0x08, 0x8E) else gate ?s n)"
    using Cons.IH [of ?s] Cons.prems by auto
  have "gate ?s n = (if n = first + i then (stub i, 0x08, 0x8E) else gate s n)" if "n < 256" for n
    using that Cons.prems gate_target_encode by (auto simp: gate_def nth_list_update encode_gate_def)
  with g s show ?case by (intro exI [of _ g]) (auto simp del: of_nat_add simp: gate_def)
qed (auto intro!: exI [of _ "idt s" for s])

text \<open>C28. \<open>idt_init\<close> sets the gates of the 32 exceptions and of the 16 interrupt lines to their stubs,
  for the kernel only, and the gate of the system call 0x67 to its stub with privilege level 3; it changes no
  other gate.  The table is loaded, no handler is registered, and interrupts are enabled last.\<close>

theorem idt_init_gates:
  assumes "length (idt s) = 256"
  shows "\<exists>s'. idt_init io ad s = Some s' \<and>
    (\<forall>n < 256. gate s' n =
      (if n < 32 then (isr_stub ad n, GDT_KERNEL_CODE_SEL, IDT_INTERRUPT_GATE)
       else if n < 48 then (irq_stub ad (n - 32), GDT_KERNEL_CODE_SEL, IDT_INTERRUPT_GATE)
       else if n = 0x67 then (isr_stub ad 103, GDT_KERNEL_CODE_SEL, IDT_TRAP_GATE_USER)
       else gate s n)) \<and>
    loaded_idtr s' = Some \<lparr>idtr_limit = 2047, idtr_base = addr_idt ad\<rparr> \<and> isr_table s' = replicate 1024 None \<and> int_enabled s'"
proof -
  let ?s = "s\<lparr>int_hw := pic_remap io 0x20 0x28 (pic_disable_all io (int_hw s)), isr_table := replicate 1024 None,
    idtr_var := \<lparr>idtr_limit = 2047, idtr_base = addr_idt ad\<rparr>\<rparr>"
  obtain g1 where g1: "set_gates [0..<32] 0 (isr_stub ad) ?s = Some (?s\<lparr>idt := g1\<rparr>)" "length g1 = 256"
    "\<forall>n < 256. gate (?s\<lparr>idt := g1\<rparr>) n = (if 0 \<le> n \<and> n - 0 \<in> set [0..<32] then (isr_stub ad (n - 0), 0x08, 0x8E) else gate ?s n)"
    using set_gates_ok [of "[0..<32]" 0 ?s] assms by (auto simp del: upt_Suc upt_rec_numeral)
  let ?s1 = "?s\<lparr>idt := g1\<rparr>"
  obtain g2 where g2: "set_gates [0..<16] 32 (irq_stub ad) ?s1 = Some (?s1\<lparr>idt := g2\<rparr>)" "length g2 = 256"
    "\<forall>n < 256. gate (?s1\<lparr>idt := g2\<rparr>) n = (if 32 \<le> n \<and> n - 32 \<in> set [0..<16] then (irq_stub ad (n - 32), 0x08, 0x8E) else gate ?s1 n)"
    using set_gates_ok [of "[0..<16]" 32 ?s1] g1(2) by (auto simp del: upt_Suc upt_rec_numeral)
  let ?g3 = "g2[0x67 := encode_gate (isr_stub ad 103) 0x08 0xEF]"
  have g3: "gate (?s1\<lparr>idt := ?g3\<rparr>) n = (if n = 0x67 then (isr_stub ad 103, 0x08, 0xEF) else gate (?s1\<lparr>idt := g2\<rparr>) n)"
    if "n < 256" for n
    using that g2(2) gate_target_encode [of "isr_stub ad 103" "0x08" "0xEF"]
    by (auto simp: gate_def nth_list_update encode_gate_def)
  let ?s' = "?s1\<lparr>idt := ?g3, loaded_idtr := Some \<lparr>idtr_limit = 2047, idtr_base = addr_idt ad\<rparr>, int_enabled := True\<rparr>"
  have run: "idt_init io ad s = Some ?s'"
    using g1(1) g2(1, 2) by (simp add: idt_init_def idt_set_gate_def Let_def del: upt_Suc upt_rec_numeral)
  have "gate ?s' n = gate (?s1\<lparr>idt := ?g3\<rparr>) n" "gate ?s n = gate s n" for n by (simp_all add: gate_def)
  with run g1(3) g2(3) g3 show ?thesis by (intro exI [of _ ?s']) (auto simp del: upt_Suc upt_rec_numeral)
qed

definition example_ints :: "(nat, pics) ints" where
  "example_ints = \<lparr>idt = replicate 256 (encode_gate 0 0 0), idtr_var = \<lparr>idtr_limit = 0, idtr_base = 0\<rparr>,
     isr_table = replicate 1024 None, loaded_idtr = None, int_enabled = False,
     int_hw = \<lparr>master = example_chip, slave = example_chip\<rparr>\<rparr>"

theorem idt_init_gates_witness:
  "\<exists>s'. idt_init pics_io \<lparr>addr_idt = 0xC0300000, isr_stub = of_nat, irq_stub = of_nat\<rparr> example_ints = Some s' \<and>
     gate s' 0x21 = (1, 0x08, 0x8E)"
  using idt_init_gates [of example_ints pics_io "\<lparr>addr_idt = 0xC0300000, isr_stub = of_nat, irq_stub = of_nat\<rparr>"]
  by (fastforce simp: example_ints_def)

section \<open>The handler table\<close>

text \<open>Slot 0 of a vector is its handler; the code never fills the other slots.\<close>

definition handler_of :: "('f, 'h) ints \<Rightarrow> nat \<Rightarrow> 'f option" where
  "handler_of s n = isr_table s ! (n * 4)"

definition table_ok :: "('f, 'h) ints \<Rightarrow> bool" where
  "table_ok s \<longleftrightarrow> length (isr_table s) = 1024 \<and> (\<forall>k < 1024. k mod 4 \<noteq> 0 \<longrightarrow> isr_table s ! k = None)"

lemma register_ok:
  assumes "table_ok s"
  shows "\<exists>s'. isr_register_handler num h s = Some s' \<and> table_ok s' \<and>
    (\<forall>n < 256. handler_of s' n = (if n = unat num then Some h else handler_of s n)) \<and> int_hw s' = int_hw s"
proof -
  have n: "unat num < 256" using unsigned_less [where 'a = nat, of num] by simp
  then have "isr_register_handler num h s = Some (s\<lparr>isr_table := (isr_table s)[unat num * 4 := Some h]\<rparr>)"
    using assms by (simp add: isr_register_handler_def table_ok_def)
  then show ?thesis using assms n
    by (intro exI [of _ "s\<lparr>isr_table := (isr_table s)[unat num * 4 := Some h]\<rparr>"])
      (auto simp: table_ok_def handler_of_def nth_list_update)
qed

lemma unregister_ok:
  assumes ok: "table_ok s"
  shows "\<exists>s'. isr_unregister_handler num h s = Some s' \<and> table_ok s' \<and>
    (\<forall>n < 256. handler_of s' n = (if n = unat num \<and> handler_of s n = Some h then None else handler_of s n))"
proof -
  have n: "unat num < 256" using unsigned_less [where 'a = nat, of num] by simp
  have u: "[0..<4] = [0, 1, 2, 3 :: nat]" by (simp add: upt_rec)
  have l: "length (isr_table s) = 1024" and e: "\<And>i. 0 < i \<Longrightarrow> i < 4 \<Longrightarrow> isr_table s ! (unat num * 4 + i) = None"
    using ok n by (auto simp: table_ok_def)
  show ?thesis
  proof (cases "handler_of s (unat num) = Some h")
    case True
    let ?s' = "s\<lparr>isr_table := (isr_table s)[unat num * 4 := None]\<rparr>"
    have "isr_unregister_handler num h s = Some ?s'"
      using True n l by (simp add: isr_unregister_handler_def u handler_of_def)
    then show ?thesis using ok n True
      by (intro exI [of _ ?s']) (auto simp: table_ok_def handler_of_def nth_list_update)
  next
    case False
    then have "isr_unregister_handler num h s = Some s"
      using n l e [of 1] e [of 2] e [of 3] by (simp add: isr_unregister_handler_def u handler_of_def)
    with False ok show ?thesis by auto
  qed
qed

text \<open>Sequences of registrations on the cleared table.\<close>

datatype 'f table_op = Register u8 'f | Unregister u8 'f

fun table_step :: "'f table_op \<Rightarrow> ('f, 'h) ints \<Rightarrow> ('f, 'h) ints option" where
  "table_step (Register n h) s = isr_register_handler n h s"
| "table_step (Unregister n h) s = isr_unregister_handler n h s"

primrec table_run :: "'f table_op list \<Rightarrow> ('f, 'h) ints \<Rightarrow> ('f, 'h) ints option" where
  "table_run [] s = Some s"
| "table_run (c # cs) s = do { s \<leftarrow> table_step c s; table_run cs s }"

fun map_step :: "'f table_op \<Rightarrow> (nat \<Rightarrow> 'f option) \<Rightarrow> (nat \<Rightarrow> 'f option)" where
  "map_step (Register n h) m = m(unat n := Some h)"
| "map_step (Unregister n h) m = (if m (unat n) = Some h then m(unat n := None) else m)"

lemma table_run_ok:
  assumes "table_ok s" "\<forall>n < 256. handler_of s n = m n"
  shows "\<exists>s'. table_run cs s = Some s' \<and> table_ok s' \<and> (\<forall>n < 256. handler_of s' n = fold map_step cs m n)"
  using assms
proof (induction cs arbitrary: s m)
  case (Cons c cs)
  have n: "unat num < 256" for num :: u8 using unsigned_less [where 'a = nat, of num] by simp
  have "\<exists>s1. table_step c s = Some s1 \<and> table_ok s1 \<and> (\<forall>n < 256. handler_of s1 n = map_step c m n)"
  proof (cases c)
    case (Register num h)
    then show ?thesis using register_ok [OF Cons.prems(1), of num h] Cons.prems(2) by auto
  next
    case (Unregister num h)
    then show ?thesis using unregister_ok [OF Cons.prems(1), of num h] Cons.prems(2) n by auto
  qed
  then obtain s1 where "table_step c s = Some s1" "table_ok s1" "\<forall>n < 256. handler_of s1 n = map_step c m n" by blast
  with Cons.IH show ?case by simp
qed simp

text \<open>The dispatcher on a table with one handler per vector.\<close>

lemma dispatch_ok:
  assumes ok: "table_ok s" and v: "f_int_no frame < 256"
    and keep: "\<And>g fr s' k'. handler_of s (unat (f_int_no frame)) = Some g \<Longrightarrow> call g frame (s, k) = Some (Returned (fr, s', k')) \<Longrightarrow>
      table_ok s' \<and> f_int_no fr = f_int_no frame"
  shows "isr_common_handler io call frame (s, k) =
    (case handler_of s (unat (f_int_no frame)) of
       None \<Rightarrow> Some (Returned (frame, s\<lparr>int_hw := send_eoi io (f_int_no frame) (int_hw s)\<rparr>, k))
     | Some g \<Rightarrow> do {
         r \<leftarrow> call g frame (s, k);
         case r of Gone st \<Rightarrow> Some (Gone st)
         | Returned (fr, s', k') \<Rightarrow> Some (Returned (fr, s'\<lparr>int_hw := send_eoi io (f_int_no frame) (int_hw s')\<rparr>, k')) })"
proof -
  let ?n = "unat (f_int_no frame)"
  have n: "?n < 256" using v by (simp add: word_less_nat_alt)
  have u: "[0..<4] = 0 # [1, 2, 3 :: nat]" by (simp add: upt_rec)
  have ix: "unat (f_int_no frame * 4 + of_nat i) = ?n * 4 + i" if "i < 4" for i
  proof -
    have "f_int_no frame * 4 + of_nat i = of_nat (?n * 4 + i)" by simp
    moreover have "?n * 4 + i < 2 ^ 32" using n that by simp
    ultimately show ?thesis using unat_of_nat32 by metis
  qed
  have rest: "run_handlers call [1, 2, 3] fr (s', k') = Some (Returned (fr, s', k'))"
    if "table_ok s'" "f_int_no fr = f_int_no frame" for fr s' k'
  proof -
    have "aget (isr_table s') (?n * 4 + i) = Some None" if "0 < i" "i < 4" for i
      using that \<open>table_ok s'\<close> n by (auto simp: table_ok_def)
    from this [of 1] this [of 2] this [of 3] show ?thesis
      using that(2) ix [of 1] ix [of 2] ix [of 3] by simp
  qed
  show ?thesis
  proof (cases "handler_of s ?n")
    case None
    then have "run_handlers call [0..<4] frame (s, k) = Some (Returned (frame, s, k))"
      unfolding u using rest [OF ok refl] ix [of 0] n ok by (simp add: handler_of_def table_ok_def del: One_nat_def)
    with None show ?thesis by (simp add: isr_common_handler_def)
  next
    case (Some g)
    have "run_handlers call [0..<4] frame (s, k) = do {
        r \<leftarrow> call g frame (s, k);
        case r of Gone st \<Rightarrow> Some (Gone st) | Returned (fr, st) \<Rightarrow> run_handlers call [1, 2, 3] fr st }"
      unfolding u using Some ix [of 0] n ok by (simp add: handler_of_def table_ok_def del: One_nat_def run_handlers.simps(2) add: run_handlers.simps(2) [of call 0])
    with Some keep [OF Some] rest show ?thesis
      by (auto simp: isr_common_handler_def simp del: run_handlers.simps split: Option.bind_split flow.split)
  qed
qed

text \<open>Handlers that register nothing in a slot of their own and leave the vector in the frame alone.\<close>

definition well_behaved :: "('f, 'h, 's) handler_code \<Rightarrow> bool" where
  "well_behaved call \<longleftrightarrow> (\<forall>g fr st fr' st'. call g fr st = Some (Returned (fr', st')) \<longrightarrow> table_ok (fst st) \<longrightarrow>
     table_ok (fst st') \<and> f_int_no fr' = f_int_no fr)"

text \<open>C12. After any sequence of registrations and unregistrations on the cleared table, an interrupt calls
  the handler registered last for its vector, if it has not been unregistered, and no other: the table has four
  slots per vector, but registration uses the first one only.  When the handler returns, the end of the interrupt
  is signalled to the master controller, and to the slave first for vectors from 40 on; when there is none, it is
  signalled at once; when the handler switches to another stack, it is not signalled.\<close>

theorem isr_last_handler:
  assumes "table_ok s" "\<forall>n < 256. handler_of s n = None" "well_behaved call" "f_int_no frame < 256"
  shows "\<exists>s'. table_run cs s = Some s' \<and>
    isr_common_handler io call frame (s', k) =
    (case fold map_step cs (\<lambda>_. None) (unat (f_int_no frame)) of
       None \<Rightarrow> Some (Returned (frame, s'\<lparr>int_hw := send_eoi io (f_int_no frame) (int_hw s')\<rparr>, k))
     | Some g \<Rightarrow> do {
         r \<leftarrow> call g frame (s', k);
         case r of Gone st \<Rightarrow> Some (Gone st)
         | Returned (fr, s2, k2) \<Rightarrow> Some (Returned (fr, s2\<lparr>int_hw := send_eoi io (f_int_no frame) (int_hw s2)\<rparr>, k2)) })"
proof -
  obtain s' where s': "table_run cs s = Some s'" "table_ok s'" "\<forall>n < 256. handler_of s' n = fold map_step cs (\<lambda>_. None) n"
    using table_run_ok [OF assms(1), of "\<lambda>_. None" cs] assms(2) by auto
  have "unat (f_int_no frame) < 256" using assms(4) by (simp add: word_less_nat_alt)
  with s'(3) have h: "handler_of s' (unat (f_int_no frame)) = fold map_step cs (\<lambda>_. None) (unat (f_int_no frame))" by blast
  have "table_ok s2 \<and> f_int_no fr = f_int_no frame" if "call g frame (s', k) = Some (Returned (fr, s2, k2))" for g fr s2 k2
    using that s'(2) assms(3) unfolding well_behaved_def by (metis fst_conv)
  with dispatch_ok [OF s'(2) assms(4), of call k io] h s'(1) show ?thesis by auto
qed

definition example_frame :: interrupt_frame where
  "example_frame = \<lparr>f_gs = 0, f_fs = 0, f_es = 0, f_ds = 0, f_edi = 0, f_esi = 0, f_ebp = 0, f_esp = 0, f_ebx = 0, f_edx = 0,
     f_ecx = 0, f_eax = 0, f_int_no = 0x21, f_err_code = 0, f_eip = 0, f_cs = 0, f_eflags = 0, f_useresp = 0, f_ss = 0\<rparr>"

text \<open>Two handlers are registered for the keyboard; the handlers record their number.  Only the second one runs.\<close>

theorem isr_last_handler_witness:
  "\<exists>s' s2. table_run [Register 0x21 5, Register 0x21 7] example_ints = Some s' \<and>
     isr_common_handler pics_io (\<lambda>g fr (s, k). Some (Returned (fr, s, g # k))) example_frame (s', []) =
       Some (Returned (example_frame, s2, [7]))"
proof -
  have "table_ok example_ints" "\<forall>n < 256. handler_of example_ints n = None"
    by (auto simp: table_ok_def handler_of_def example_ints_def)
  moreover have "well_behaved (\<lambda>g fr (s, k). Some (Returned (fr, s, g # k)))" by (auto simp: well_behaved_def)
  moreover have "f_int_no example_frame < 256" by (simp add: example_frame_def)
  ultimately show ?thesis
    using isr_last_handler [of example_ints "\<lambda>g fr (s, k). Some (Returned (fr, s, g # k))" example_frame
        "[Register 0x21 5, Register 0x21 7]" pics_io "[]"]
    by (auto simp: example_frame_def)
qed

end
