(* ===== verification/Clock.thy ===== *)
theory Clock
  imports Idt
begin

text \<open>
  The timer: \<open>kernel/time/time.c\<close>.  Callbacks are function pointers of a type \<open>'c\<close>, null being \<open>None\<close>; what they do
  to the clock and the rest of the kernel is a parameter of the interrupt handler.
\<close>

abbreviation (input) PIT_FREQUENCY :: u32 where "PIT_FREQUENCY \<equiv> 1193180"
abbreviation (input) MAX_TIMER_CALLBACKS :: nat where "MAX_TIMER_CALLBACKS \<equiv> 16"
abbreviation (input) PIT_CHANNEL0 :: u16 where "PIT_CHANNEL0 \<equiv> 0x40"
abbreviation (input) PIT_COMMAND_PORT :: u16 where "PIT_COMMAND_PORT \<equiv> 0x43"

record 'c clock =
  system_ticks :: u64
  callbacks :: "'c option list"
  callback_count :: nat

text \<open>The loop of the handler reads the count again before every step, since a callback may change it.\<close>

partial_function (option) run_callbacks ::
  "('c \<Rightarrow> u64 \<Rightarrow> 'c clock \<times> 's \<Rightarrow> ('c clock \<times> 's) option) \<Rightarrow> nat \<Rightarrow> 'c clock \<times> 's \<Rightarrow> ('c clock \<times> 's) option" where
  "run_callbacks call i st =
     (if i < callback_count (fst st) then do {
        f \<leftarrow> aget (callbacks (fst st)) i;
        st \<leftarrow> (case f of None \<Rightarrow> Some st | Some g \<Rightarrow> call g (system_ticks (fst st)) st);
        run_callbacks call (i + 1) st }
      else Some st)"

definition timer_interrupt_handler ::
  "('c \<Rightarrow> u64 \<Rightarrow> 'c clock \<times> 's \<Rightarrow> ('c clock \<times> 's) option) \<Rightarrow> 'c clock \<times> 's \<Rightarrow> ('c clock \<times> 's) option" where
  "timer_interrupt_handler call st =
     run_callbacks call 0 ((fst st)\<lparr>system_ticks := system_ticks (fst st) + 1\<rparr>, snd st)"

definition clock_init :: "'h io_ports \<Rightarrow> 'f \<Rightarrow> u32 \<Rightarrow> ('f, 'h) ints \<Rightarrow> ('f, 'h) ints option" where
  "clock_init io handler frequency s = do {
     divisor \<leftarrow> udiv PIT_FREQUENCY frequency;
     let h = io_outb io PIT_COMMAND_PORT 0x36 (int_hw s);
     let h = io_outb io PIT_CHANNEL0 (ucast (divisor AND 0xFF)) h;
     let h = io_outb io PIT_CHANNEL0 (ucast (drop_bit 8 divisor AND 0xFF)) h;
     s \<leftarrow> isr_register_handler (irq_to_vector 0) handler (s\<lparr>int_hw := h\<rparr>);
     h \<leftarrow> pic_clear_mask io 0 (int_hw s);
     Some (s\<lparr>int_hw := h\<rparr>) }"

definition register_timer_callback :: "'c option \<Rightarrow> 'c clock \<Rightarrow> (int \<times> 'c clock) option" where
  "register_timer_callback callback c =
     (if MAX_TIMER_CALLBACKS \<le> callback_count c then Some (1, c)
      else do {
        cs \<leftarrow> aset (callbacks c) (callback_count c) callback;
        Some (0, c\<lparr>callbacks := cs, callback_count := callback_count c + 1\<rparr>) })"

primrec shift_callbacks :: "nat list \<Rightarrow> 'c clock \<Rightarrow> 'c clock option" where
  "shift_callbacks [] c = Some c"
| "shift_callbacks (j # js) c = do {
     f \<leftarrow> aget (callbacks c) (j + 1);
     cs \<leftarrow> aset (callbacks c) j f;
     shift_callbacks js (c\<lparr>callbacks := cs\<rparr>) }"

primrec unregister_from :: "nat list \<Rightarrow> 'c option \<Rightarrow> 'c clock \<Rightarrow> 'c clock option" where
  "unregister_from [] callback c = Some c"
| "unregister_from (i # is) callback c = do {
     f \<leftarrow> aget (callbacks c) i;
     if f = callback then do {
       c \<leftarrow> shift_callbacks [i..<callback_count c - 1] c;
       cs \<leftarrow> aset (callbacks c) (callback_count c - 1) None;
       Some (c\<lparr>callbacks := cs, callback_count := callback_count c - 1\<rparr>) }
     else unregister_from is callback c }"

definition unregister_timer_callback :: "'c option \<Rightarrow> 'c clock \<Rightarrow> 'c clock option" where
  "unregister_timer_callback callback c = unregister_from [0..<callback_count c] callback c"

section \<open>The callbacks as a list\<close>

definition clock_ok :: "'c clock \<Rightarrow> bool" where
  "clock_ok c \<longleftrightarrow> length (callbacks c) = 16 \<and> callback_count c \<le> 16"

definition cb_list :: "'c clock \<Rightarrow> 'c option list" where
  "cb_list c = take (callback_count c) (callbacks c)"

lemma register_callback_ok:
  assumes "clock_ok c"
  shows "\<exists>r c'. register_timer_callback f c = Some (r, c') \<and> clock_ok c' \<and> system_ticks c' = system_ticks c \<and>
    (if length (cb_list c) < 16 then r = 0 \<and> cb_list c' = cb_list c @ [f] else r = 1 \<and> c' = c)"
  using assms by (auto simp: register_timer_callback_def clock_ok_def cb_list_def take_Suc_conv_app_nth)

lemma shift_callbacks_ok:
  assumes "j \<le> n" "n < length (callbacks c)"
  shows "shift_callbacks [j..<n] c =
    Some (c\<lparr>callbacks := take j (callbacks c) @ take (n - j) (drop (Suc j) (callbacks c)) @ drop n (callbacks c)\<rparr>)"
  using assms
proof (induction "n - j" arbitrary: j c)
  case 0
  then show ?case by simp
next
  case (Suc k)
  then have j: "j < n" "Suc j < length (callbacks c)" by simp_all
  let ?c = "c\<lparr>callbacks := (callbacks c)[j := callbacks c ! Suc j]\<rparr>"
  have "shift_callbacks [j..<n] c = shift_callbacks [Suc j..<n] ?c"
    using j by (simp add: upt_conv_Cons)
  also have "\<dots> = Some (?c\<lparr>callbacks := take (Suc j) (callbacks ?c) @ take (n - Suc j) (drop (Suc (Suc j)) (callbacks ?c)) @ drop n (callbacks ?c)\<rparr>)"
    using Suc j by (intro Suc.hyps(1)) simp_all
  also have "take (Suc j) (callbacks ?c) @ take (n - Suc j) (drop (Suc (Suc j)) (callbacks ?c)) @ drop n (callbacks ?c) =
      take j (callbacks c) @ take (n - j) (drop (Suc j) (callbacks c)) @ drop n (callbacks c)"
  proof -
    have "n - j = Suc (n - Suc j)" using j by simp
    then have "take (n - j) (drop (Suc j) (callbacks c)) = callbacks c ! Suc j # take (n - Suc j) (drop (Suc (Suc j)) (callbacks c))"
      using j(2) by (simp add: Cons_nth_drop_Suc [symmetric])
    with j show ?thesis by (simp add: take_Suc_conv_app_nth)
  qed
  finally show ?case by simp
qed

lemma remove1_take:
  assumes "i < n" "n \<le> length xs" "xs ! i = f" "\<And>k. k < i \<Longrightarrow> xs ! k \<noteq> f"
  shows "remove1 f (take n xs) = take i xs @ take (n - Suc i) (drop (Suc i) xs)"
proof -
  have "take n xs = take i xs @ f # take (n - Suc i) (drop (Suc i) xs)"
  proof -
    have "take n xs = take i xs @ take (n - i) (drop i xs)" using assms(1) by (simp add: take_add [symmetric])
    moreover have "drop i xs = f # drop (Suc i) xs" using assms(1-3) by (simp add: Cons_nth_drop_Suc [symmetric])
    moreover have "n - i = Suc (n - Suc i)" using assms(1) by simp
    ultimately show ?thesis by simp
  qed
  moreover have "f \<notin> set (take i xs)" using assms by (auto simp: in_set_conv_nth)
  ultimately show ?thesis by (simp add: remove1_append)
qed

lemma unregister_from_ok:
  assumes ok: "clock_ok c" and i: "i \<le> callback_count c" and before: "\<And>k. k < i \<Longrightarrow> callbacks c ! k \<noteq> f"
  shows "\<exists>c'. unregister_from [i..<callback_count c] f c = Some c' \<and> clock_ok c' \<and> system_ticks c' = system_ticks c \<and>
    cb_list c' = remove1 f (cb_list c)"
  using i before
proof (induction "callback_count c - i" arbitrary: i)
  case 0
  then have "f \<notin> set (cb_list c)" using ok by (auto simp: cb_list_def clock_ok_def in_set_conv_nth)
  with 0 ok show ?case by (simp add: remove1_idem)
next
  case (Suc m)
  let ?n = "callback_count c"
  have i: "i < ?n" "?n \<le> 16" "length (callbacks c) = 16" using Suc ok by (auto simp: clock_ok_def)
  show ?case
  proof (cases "callbacks c ! i = f")
    case True
    let ?cs = "take i (callbacks c) @ take (?n - 1 - i) (drop (Suc i) (callbacks c)) @ drop (?n - 1) (callbacks c)"
    have sh: "shift_callbacks [i..<?n - 1] c = Some (c\<lparr>callbacks := ?cs\<rparr>)"
      using i by (intro shift_callbacks_ok) auto
    have l: "length ?cs = 16" using i by simp
    let ?c' = "c\<lparr>callbacks := ?cs[?n - 1 := None], callback_count := ?n - 1\<rparr>"
    have "unregister_from [i..<?n] f c = Some ?c'"
      using i True sh l by (simp add: upt_conv_Cons)
    moreover have "cb_list ?c' = remove1 f (cb_list c)"
    proof -
      have "cb_list ?c' = take (?n - 1) ?cs" by (simp add: cb_list_def)
      also have "\<dots> = take i (callbacks c) @ take (?n - Suc i) (drop (Suc i) (callbacks c))" using i by simp
      also have "\<dots> = remove1 f (cb_list c)"
        unfolding cb_list_def by (rule remove1_take [symmetric]) (use i True Suc.prems in auto)
      finally show ?thesis .
    qed
    moreover have "clock_ok ?c'" using l i unfolding clock_ok_def by simp
    ultimately show ?thesis by auto
  next
    case False
    have "\<And>k. k < Suc i \<Longrightarrow> callbacks c ! k \<noteq> f" using Suc.prems(2) False by (auto simp: less_Suc_eq)
    then have "\<exists>c'. unregister_from [Suc i..<?n] f c = Some c' \<and> clock_ok c' \<and> system_ticks c' = system_ticks c \<and>
        cb_list c' = remove1 f (cb_list c)"
      using Suc.hyps i by (intro Suc.hyps(1)) auto
    then show ?thesis using i False by (simp add: upt_conv_Cons)
  qed
qed

lemma run_callbacks_ok:
  assumes ok: "clock_ok c" and keep: "\<And>g t k. call g t (c, k) = Some (c, run g t k)"
    and i: "i \<le> callback_count c"
  shows "run_callbacks call i (c, k) =
    Some (c, fold (\<lambda>f. case f of None \<Rightarrow> id | Some g \<Rightarrow> run g (system_ticks c)) (drop i (cb_list c)) k)"
  using i
proof (induction "callback_count c - i" arbitrary: i k)
  case 0
  then show ?case by (subst run_callbacks.simps) (simp add: cb_list_def)
next
  case (Suc m)
  have i: "i < callback_count c" "i < length (callbacks c)" using Suc ok by (auto simp: clock_ok_def)
  then have d: "drop i (cb_list c) = callbacks c ! i # drop (Suc i) (cb_list c)"
    using ok by (simp add: cb_list_def clock_ok_def Cons_nth_drop_Suc [symmetric])
  show ?case
    using i Suc.hyps(1) [of "Suc i"] Suc.hyps(2) keep
    by (subst run_callbacks.simps) (simp add: d split: option.split)
qed

text \<open>C31. The callback table implements a list of at most 16 callbacks.  Registering appends, or
  reports 1 and changes nothing when 16 are registered; unregistering removes the first occurrence; and a timer
  interrupt adds one to the tick count and calls every callback in the order of the list with the new count,
  when the callbacks leave the clock alone.\<close>

theorem timer_callbacks_refine:
  assumes "clock_ok c" "\<And>g t c k. call g t (c, k) = Some (c, run g t k)"
  shows "(\<exists>r c'. register_timer_callback f c = Some (r, c') \<and> clock_ok c' \<and>
      (if length (cb_list c) < 16 then r = 0 \<and> cb_list c' = cb_list c @ [f] else r = 1 \<and> c' = c)) \<and>
    (\<exists>c'. unregister_timer_callback f c = Some c' \<and> clock_ok c' \<and> cb_list c' = remove1 f (cb_list c)) \<and>
    (\<exists>c'. timer_interrupt_handler call (c, k) =
        Some (c', fold (\<lambda>f. case f of None \<Rightarrow> id | Some g \<Rightarrow> run g (system_ticks c + 1)) (cb_list c) k) \<and>
      system_ticks c' = system_ticks c + 1 \<and> cb_list c' = cb_list c \<and> clock_ok c')"
proof (intro conjI)
  show "\<exists>r c'. register_timer_callback f c = Some (r, c') \<and> clock_ok c' \<and>
      (if length (cb_list c) < 16 then r = 0 \<and> cb_list c' = cb_list c @ [f] else r = 1 \<and> c' = c)"
    using register_callback_ok [OF assms(1)] by blast
  show "\<exists>c'. unregister_timer_callback f c = Some c' \<and> clock_ok c' \<and> cb_list c' = remove1 f (cb_list c)"
    using unregister_from_ok [OF assms(1), of 0 f] by (auto simp: unregister_timer_callback_def)
  let ?c = "c\<lparr>system_ticks := system_ticks c + 1\<rparr>"
  have "clock_ok ?c" "cb_list ?c = cb_list c" using assms(1) by (simp_all add: clock_ok_def cb_list_def)
  then show "\<exists>c'. timer_interrupt_handler call (c, k) =
        Some (c', fold (\<lambda>f. case f of None \<Rightarrow> id | Some g \<Rightarrow> run g (system_ticks c + 1)) (cb_list c) k) \<and>
      system_ticks c' = system_ticks c + 1 \<and> cb_list c' = cb_list c \<and> clock_ok c'"
    using run_callbacks_ok [of ?c call run 0 k] assms(2) by (auto simp: timer_interrupt_handler_def)
qed

definition example_clock :: "nat clock" where
  "example_clock = \<lparr>system_ticks = 41, callbacks = [Some 3, Some 8] @ replicate 14 None, callback_count = 2\<rparr>"

theorem timer_callbacks_refine_witness:
  "\<exists>c'. timer_interrupt_handler (\<lambda>g t (c, k). Some (c, (g, t) # k)) (example_clock, []) = Some (c', [(8, 42), (3, 42)])"
proof -
  have "clock_ok example_clock" by (simp add: clock_ok_def example_clock_def)
  from timer_callbacks_refine [OF this, of "\<lambda>g t (c, k). Some (c, (g, t) # k)" "\<lambda>g t k. (g, t) # k" None "[]"] show ?thesis
    by (auto simp: cb_list_def example_clock_def)
qed

section \<open>The rate of the timer\<close>

lemma unat_bytes_32:
  "unat (ucast (w AND 0xFF) :: u8) = unat (w :: u32) mod 256"
  "unat (ucast (drop_bit 8 w AND 0xFF) :: u8) = unat w div 256 mod 256"
proof -
  have *: "ucast (v AND 0xFF) = (ucast v :: u8)" for v :: u32
    by (rule bit_word_eqI) (auto simp: and_low_bits bit_simps)
  show "unat (ucast (w AND 0xFF) :: u8) = unat w mod 256" unfolding * by (simp add: unsigned_ucast_eq take_bit_eq_mod)
  show "unat (ucast (drop_bit 8 w AND 0xFF) :: u8) = unat w div 256 mod 256"
    unfolding * by (simp add: unsigned_ucast_eq take_bit_eq_mod drop_bit_eq_div unat_div)
qed

text \<open>C32. \<open>clock_init\<close> writes the command byte and then a low and a high byte of the divisor to the
  timer.  The two bytes are the divisor \<open>1193180 / frequency\<close> exactly when the frequency is at least 19 Hz; below,
  the divisor has more than 16 bits and is cut.  Afterwards the handler is registered for vector 32 and line 0 is
  unmasked.\<close>

theorem clock_init_divisor:
  assumes "0 < frequency"
  shows "\<exists>lo hi. clock_init io handler frequency s =
      do { s \<leftarrow> isr_register_handler 32 handler
             (s\<lparr>int_hw := io_outb io 0x40 hi (io_outb io 0x40 lo (io_outb io 0x43 0x36 (int_hw s)))\<rparr>);
           h \<leftarrow> pic_clear_mask io 0 (int_hw s);
           Some (s\<lparr>int_hw := h\<rparr>) } \<and>
    (unat lo + 256 * unat hi = 1193180 div unat frequency \<longleftrightarrow> 19 \<le> frequency)"
proof -
  let ?d = "PIT_FREQUENCY div frequency"
  have d: "unat ?d = 1193180 div unat frequency" by (simp add: unat_div)
  have f: "0 < unat frequency" using assms by (simp add: unat_gt_0 word_gt_0)
  have bytes: "unat (ucast (?d AND 0xFF) :: u8) + 256 * unat (ucast (drop_bit 8 ?d AND 0xFF) :: u8) = unat ?d mod 65536"
    using mod_mult2_eq [of "unat ?d" 256 256] by (subst unat_bytes_32(2), subst unat_bytes_32(1)) simp
  have "unat ?d mod 65536 = unat ?d \<longleftrightarrow> unat ?d < 65536" by (auto intro: mod_less dest: sym [of _ "unat ?d"])
  moreover have "unat ?d < 65536 \<longleftrightarrow> 19 \<le> unat frequency"
  proof
    assume "unat ?d < 65536"
    then have "1193180 div unat frequency < 65536" using d by simp
    then have "1193180 < 65536 * unat frequency" using f by (simp add: div_less_iff_less_mult)
    then show "19 \<le> unat frequency" by simp
  next
    assume "19 \<le> unat frequency"
    then have "1193180 < 65536 * unat frequency" by simp
    then show "unat ?d < 65536" using f d by (simp add: div_less_iff_less_mult)
  qed
  ultimately have e: "(unat ?d mod 65536 = 1193180 div unat frequency) = (19 \<le> frequency)"
    unfolding d [symmetric] by (simp add: word_le_nat_alt)
  have "clock_init io handler frequency s =
      do { s \<leftarrow> isr_register_handler 32 handler
             (s\<lparr>int_hw := io_outb io 0x40 (ucast (drop_bit 8 ?d AND 0xFF)) (io_outb io 0x40 (ucast (?d AND 0xFF)) (io_outb io 0x43 0x36 (int_hw s)))\<rparr>);
           h \<leftarrow> pic_clear_mask io 0 (int_hw s);
           Some (s\<lparr>int_hw := h\<rparr>) }"
    using assms by (simp add: clock_init_def irq_to_vector_def Let_def word_gt_0)
  then show ?thesis
    by (intro exI [of _ "ucast (?d AND 0xFF)"] exI [of _ "ucast (drop_bit 8 ?d AND 0xFF)"] conjI) (simp_all only: bytes e)
qed

theorem clock_init_divisor_witness:
  "\<exists>(lo :: u8) (hi :: u8) s'. clock_init pics_io 1 100 example_ints = Some s' \<and> unat lo + 256 * unat hi = 11931 \<and> \<not> masked (int_hw s') 0"
proof -
  obtain lo hi where c: "clock_init pics_io 1 100 example_ints =
      do { s \<leftarrow> isr_register_handler 32 1
             (example_ints\<lparr>int_hw := io_outb pics_io 0x40 hi (io_outb pics_io 0x40 lo (io_outb pics_io 0x43 0x36 (int_hw example_ints)))\<rparr>);
           h \<leftarrow> pic_clear_mask pics_io 0 (int_hw s);
           Some (s\<lparr>int_hw := h\<rparr>) }" "unat lo + 256 * unat hi = 11931"
    using clock_init_divisor [of 100 pics_io 1 example_ints] by auto
  have ok: "table_ok example_ints" "pics_ready (int_hw example_ints)"
    by (auto simp: table_ok_def example_ints_def pics_ready_def example_chip_def)
  have pit: "io_outb pics_io 0x40 hi (io_outb pics_io 0x40 lo (io_outb pics_io 0x43 0x36 (int_hw example_ints))) = int_hw example_ints"
    by (simp add: pics_simps)
  obtain s1 where s1: "isr_register_handler 32 1 example_ints = Some s1" "int_hw s1 = int_hw example_ints"
    using register_ok [OF ok(1)] by blast
  obtain p where p: "pic_clear_mask pics_io 0 (int_hw example_ints) = Some p" "\<not> masked p 0"
    using clear_mask_ok [OF ok(2), of 0] by auto
  have "clock_init pics_io 1 100 example_ints = Some (s1\<lparr>int_hw := p\<rparr>)"
    using c(1) s1 p(1) unfolding pit by simp
  with c(2) p(2) show ?thesis by auto
qed

end
