(* ===== verification/Memory.thy ===== *)
theory Memory
  imports Prelude
begin

text \<open>
  The memory the kernel's own data structures live in, as an interface: loads and stores of words, and a call that maps
  a new page.  A load or store at an address that is not mapped, or not aligned, gives \<open>None\<close>.  The heap allocator is
  written against the operations, its proofs rest on the laws of the locales below, and the theory of kernel memory
  proves the laws for the page tables.
\<close>

record 's mem_ops =
  mem_load :: "u32 \<Rightarrow> 's \<Rightarrow> u32 option"
  mem_store :: "u32 \<Rightarrow> u32 \<Rightarrow> 's \<Rightarrow> 's option"
  mem_page :: "u32 \<Rightarrow> 's \<Rightarrow> (u32 \<times> 's) option"

text \<open>\<open>here s a\<close>: the word at \<open>a\<close> is mapped.  Different mapped words do not overlap.\<close>

locale word_memory =
  fixes ops :: "'s mem_ops"
    and ok :: "'s \<Rightarrow> bool"
    and here :: "'s \<Rightarrow> u32 \<Rightarrow> bool"
  assumes load_here: "ok s \<Longrightarrow> here s a \<Longrightarrow> \<exists>w. mem_load ops a s = Some w"
    and store_here: "ok s \<Longrightarrow> here s a \<Longrightarrow> \<exists>s'. mem_store ops a w s = Some s' \<and> ok s' \<and> here s' = here s \<and>
      (\<forall>b. here s b \<longrightarrow> mem_load ops b s' = (if b = a then Some w else mem_load ops b s))"
begin

definition cell :: "'s \<Rightarrow> u32 \<Rightarrow> u32" where
  "cell s a = the (mem_load ops a s)"

lemma load_cell: "ok s \<Longrightarrow> here s a \<Longrightarrow> mem_load ops a s = Some (cell s a)"
  using load_here by (auto simp: cell_def)

lemma store_cell:
  assumes "ok s" "here s a"
  obtains s' where "mem_store ops a w s = Some s'" "ok s'" "here s' = here s"
    "\<And>b. here s b \<Longrightarrow> cell s' b = (if b = a then w else cell s b)"
  using store_here [OF assms, of w] by (auto simp: cell_def)

end

text \<open>A memory that can grow by a page, within a region of page addresses, as long as there is room; otherwise the call
  fails and changes nothing.\<close>

locale paged_memory = word_memory ops ok here
  for ops :: "'s mem_ops" and ok :: "'s \<Rightarrow> bool" and here :: "'s \<Rightarrow> u32 \<Rightarrow> bool" +
  fixes region :: "u32 \<Rightarrow> bool"
    and room :: "'s \<Rightarrow> nat"
  assumes store_room: "ok s \<Longrightarrow> here s a \<Longrightarrow> mem_store ops a w s = Some s' \<Longrightarrow> room s' = room s"
    and page_here: "ok s \<Longrightarrow> region a \<Longrightarrow> a AND 0xFFF = 0 \<Longrightarrow> \<not> here s a \<Longrightarrow>
    \<exists>p s'. mem_page ops a s = Some (p, s') \<and> ok s' \<and> (\<forall>b. here s b \<longrightarrow> mem_load ops b s' = mem_load ops b s) \<and>
      (\<forall>b. here s' b \<longleftrightarrow> here s b \<or> p \<noteq> 0 \<and> b AND 3 = 0 \<and> b AND 0xFFFFF000 = a) \<and>
      (p = 0 \<longleftrightarrow> room s = 0) \<and> room s' = room s - 1"

end
