(* ===== verification/Heap.thy ===== *)
theory Heap
  imports Memory
begin

text \<open>
  The kernel heap: \<open>kernel/memory/heap-allocator.c\<close>.  The allocator reads and writes words of virtual memory and asks
  the virtual memory manager for pages; these operations are an argument.  The state adds the two variables of the
  allocator to the memory.
\<close>

record 's heap =
  hmem :: 's
  free_list_head :: u32
  heap_max :: u32

abbreviation (input) BLOCK_FREE :: u32 where "BLOCK_FREE \<equiv> 0x1"
abbreviation (input) KHEAP_START :: u32 where "KHEAP_START \<equiv> 0xC1000000"
abbreviation (input) HEADER_SIZE :: u32 where "HEADER_SIZE \<equiv> 4"
abbreviation (input) FREE_HEADER_SIZE :: u32 where "FREE_HEADER_SIZE \<equiv> 12"

definition align_block :: "u32 \<Rightarrow> u32" where
  "align_block x = (x + (4 - 1)) AND NOT (4 - 1)"

definition hload :: "'s mem_ops \<Rightarrow> u32 \<Rightarrow> 's heap \<Rightarrow> u32 option" where
  "hload ops a h = mem_load ops a (hmem h)"

definition hstore :: "'s mem_ops \<Rightarrow> u32 \<Rightarrow> u32 \<Rightarrow> 's heap \<Rightarrow> 's heap option" where
  "hstore ops a w h = do { m \<leftarrow> mem_store ops a w (hmem h); Some (h\<lparr>hmem := m\<rparr>) }"

section \<open>Headers\<close>

text \<open>A block has its size and its free bit in the first word; a free block has the links in the next two.\<close>

definition get_size :: "'s mem_ops \<Rightarrow> u32 \<Rightarrow> 's heap \<Rightarrow> u32 option" where
  "get_size ops b h = do { w \<leftarrow> hload ops b h; Some (w AND NOT BLOCK_FREE) }"

definition set_size :: "'s mem_ops \<Rightarrow> u32 \<Rightarrow> u32 \<Rightarrow> 's heap \<Rightarrow> 's heap option" where
  "set_size ops b sz h = do { w \<leftarrow> hload ops b h; hstore ops b ((w AND BLOCK_FREE) OR sz) h }"

definition is_free :: "'s mem_ops \<Rightarrow> u32 \<Rightarrow> 's heap \<Rightarrow> bool option" where
  "is_free ops b h = do { w \<leftarrow> hload ops b h; Some (w AND BLOCK_FREE \<noteq> 0) }"

definition set_free :: "'s mem_ops \<Rightarrow> u32 \<Rightarrow> 's heap \<Rightarrow> 's heap option" where
  "set_free ops b h = do { w \<leftarrow> hload ops b h; hstore ops b (w OR BLOCK_FREE) h }"

definition clear_free :: "'s mem_ops \<Rightarrow> u32 \<Rightarrow> 's heap \<Rightarrow> 's heap option" where
  "clear_free ops b h = do { w \<leftarrow> hload ops b h; hstore ops b (w AND NOT BLOCK_FREE) h }"

definition get_footer :: "'s mem_ops \<Rightarrow> u32 \<Rightarrow> 's heap \<Rightarrow> u32 option" where
  "get_footer ops header h = do { sz \<leftarrow> get_size ops header h; Some (header + sz - HEADER_SIZE) }"

definition update_footer :: "'s mem_ops \<Rightarrow> u32 \<Rightarrow> 's heap \<Rightarrow> 's heap option" where
  "update_footer ops header h = do {
     footer \<leftarrow> get_footer ops header h;
     w \<leftarrow> hload ops header h;
     hstore ops footer w h }"

definition create_free_block :: "'s mem_ops \<Rightarrow> u32 \<Rightarrow> u32 \<Rightarrow> 's heap \<Rightarrow> (u32 \<times> 's heap) option" where
  "create_free_block ops addr sz h = do {
     h \<leftarrow> set_size ops addr sz h;
     h \<leftarrow> set_free ops addr h;
     footer \<leftarrow> get_footer ops addr h;
     w \<leftarrow> hload ops addr h;
     h \<leftarrow> hstore ops footer w h;
     h \<leftarrow> hstore ops (addr + 8) 0 h;
     h \<leftarrow> hstore ops (addr + 4) 0 h;
     Some (addr, h) }"

section \<open>The free list\<close>

definition add_free_block :: "'s mem_ops \<Rightarrow> u32 \<Rightarrow> 's heap \<Rightarrow> 's heap option" where
  "add_free_block ops block h = do {
     h \<leftarrow> hstore ops (block + 4) (free_list_head h) h;
     h \<leftarrow> (if free_list_head h \<noteq> 0 then hstore ops (free_list_head h + 8) block h else Some h);
     h \<leftarrow> hstore ops (block + 8) 0 h;
     Some (h\<lparr>free_list_head := block\<rparr>) }"

definition remove_free_block :: "'s mem_ops \<Rightarrow> u32 \<Rightarrow> 's heap \<Rightarrow> 's heap option" where
  "remove_free_block ops block h = do {
     prev_free \<leftarrow> hload ops (block + 8) h;
     next_free \<leftarrow> hload ops (block + 4) h;
     h \<leftarrow> (if prev_free \<noteq> 0 then hstore ops (prev_free + 4) next_free h else Some (h\<lparr>free_list_head := next_free\<rparr>));
     next_free \<leftarrow> hload ops (block + 4) h;
     h \<leftarrow> (if next_free \<noteq> 0 then do {
         prev_free \<leftarrow> hload ops (block + 8) h;
         hstore ops (next_free + 8) prev_free h }
       else Some h);
     h \<leftarrow> hstore ops (block + 8) 0 h;
     hstore ops (block + 4) 0 h }"

section \<open>Merging and splitting\<close>

definition coalesce_blocks :: "'s mem_ops \<Rightarrow> u32 \<Rightarrow> u32 \<Rightarrow> 's heap \<Rightarrow> 's heap option" where
  "coalesce_blocks ops a b h = do {
     h \<leftarrow> remove_free_block ops b h;
     sa \<leftarrow> get_size ops a h;
     sb \<leftarrow> get_size ops b h;
     h \<leftarrow> set_size ops a (sa + sb) h;
     h \<leftarrow> set_free ops a h;
     update_footer ops a h }"

text \<open>\<open>(uintptr_t)MEMORY_SPACE\<close> is 2^32 cut to 32 bits, that is 0, so the second comparison always holds.\<close>

definition coalesce_with_next :: "'s mem_ops \<Rightarrow> u32 \<Rightarrow> 's heap \<Rightarrow> 's heap option" where
  "coalesce_with_next ops block h = do {
     sz \<leftarrow> get_size ops block h;
     let next_addr = block + sz;
     if heap_max h < next_addr \<or> of_nat (2 ^ 32) \<le> next_addr then Some h
     else do {
       f \<leftarrow> is_free ops next_addr h;
       if f then coalesce_blocks ops block next_addr h else Some h } }"

text \<open>The variable \<open>heap_start\<close> is 0 and is never set.\<close>

definition coalesce_with_prev :: "'s mem_ops \<Rightarrow> u32 \<Rightarrow> 's heap \<Rightarrow> 's heap option" where
  "coalesce_with_prev ops block h =
     (if block \<le> 0 then Some h
      else do {
        let prev_footer = block - HEADER_SIZE;
        if prev_footer \<le> KHEAP_START then Some h
        else do {
          f \<leftarrow> is_free ops prev_footer h;
          if \<not> f then Some h
          else do {
            sz \<leftarrow> get_size ops prev_footer h;
            coalesce_blocks ops (block - sz) block h } } })"

definition split_block :: "'s mem_ops \<Rightarrow> u32 \<Rightarrow> u32 \<Rightarrow> 's heap \<Rightarrow> (u32 \<times> 's heap) option" where
  "split_block ops block want_size h = do {
     current_size \<leftarrow> get_size ops block h;
     if current_size < want_size + FREE_HEADER_SIZE then Some (0, h)
     else do {
       let new_addr = block + want_size;
       let new_size = current_size - want_size;
       h \<leftarrow> set_size ops block want_size h;
       h \<leftarrow> update_footer ops block h;
       (new_block, h) \<leftarrow> create_free_block ops new_addr new_size h;
       h \<leftarrow> add_free_block ops new_block h;
       Some (new_block, h) } }"

definition allocate_new_heap_page :: "'s mem_ops \<Rightarrow> 's heap \<Rightarrow> (u32 \<times> 's heap) option" where
  "allocate_new_heap_page ops h = do {
     let addr = heap_max h;
     (page, m) \<leftarrow> mem_page ops addr (hmem h);
     let h = h\<lparr>hmem := m\<rparr>;
     if page = 0 then Some (0, h)
     else do {
       let h = h\<lparr>heap_max := heap_max h + 4096\<rparr>;
       (block, h) \<leftarrow> create_free_block ops addr 4096 h;
       h \<leftarrow> add_free_block ops block h;
       h \<leftarrow> coalesce_with_prev ops block h;
       Some (page, h) } }"

section \<open>kmalloc and kfree\<close>

text \<open>The search of \<open>kmalloc\<close> through the free list; the result \<open>None\<close> stands for leaving the loop.\<close>

partial_function (option) kmalloc_search :: "'s mem_ops \<Rightarrow> u32 \<Rightarrow> u32 \<Rightarrow> 's heap \<Rightarrow> (u32 option \<times> 's heap) option" where
  "kmalloc_search ops sz cur h =
     (if cur = 0 then Some (None, h)
      else do {
        current_size \<leftarrow> get_size ops cur h;
        if sz \<le> current_size then do {
          h \<leftarrow> remove_free_block ops cur h;
          h \<leftarrow> clear_free ops cur h;
          h \<leftarrow> (if sz + FREE_HEADER_SIZE \<le> current_size then do { (_, h) \<leftarrow> split_block ops cur sz h; Some h }
                else update_footer ops cur h);
          Some (Some (cur + HEADER_SIZE), h) }
        else do {
          next_free \<leftarrow> hload ops (cur + 4) h;
          kmalloc_search ops sz next_free h } })"

definition block_size :: "u32 \<Rightarrow> u32" where
  "block_size sz = (let sz = align_block sz + 2 * HEADER_SIZE
     in if sz < FREE_HEADER_SIZE then FREE_HEADER_SIZE else sz)"

partial_function (option) kmalloc :: "'s mem_ops \<Rightarrow> u32 \<Rightarrow> 's heap \<Rightarrow> (u32 \<times> 's heap) option" where
  "kmalloc ops sz h = do {
     let sz = block_size sz;
     (page, h) \<leftarrow> (if free_list_head h = 0 then allocate_new_heap_page ops h else Some (1, h));
     if page = 0 then Some (0, h)
     else do {
       (found, h) \<leftarrow> kmalloc_search ops sz (free_list_head h) h;
       case found of
         Some p \<Rightarrow> Some (p, h)
       | None \<Rightarrow> do {
           (page, h) \<leftarrow> allocate_new_heap_page ops h;
           if page = 0 then Some (0, h) else kmalloc ops (sz - HEADER_SIZE * 2) h } } }"

definition kfree :: "'s mem_ops \<Rightarrow> u32 \<Rightarrow> 's heap \<Rightarrow> 's heap option" where
  "kfree ops p h =
     (if p = 0 then Some h
      else do {
        let block = p - HEADER_SIZE;
        h \<leftarrow> set_free ops block h;
        h \<leftarrow> update_footer ops block h;
        h \<leftarrow> add_free_block ops block h;
        h \<leftarrow> coalesce_with_prev ops block h;
        coalesce_with_next ops block h })"

end
