(* ===== verification/Heap_Inv.thy ===== *)
theory Heap_Inv
  imports Heap
begin

text \<open>
  The shape of the heap, on the words of the region counted from its start: the blocks tile the region, each with its
  size and free bit in the first word and, unless it is a free block of three words, in the last word too; the free
  blocks form a doubly linked list.
\<close>

section \<open>Addresses and headers\<close>

definition wa :: "nat \<Rightarrow> u32" where
  "wa k = KHEAP_START + of_nat (4 * k)"

definition hdr :: "nat \<Rightarrow> bool \<Rightarrow> u32" where
  "hdr l f = of_nat (4 * l + of_bool f)"

abbreviation (input) heap_words :: nat where "heap_words \<equiv> 4194304"

lemma unat_wa: "k \<le> heap_words \<Longrightarrow> unat (wa k) = 0xC1000000 + 4 * k"
proof -
  assume k: "k \<le> heap_words"
  have "(0xC1000000 :: u32) = of_nat 0xC1000000" by simp
  then have "wa k = of_nat (0xC1000000 + 4 * k)" unfolding wa_def by (simp only: of_nat_add)
  then have "unat (wa k) = unat (of_nat (0xC1000000 + 4 * k) :: u32)" by (rule arg_cong)
  also have "\<dots> = 0xC1000000 + 4 * k" using k by (intro unat_of_nat32) simp
  finally show ?thesis .
qed

lemma wa_eq: "j \<le> heap_words \<Longrightarrow> k \<le> heap_words \<Longrightarrow> wa j = wa k \<longleftrightarrow> j = k"
  by (simp add: word_unat_eq_iff unat_wa)

lemma wa_nonzero: "k \<le> heap_words \<Longrightarrow> wa k \<noteq> 0"
  using unat_wa [of k] by auto

lemma wa_add: "wa k + of_nat (4 * j) = wa (k + j)"
  by (simp add: wa_def algebra_simps)

lemma wa_fields: "wa k + 4 = wa (k + 1)" "wa k + 8 = wa (k + 2)" "0 < k \<Longrightarrow> wa k - 4 = wa (k - 1)"
proof -
  show "wa k + 4 = wa (k + 1)" "wa k + 8 = wa (k + 2)" by (simp_all add: wa_def)
  assume "0 < k"
  then obtain j where "k = Suc j" by (cases k) auto
  then show "wa k - 4 = wa (k - 1)" by (simp add: wa_def)
qed

lemma wa_end: "0 < l \<Longrightarrow> wa k + of_nat (4 * l) - 4 = wa (k + l - 1)"
  using wa_add [of k l] wa_fields(3) [of "k + l"] by simp

lemma even_word_of_nat: "even (of_nat (4 * n) :: u32)"
  by simp

lemma wa_even: "wa k AND 1 = 0"
proof -
  have "wa k = of_nat (4 * (0x30400000 + k))" by (simp add: wa_def)
  then have "even (wa k)" using even_word_of_nat by metis
  then show ?thesis by (simp only: and_one_eq even_iff_mod_2_eq_zero)
qed

lemma even_and_not_one: "even (x :: u32) \<Longrightarrow> x AND NOT 1 = x" "even (x :: u32) \<Longrightarrow> (x OR 1) AND NOT 1 = x"
  by (auto simp: bit_eq_iff bit_simps even_bit_succ_iff elim: oddE evenE)

lemma hdr_or: "hdr l f = of_nat (4 * l) OR of_bool f"
proof (cases f)
  case True
  have "(of_nat (4 * l) :: u32) OR 1 = of_nat (4 * l) + 1" using even_word_of_nat [of l] by (simp only: or_one_eq of_bool_eq)
  with True show ?thesis by (simp add: hdr_def)
qed (simp add: hdr_def)

lemma hdr_simps:
  "hdr l f AND 1 = of_bool f" "hdr l f AND NOT 1 = of_nat (4 * l)" "hdr l f OR 1 = hdr l True"
  "(hdr l f AND 1) OR of_nat (4 * l') = hdr l' f" "hdr l f AND NOT 1 = hdr l False"
  "((w AND 1) OR of_nat (4 * l)) OR 1 = hdr l True"
proof -
  have e: "(of_nat (4 * l) :: u32) AND 1 = 0" using even_word_of_nat [of l] by (simp only: and_one_eq even_iff_mod_2_eq_zero)
  show 1: "hdr l f AND 1 = of_bool f" unfolding hdr_or by (cases f) (simp_all only: bit.conj_disj_distrib2 e of_bool_eq, simp_all)
  show "(hdr l f AND 1) OR of_nat (4 * l') = hdr l' f" unfolding 1 unfolding hdr_or by (rule or.commute)
  show 2: "hdr l f AND NOT 1 = of_nat (4 * l)"
    unfolding hdr_or using even_and_not_one [OF even_word_of_nat [of l]] by (cases f) (simp_all only: of_bool_eq or.right_neutral)
  show "hdr l f AND NOT 1 = hdr l False" unfolding 2 by (simp add: hdr_def)
  show "hdr l f OR 1 = hdr l True" unfolding hdr_or by (cases f) (simp_all only: of_bool_eq or.assoc or.idem or.right_neutral)
  have "(w AND 1) OR (1 :: u32) = 1" by (simp add: bit_eq_iff bit_simps) 
  then show "((w AND 1) OR of_nat (4 * l)) OR 1 = hdr l True" unfolding hdr_or of_bool_eq
    by (simp only: or.assoc or.commute [of "w AND 1"])
qed

section \<open>Blocks\<close>

type_synonym blocks = "nat \<rightharpoonup> nat \<times> bool"

text \<open>The blocks, by their first word: how many words, and whether free.  They do not overlap, lie within the first \<open>n\<close>
  words, and a block ends where another begins, and where the region ends.\<close>

definition blocks_ok :: "blocks \<Rightarrow> nat \<Rightarrow> bool" where
  "blocks_ok B n \<longleftrightarrow>
     (\<forall>k l f. B k = Some (l, f) \<longrightarrow> 3 \<le> l \<and> k + l \<le> n) \<and>
     (\<forall>k l f k'. B k = Some (l, f) \<and> B k' \<noteq> None \<and> k < k' \<longrightarrow> k + l \<le> k') \<and>
     (\<forall>k. (B k \<noteq> None \<or> k = n) \<and> 0 < k \<longrightarrow> (\<exists>k' l f. B k' = Some (l, f) \<and> k' + l = k))"

definition heads :: "(nat \<Rightarrow> u32) \<Rightarrow> blocks \<Rightarrow> bool" where
  "heads m B \<longleftrightarrow> (\<forall>k l f. B k = Some (l, f) \<longrightarrow> m k = hdr l f \<and> (f \<and> l = 3 \<or> m (k + l - 1) = hdr l f))"

text \<open>The words of a block, and the two link words of a free block.\<close>

definition extent :: "nat \<Rightarrow> nat \<Rightarrow> nat set" where
  "extent k l = {k..<k + l}"

lemma blocks_size: "blocks_ok B n \<Longrightarrow> B k = Some (l, f) \<Longrightarrow> 3 \<le> l \<and> k + l \<le> n"
  unfolding blocks_ok_def by blast

lemma blocks_disjoint:
  assumes "blocks_ok B n" "B k = Some (l, f)" "B k' = Some (l', f')" "j \<in> extent k l" "j \<in> extent k' l'"
  shows "k' = k"
proof (rule ccontr)
  assume "k' \<noteq> k"
  then consider "k < k'" | "k' < k" by linarith
  then show False
  proof cases
    case 1
    then have "k + l \<le> k'" using assms(1-3) unfolding blocks_ok_def by blast
    then show False using assms(4, 5) by (simp add: extent_def)
  next
    case 2
    then have "k' + l' \<le> k" using assms(1-3) unfolding blocks_ok_def by blast
    then show False using assms(4, 5) by (simp add: extent_def)
  qed
qed

lemma blocks_order: "blocks_ok B n \<Longrightarrow> B k = Some (l, f) \<Longrightarrow> B k' \<noteq> None \<Longrightarrow> k < k' \<Longrightarrow> k + l \<le> k'"
  unfolding blocks_ok_def by blast

lemma blocks_before: "blocks_ok B n \<Longrightarrow> B k \<noteq> None \<or> k = n \<Longrightarrow> 0 < k \<Longrightarrow> \<exists>k' l f. B k' = Some (l, f) \<and> k' + l = k"
  unfolding blocks_ok_def by blast

text \<open>Changes of the heads: a memory that differs on link words of free blocks only.\<close>

lemma heads_links:
  assumes "heads m B" "blocks_ok B n" "\<And>j. m' j \<noteq> m j \<Longrightarrow> \<exists>k l. B k = Some (l, True) \<and> (j = k + 1 \<or> j = k + 2)"
  shows "heads m' B"
  unfolding heads_def
proof (intro allI impI conjI)
  fix k l f assume b: "B k = Some (l, f)"
  note sz = blocks_size [OF assms(2) b]
  have link: "k' = k \<and> l' = l \<and> f" if "B k' = Some (l', True)" "j = k' + 1 \<or> j = k' + 2" "j \<in> extent k l" for k' l' j
  proof -
    have "3 \<le> l'" using blocks_size [OF assms(2) that(1)] by simp
    then have "j \<in> extent k' l'" using that(2) by (auto simp: extent_def)
    then have "k' = k" using blocks_disjoint [OF assms(2) b that(1) that(3)] by simp
    with b that(1) show ?thesis by simp
  qed
  have "m' k = m k"
  proof (rule ccontr)
    assume "m' k \<noteq> m k"
    then obtain k' l' where k': "B k' = Some (l', True)" "k = k' + 1 \<or> k = k' + 2" using assms(3) by blast
    have "k \<in> extent k l" using sz by (simp add: extent_def)
    from link [OF k' this] k'(2) show False by simp
  qed
  then show "m' k = hdr l f" using assms(1) b by (simp add: heads_def)
  show "f \<and> l = 3 \<or> m' (k + l - 1) = hdr l f"
  proof (cases "m' (k + l - 1) = m (k + l - 1)")
    case True
    then show ?thesis using assms(1) b by (auto simp: heads_def)
  next
    case False
    then obtain k' l' where k': "B k' = Some (l', True)" "k + l - 1 = k' + 1 \<or> k + l - 1 = k' + 2" using assms(3) by blast
    have "k + l - 1 \<in> extent k l" using sz by (auto simp: extent_def)
    from link [OF k' this] k'(2) sz show ?thesis by auto
  qed
qed

section \<open>The free list\<close>

definition nxt :: "nat list \<Rightarrow> u32 \<Rightarrow> u32" where
  "nxt ks q = (if ks = [] then q else wa (hd ks))"

definition prv :: "u32 \<Rightarrow> nat list \<Rightarrow> u32" where
  "prv p ks = (if ks = [] then p else wa (last ks))"

text \<open>A segment of the list, with what comes before and after it.\<close>

primrec dseg :: "(nat \<Rightarrow> u32) \<Rightarrow> u32 \<Rightarrow> nat list \<Rightarrow> u32 \<Rightarrow> bool" where
  "dseg m p [] q \<longleftrightarrow> True"
| "dseg m p (k # ks) q \<longleftrightarrow> m (k + 2) = p \<and> m (k + 1) = nxt ks q \<and> dseg m (wa k) ks q"

definition apart :: "nat list \<Rightarrow> bool" where
  "apart ks \<longleftrightarrow> distinct ks \<and> (\<forall>j \<in> set ks. \<forall>k \<in> set ks. j < k \<longrightarrow> j + 3 \<le> k)"

definition flist :: "(nat \<Rightarrow> u32) \<Rightarrow> blocks \<Rightarrow> u32 \<Rightarrow> nat list \<Rightarrow> bool" where
  "flist m B h fl \<longleftrightarrow> h = nxt fl 0 \<and> dseg m 0 fl 0 \<and> distinct fl \<and> set fl = {k. \<exists>l. B k = Some (l, True)}"

lemma dseg_cong: "(\<And>k. k \<in> set ks \<Longrightarrow> m' (k + 1) = m (k + 1) \<and> m' (k + 2) = m (k + 2)) \<Longrightarrow> dseg m' p ks q = dseg m p ks q"
  by (induction ks arbitrary: p) auto

lemma dseg_append: "dseg m p (xs @ ys) q \<longleftrightarrow> dseg m p xs (nxt ys q) \<and> dseg m (prv p xs) ys q"
proof (induction xs arbitrary: p)
  case Nil
  show ?case by (simp add: prv_def)
next
  case (Cons x xs)
  have "nxt (xs @ ys) q = nxt xs (nxt ys q)" by (simp add: nxt_def)
  moreover have "prv p (x # xs) = prv (wa x) xs" by (simp add: prv_def)
  ultimately show ?case using Cons.IH [of "wa x"] by auto
qed

lemma apart_word: "apart ks \<Longrightarrow> j \<in> set ks \<Longrightarrow> k \<in> set ks \<Longrightarrow> a < 3 \<Longrightarrow> b < 3 \<Longrightarrow> j + a = k + b \<longleftrightarrow> j = k \<and> a = b"
proof -
  assume a: "apart ks" "j \<in> set ks" "k \<in> set ks" "a < 3" "b < 3"
  have "j < k \<Longrightarrow> j + 3 \<le> k" "k < j \<Longrightarrow> k + 3 \<le> j" using a(1-3) unfolding apart_def by blast+
  then show ?thesis using a(4, 5) by (cases j k rule: linorder_cases) auto
qed

text \<open>Links words changed at the end and at the start of a segment.\<close>

lemma dseg_end:
  assumes "dseg m p xs q" "apart xs" "xs \<noteq> []"
  shows "dseg (m(last xs + 1 := q')) p xs q'"
proof -
  obtain zs z where xs: "xs = zs @ [z]" using assms(3) by (cases xs rule: rev_cases) auto
  have z: "z + 1 \<noteq> k + 1" "z + 1 \<noteq> k + 2" if "k \<in> set zs" for k
    using apart_word [OF assms(2), of z k 1 1] apart_word [OF assms(2), of z k 1 2] that assms(2) by (auto simp: xs apart_def)
  have "dseg (m(z + 1 := q')) p zs (wa z) = dseg m p zs (wa z)" using z by (intro dseg_cong) auto
  then show ?thesis using assms(1) by (simp add: xs dseg_append nxt_def)
qed

lemma dseg_start:
  assumes "dseg m p ys q" "apart ys" "ys \<noteq> []"
  shows "dseg (m(hd ys + 2 := p')) p' ys q"
proof -
  obtain y ws where ys: "ys = y # ws" using assms(3) by (cases ys) auto
  have y: "y + 2 \<noteq> k + 1" "y + 2 \<noteq> k + 2" if "k \<in> set ws" for k
    using apart_word [OF assms(2), of y k 2 1] apart_word [OF assms(2), of y k 2 2] that assms(2) by (auto simp: ys apart_def)
  have "dseg (m(y + 2 := p')) (wa y) ws q = dseg m (wa y) ws q" using y by (intro dseg_cong) auto
  then show ?thesis using assms(1) by (simp add: ys)
qed

lemma apart_sub: "apart (xs @ ys) \<Longrightarrow> apart xs" "apart (xs @ ys) \<Longrightarrow> apart ys"
  by (auto simp: apart_def)

text \<open>The memory after a block has been added at the front, and after one has been removed.\<close>

definition linked :: "(nat \<Rightarrow> u32) \<Rightarrow> nat list \<Rightarrow> nat \<Rightarrow> nat \<Rightarrow> u32" where
  "linked m fl k = (let m = m(k + 1 := nxt fl 0) in
     let m = (if fl = [] then m else m(hd fl + 2 := wa k)) in m(k + 2 := 0))"

definition unlinked :: "(nat \<Rightarrow> u32) \<Rightarrow> nat list \<Rightarrow> nat \<Rightarrow> nat list \<Rightarrow> nat \<Rightarrow> u32" where
  "unlinked m xs k ys = (let m = (if xs = [] then m else m(last xs + 1 := nxt ys 0)) in
     let m = (if ys = [] then m else m(hd ys + 2 := prv 0 xs)) in m(k + 2 := 0, k + 1 := 0))"

lemma linked_dseg:
  assumes "dseg m 0 fl 0" "apart (k # fl)"
  shows "dseg (linked m fl k) 0 (k # fl) 0"
proof -
  have ne: "j + a \<noteq> k + b" if "j \<in> set fl" "a < 3" "b < 3" for j a b
    using apart_word [OF assms(2), of j k a b] assms(2) that by (auto simp: apart_def)
  define m1 where "m1 = (if fl = [] then m else m(hd fl + 2 := wa k))"
  have "dseg m1 (wa k) fl 0" using dseg_start [OF assms(1)] apart_sub(2) [of "[k]" fl] assms(2) by (cases "fl = []") (simp_all add: m1_def)
  moreover have "dseg (linked m fl k) (wa k) fl 0 = dseg m1 (wa k) fl 0"
    using ne [of _ 1 1] ne [of _ 1 2] ne [of _ 2 1] ne [of _ 2 2] by (intro dseg_cong) (auto simp: linked_def m1_def Let_def)
  moreover have "linked m fl k (k + 1) = nxt fl 0"
    using ne [of "hd fl" 2 1] by (cases "fl = []") (auto simp: linked_def Let_def)
  ultimately show ?thesis by (simp add: linked_def Let_def)
qed

lemma unlinked_dseg:
  assumes "dseg m 0 (xs @ k # ys) 0" "apart (xs @ k # ys)"
  shows "dseg (unlinked m xs k ys) 0 (xs @ ys) 0"
proof -
  have x: "dseg m 0 xs (wa k)" and y: "dseg m (wa k) ys 0" using assms(1) by (simp_all add: dseg_append nxt_def)
  have ap: "apart xs" "apart ys" using apart_sub(1) [OF assms(2)] apart_sub(2) [of "xs @ [k]" ys] assms(2) by simp_all
  have w: "j + a = j' + b \<longleftrightarrow> j = j' \<and> a = b" if "j \<in> set (xs @ k # ys)" "j' \<in> set (xs @ k # ys)" "a < 3" "b < 3" for j j' a b
    using apart_word [OF assms(2) that] .
  have d: "distinct (xs @ k # ys)" using assms(2) by (simp add: apart_def)
  define m1 where "m1 = (if xs = [] then m else m(last xs + 1 := nxt ys 0))"
  define m2 where "m2 = (if ys = [] then m1 else m1(hd ys + 2 := prv 0 xs))"
  have u: "unlinked m xs k ys = m2(k + 2 := 0, k + 1 := 0)" by (simp add: unlinked_def m1_def m2_def Let_def)
  have x1: "dseg m1 0 xs (nxt ys 0)" using dseg_end [OF x ap(1)] by (cases "xs = []") (simp_all add: m1_def)
  have "dseg (unlinked m xs k ys) 0 xs (nxt ys 0) = dseg m1 0 xs (nxt ys 0)"
  proof (intro dseg_cong)
    fix j assume j: "j \<in> set xs"
    then have "j \<noteq> k" "ys \<noteq> [] \<Longrightarrow> j \<noteq> hd ys" using d by auto
    then show "unlinked m xs k ys (j + 1) = m1 (j + 1) \<and> unlinked m xs k ys (j + 2) = m1 (j + 2)"
      unfolding u m2_def using j w [of j k 1 1] w [of j k 1 2] w [of j k 2 1] w [of j k 2 2] w [of j "hd ys" 1 2] w [of j "hd ys" 2 2] by auto
  qed
  moreover have y1: "dseg m1 (wa k) ys 0 = dseg m (wa k) ys 0"
  proof (intro dseg_cong)
    fix j assume j: "j \<in> set ys"
    then have "xs \<noteq> [] \<Longrightarrow> j \<noteq> last xs" using d last_in_set [of xs] by (metis IntI distinct_append distinct.simps(2) emptyE list.set_intros(2))
    then show "m1 (j + 1) = m (j + 1) \<and> m1 (j + 2) = m (j + 2)"
      unfolding m1_def using j w [of j "last xs" 1 1] w [of j "last xs" 2 1] by auto
  qed
  then have "dseg m2 (prv 0 xs) ys 0" using y dseg_start [OF _ ap(2)] by (cases "ys = []") (simp_all add: m2_def)
  moreover have "dseg (unlinked m xs k ys) (prv 0 xs) ys 0 = dseg m2 (prv 0 xs) ys 0"
  proof (intro dseg_cong)
    fix j assume j: "j \<in> set ys"
    then have "j \<noteq> k" using d by auto
    then show "unlinked m xs k ys (j + 1) = m2 (j + 1) \<and> unlinked m xs k ys (j + 2) = m2 (j + 2)"
      unfolding u using j w [of j k 1 1] w [of j k 1 2] w [of j k 2 1] w [of j k 2 2] by auto
  qed
  ultimately show ?thesis using x1 by (simp add: dseg_append)
qed

section \<open>Steps of the allocator on the shape\<close>

lemma free_apart: "blocks_ok B n \<Longrightarrow> distinct ks \<Longrightarrow> \<forall>k \<in> set ks. B k \<noteq> None \<Longrightarrow> apart ks"
  unfolding apart_def
proof (intro conjI ballI impI)
  fix j k assume a: "blocks_ok B n" "\<forall>k \<in> set ks. B k \<noteq> None" "j \<in> set ks" "k \<in> set ks" "j < k"
  then obtain l f where "B j = Some (l, f)" by fastforce
  then have "j + l \<le> k" "3 \<le> l" using blocks_order [OF a(1)] blocks_size [OF a(1)] a(2, 4, 5) by simp_all
  then show "j + 3 \<le> k" by simp
qed

lemma flist_free: "flist m B h fl \<Longrightarrow> k \<in> set fl \<longleftrightarrow> (\<exists>l. B k = Some (l, True))"
  by (simp add: flist_def)

lemma unlink_shape:
  assumes "blocks_ok B n" "heads m B" "flist m B h (xs @ k # ys)"
  shows "heads (unlinked m xs k ys) B" "flist (unlinked m xs k ys) (B(k := None)) (nxt (xs @ ys) 0) (xs @ ys)"
proof -
  have fr: "\<exists>l. B j = Some (l, True)" if "j \<in> set (xs @ k # ys)" for j using flist_free [OF assms(3)] that by blast
  have d: "distinct (xs @ k # ys)" using assms(3) by (simp add: flist_def)
  have "apart (xs @ k # ys)" using fr by (intro free_apart [OF assms(1) d]) blast
  then have "dseg (unlinked m xs k ys) 0 (xs @ ys) 0" using assms(3) by (intro unlinked_dseg) (simp_all add: flist_def)
  moreover have "set (xs @ ys) = {j. \<exists>l. (B(k := None)) j = Some (l, True)}"
    using assms(3) d by (auto simp: flist_def)
  ultimately show "flist (unlinked m xs k ys) (B(k := None)) (nxt (xs @ ys) 0) (xs @ ys)" using d by (simp add: flist_def)
  have lx: "xs \<noteq> [] \<Longrightarrow> \<exists>l. B (last xs) = Some (l, True)" and hy: "ys \<noteq> [] \<Longrightarrow> \<exists>l. B (hd ys) = Some (l, True)"
    and k: "\<exists>l. B k = Some (l, True)" using fr by auto
  show "heads (unlinked m xs k ys) B"
  proof (rule heads_links [OF assms(2, 1)])
    fix j assume "unlinked m xs k ys j \<noteq> m j"
    then have "xs \<noteq> [] \<and> j = last xs + 1 \<or> ys \<noteq> [] \<and> j = hd ys + 2 \<or> j = k + 2 \<or> j = k + 1"
      by (auto simp: unlinked_def Let_def split: if_splits)
    then show "\<exists>k l. B k = Some (l, True) \<and> (j = k + 1 \<or> j = k + 2)" using lx hy k by blast
  qed
qed

lemma link_shape:
  assumes "blocks_ok B n" "heads m B" "B k = Some (l, True)" "flist m (B(k := None)) h fl"
  shows "heads (linked m fl k) B" "flist (linked m fl k) B (wa k) (k # fl)"
proof -
  have fr: "\<exists>l. B j = Some (l, True)" "j \<noteq> k" if "j \<in> set fl" for j using flist_free [OF assms(4)] that by (auto split: if_splits)
  then have "k \<notin> set fl" by blast
  then have d: "distinct (k # fl)" using assms(4) by (simp add: flist_def)
  have "\<forall>j \<in> set (k # fl). B j \<noteq> None" using fr(1) assms(3) by fastforce
  then have "apart (k # fl)" by (rule free_apart [OF assms(1) d])
  then have "dseg (linked m fl k) 0 (k # fl) 0" using assms(4) by (intro linked_dseg) (simp_all add: flist_def)
  moreover have "set (k # fl) = {j. \<exists>l. B j = Some (l, True)}"
  proof -
    have "set fl = {j. \<exists>l. (B(k := None)) j = Some (l, True)}" using assms(4) by (simp add: flist_def)
    then show ?thesis using assms(3) by auto
  qed
  ultimately show "flist (linked m fl k) B (wa k) (k # fl)" using d by (simp add: flist_def nxt_def)
  have hf: "fl \<noteq> [] \<Longrightarrow> \<exists>l. B (hd fl) = Some (l, True)" using fr by simp
  show "heads (linked m fl k) B"
  proof (rule heads_links [OF assms(2, 1)])
    fix j assume "linked m fl k j \<noteq> m j"
    then have "j = k + 1 \<or> fl \<noteq> [] \<and> j = hd fl + 2 \<or> j = k + 2" by (auto simp: linked_def Let_def split: if_splits)
    then show "\<exists>k l. B k = Some (l, True) \<and> (j = k + 1 \<or> j = k + 2)" using hf assms(3) by blast
  qed
qed

text \<open>Words of one block changed, seen from the others.\<close>

lemma carve_shape:
  assumes "blocks_ok B n" "B k = Some (l, f)" "heads m (B(k := None))" "flist m (B(k := None)) h fl"
    and "\<And>j. j \<notin> extent k l \<Longrightarrow> m' j = m j"
  shows "heads m' (B(k := None))" "flist m' (B(k := None)) h fl"
proof -
  have out: "m' j = m j" if "B k' = Some (l', f')" "k' \<noteq> k" "j \<in> extent k' l'" for k' l' f' j
    using blocks_disjoint [OF assms(1) that(1) assms(2) that(3)] that(2) assms(5) by blast
  show "heads m' (B(k := None))" unfolding heads_def
  proof (intro allI impI)
    fix k' l' f' assume "(B(k := None)) k' = Some (l', f')"
    then have b: "B k' = Some (l', f')" "k' \<noteq> k" by (auto split: if_splits)
    have "3 \<le> l'" using blocks_size [OF assms(1) b(1)] by simp
    then have "m' k' = m k'" "m' (k' + l' - 1) = m (k' + l' - 1)" using out [OF b] by (auto simp: extent_def)
    then show "m' k' = hdr l' f' \<and> (f' \<and> l' = 3 \<or> m' (k' + l' - 1) = hdr l' f')" using assms(3) b by (simp add: heads_def)
  qed
  have "dseg m' 0 fl 0 = dseg m 0 fl 0"
  proof (rule dseg_cong)
    fix j assume "j \<in> set fl"
    then obtain l' where b: "B j = Some (l', True)" "j \<noteq> k" using flist_free [OF assms(4)] by (auto split: if_splits)
    have "3 \<le> l'" using blocks_size [OF assms(1) b(1)] by simp
    then show "m' (j + 1) = m (j + 1) \<and> m' (j + 2) = m (j + 2)" using out [OF b] by (auto simp: extent_def)
  qed
  then show "flist m' (B(k := None)) h fl" using assms(4) by (simp add: flist_def)
qed

lemma heads_insert:
  "heads m (B(k := None)) \<Longrightarrow> m k = hdr l f \<Longrightarrow> f \<and> l = 3 \<or> m (k + l - 1) = hdr l f \<Longrightarrow> heads m (B(k \<mapsto> (l, f)))"
  by (auto simp: heads_def)

lemma flist_alloc: "flist m (B(k := None)) h fl \<Longrightarrow> flist m (B(k \<mapsto> (l, False))) h fl"
  by (simp add: flist_def)

end
