(* ===== verification/Heap_Tile.thy ===== *)
theory Heap_Tile
  imports Heap_Inv
begin

text \<open>The tiling of the heap region under the steps of the allocator: a block is marked, split, merged with the next one,
  or added at the end.\<close>

lemma blocks_flag:
  assumes "blocks_ok B n" "B k = Some (l, f)"
  shows "blocks_ok (B(k \<mapsto> (l, f'))) n"
  unfolding blocks_ok_def
proof (intro conjI allI impI)
  let ?B = "B(k \<mapsto> (l, f'))"
  have old: "\<exists>g'. B j = Some (i, g')" if "?B j = Some (i, g)" for j i g using that assms(2) by (cases "j = k") auto
  have dom: "?B j \<noteq> None \<longleftrightarrow> B j \<noteq> None" for j using assms(2) by auto
  show "3 \<le> i" "j + i \<le> n" if "?B j = Some (i, g)" for j i g using old [OF that] blocks_size [OF assms(1)] by blast+
  show "j + i \<le> j'" if "?B j = Some (i, g) \<and> ?B j' \<noteq> None \<and> j < j'" for j i g j'
    using old [of j i g] blocks_order [OF assms(1)] that dom by blast
  fix j assume "(?B j \<noteq> None \<or> j = n) \<and> 0 < j"
  then have "B j \<noteq> None \<or> j = n" "0 < j" using dom [of j] by simp_all
  then obtain k' l' g where "B k' = Some (l', g)" "k' + l' = j" using blocks_before [OF assms(1)] by blast
  then have "\<exists>g. ?B k' = Some (l', g)" using assms(2) by (cases "k' = k") auto
  with \<open>k' + l' = j\<close> show "\<exists>k' l f. ?B k' = Some (l, f) \<and> k' + l = j" by blast
qed

lemma blocks_split:
  assumes ok: "blocks_ok B n" and b: "B k = Some (l, f)" and a: "3 \<le> a" "a + 3 \<le> l"
  shows "blocks_ok (B(k \<mapsto> (a, g), k + a \<mapsto> (l - a, g'))) n"
  unfolding blocks_ok_def
proof (intro conjI allI impI)
  let ?B = "B(k \<mapsto> (a, g), k + a \<mapsto> (l - a, g'))"
  note sz = blocks_size [OF ok b]
  have cases: "j = k \<and> i = a \<or> j = k + a \<and> i = l - a \<or> j \<noteq> k \<and> j \<noteq> k + a \<and> (\<exists>h. B j = Some (i, h))" if "?B j = Some (i, h)" for j i h
    using that by (auto split: if_splits)
  show "3 \<le> i" "j + i \<le> n" if "?B j = Some (i, h)" for j i h
    using cases [OF that] blocks_size [OF ok] sz a by auto
  show "j + i \<le> j'" if h: "?B j = Some (i, h) \<and> ?B j' \<noteq> None \<and> j < j'" for j i h j'
  proof -
    obtain i' h' where j': "?B j' = Some (i', h')" using h by (cases "?B j'") auto
    have before: "j < k \<Longrightarrow> B j = Some (i, h'') \<Longrightarrow> j + i \<le> k" for h'' using blocks_order [OF ok] b by blast
    have after: "k < j' \<Longrightarrow> B j' = Some (i', h'') \<Longrightarrow> k + l \<le> j'" for h'' using blocks_order [OF ok b] by auto
    have both: "B j = Some (i, h1) \<Longrightarrow> B j' = Some (i', h2) \<Longrightarrow> j + i \<le> j'" for h1 h2 using blocks_order [OF ok] h by blast
    have inside: "B j = Some (i, h'') \<Longrightarrow> k < j \<Longrightarrow> k + l \<le> j" for h'' using blocks_order [OF ok b] by auto
    consider "j = k" "i = a" | "j = k + a" "i = l - a" | h1 where "j \<noteq> k" "B j = Some (i, h1)" using cases [OF conjunct1 [OF h]] by blast
    then show ?thesis
    proof cases
      case 1
      then show ?thesis using cases [OF j'] after h a by auto
    next
      case 2
      then have "k < j'" "j' \<noteq> k + a" using h by auto
      then show ?thesis using cases [OF j'] after 2 a by auto
    next
      case 3
      have "j < k \<Longrightarrow> j + i \<le> k" using before 3(2) by blast
      moreover have "k < j \<Longrightarrow> k + l \<le> j" using inside 3(2) by blast
      ultimately show ?thesis using cases [OF j'] both [OF 3(2)] 3(1) h a by (cases "j < k") auto
    qed
  qed
  fix j assume j: "(?B j \<noteq> None \<or> j = n) \<and> 0 < j"
  show "\<exists>k' i h. ?B k' = Some (i, h) \<and> k' + i = j"
  proof (cases "j = k + a")
    case True
    then have "?B k = Some (a, g) \<and> k + a = j" using a by simp
    then show ?thesis by blast
  next
    case False
    then have "B j \<noteq> None \<or> j = n" using j b by (auto split: if_splits)
    then obtain k' l' h where k': "B k' = Some (l', h)" "k' + l' = j" using blocks_before [OF ok] j by blast
    show ?thesis
    proof (cases "k' = k")
      case True
      then have "?B (k + a) = Some (l - a, g') \<and> k + a + (l - a) = j" using k' b a by simp
      then show ?thesis by blast
    next
      case ne: False
      have "k' \<noteq> k + a" using blocks_order [OF ok b, of k'] k'(1) a by auto
      then have "?B k' = Some (l', h) \<and> k' + l' = j" using k' ne by simp
      then show ?thesis by blast
    qed
  qed
qed

lemma blocks_merge:
  assumes ok: "blocks_ok B n" and b: "B k = Some (l, f)" "B (k + l) = Some (l', f')"
  shows "blocks_ok (B(k \<mapsto> (l + l', g), k + l := None)) n"
  unfolding blocks_ok_def
proof (intro conjI allI impI)
  let ?B = "B(k \<mapsto> (l + l', g), k + l := None)"
  note sz = blocks_size [OF ok b(1)] blocks_size [OF ok b(2)]
  have cases: "j = k \<and> i = l + l' \<or> j \<noteq> k \<and> j \<noteq> k + l \<and> (\<exists>h. B j = Some (i, h))" if "?B j = Some (i, h)" for j i h
    using that sz by (auto split: if_splits)
  show "3 \<le> i" "j + i \<le> n" if "?B j = Some (i, h)" for j i h
    using cases [OF that] blocks_size [OF ok] sz by auto
  show "j + i \<le> j'" if h: "?B j = Some (i, h) \<and> ?B j' \<noteq> None \<and> j < j'" for j i h j'
  proof -
    obtain i' h' where j': "?B j' = Some (i', h')" using h by (cases "?B j'") auto
    have before: "B j = Some (i, h'') \<Longrightarrow> j < k \<Longrightarrow> j + i \<le> k" for h'' using blocks_order [OF ok] b by blast
    have after: "k < j' \<Longrightarrow> j' \<noteq> k + l \<Longrightarrow> B j' = Some (i', h'') \<Longrightarrow> k + l + l' \<le> j'" for h''
      using blocks_order [OF ok b(1), of j'] blocks_order [OF ok b(2), of j'] by auto
    have both: "B j = Some (i, h1) \<Longrightarrow> B j' = Some (i', h2) \<Longrightarrow> j + i \<le> j'" for h1 h2 using blocks_order [OF ok] h by blast
    show ?thesis using cases [OF conjunct1 [OF h]] cases [OF j'] h before after both by (elim disjE conjE exE) auto
  qed
  fix j assume j: "(?B j \<noteq> None \<or> j = n) \<and> 0 < j"
  then have jb: "B j \<noteq> None \<or> j = n" "j \<noteq> k + l" using b sz by (auto split: if_splits)
  then obtain k' i h where k': "B k' = Some (i, h)" "k' + i = j" using blocks_before [OF ok] j by blast
  show "\<exists>k' i h. ?B k' = Some (i, h) \<and> k' + i = j"
  proof (cases "k' = k + l")
    case True
    then have "?B k = Some (l + l', g) \<and> k + (l + l') = j" using k' b sz by simp
    then show ?thesis by blast
  next
    case False
    then have "k' \<noteq> k" using k' b jb(2) by auto
    with False k' have "?B k' = Some (i, h) \<and> k' + i = j" by simp
    then show ?thesis by blast
  qed
qed

lemma blocks_extend:
  assumes ok: "blocks_ok B n" and l: "3 \<le> l"
  shows "blocks_ok (B(n \<mapsto> (l, g))) (n + l)"
  unfolding blocks_ok_def
proof (intro conjI allI impI)
  let ?B = "B(n \<mapsto> (l, g))"
  have fresh: "B j = Some (i, h) \<Longrightarrow> 3 \<le> i \<and> j + i \<le> n" for j i h using blocks_size [OF ok] by blast
  have cases: "j = n \<and> i = l \<or> j \<noteq> n \<and> (\<exists>h. B j = Some (i, h))" if "?B j = Some (i, h)" for j i h
    using that by (auto split: if_splits)
  show "3 \<le> i" "j + i \<le> n + l" if "?B j = Some (i, h)" for j i h using cases [OF that] fresh l by fastforce+
  show "j + i \<le> j'" if h: "?B j = Some (i, h) \<and> ?B j' \<noteq> None \<and> j < j'" for j i h j'
  proof -
    obtain i' h' where j': "?B j' = Some (i', h')" using h by (cases "?B j'") auto
    have "B j = Some (i, h1) \<Longrightarrow> B j' = Some (i', h2) \<Longrightarrow> j + i \<le> j'" for h1 h2 using blocks_order [OF ok] h by blast
    then show ?thesis using cases [OF conjunct1 [OF h]] cases [OF j'] h fresh [of j i] fresh [of j' i'] by (elim disjE conjE exE) auto
  qed
  fix j assume j: "(?B j \<noteq> None \<or> j = n + l) \<and> 0 < j"
  show "\<exists>k' i h. ?B k' = Some (i, h) \<and> k' + i = j"
  proof (cases "j = n + l")
    case True
    then have "?B n = Some (l, g) \<and> n + l = j" by simp
    then show ?thesis by blast
  next
    case False
    then have "B j \<noteq> None \<or> j = n" using j by (auto split: if_splits)
    then obtain k' i h where k': "B k' = Some (i, h)" "k' + i = j" using blocks_before [OF ok] j by blast
    then have "k' \<noteq> n" using fresh by fastforce
    then have "?B k' = Some (i, h) \<and> k' + i = j" using k' by simp
    then show ?thesis by blast
  qed
qed

end
