(* ===== verification/Heap_Step.thy ===== *)
theory Heap_Step
  imports Heap_Tile
begin

text \<open>
  The helpers of the allocator, one by one, on the words of the heap region: what each of them writes.  The proofs use the
  laws of the memory interface only.
\<close>

text \<open>The first \<open>n\<close> words are mapped; \<open>pages\<close> counts the pages of the region and those there is still room for.\<close>

definition good :: "('s \<Rightarrow> bool) \<Rightarrow> ('s \<Rightarrow> u32 \<Rightarrow> bool) \<Rightarrow> ('s \<Rightarrow> nat) \<Rightarrow> nat \<Rightarrow> 's heap \<Rightarrow> nat \<Rightarrow> bool" where
  "good ok here room pages h n \<longleftrightarrow> ok (hmem h) \<and> n div 1024 + room (hmem h) = pages \<and> heap_max h = wa n \<and> n mod 1024 = 0 \<and> n \<le> heap_words \<and>
     (\<forall>k < heap_words. here (hmem h) (wa k) \<longleftrightarrow> k < n)"

definition words :: "'s mem_ops \<Rightarrow> 's heap \<Rightarrow> nat \<Rightarrow> nat \<Rightarrow> u32" where
  "words ops h n k = (if k < n then the (mem_load ops (wa k) (hmem h)) else 0)"

text \<open>The allocator's view of a state: its words, and the head of its list.\<close>

definition view :: "'s mem_ops \<Rightarrow> ('s \<Rightarrow> bool) \<Rightarrow> ('s \<Rightarrow> u32 \<Rightarrow> bool) \<Rightarrow> ('s \<Rightarrow> nat) \<Rightarrow> nat \<Rightarrow> 's heap \<Rightarrow> nat \<Rightarrow> (nat \<Rightarrow> u32) \<Rightarrow> u32 \<Rightarrow> bool" where
  "view ops ok here room pages h n m p \<longleftrightarrow> good ok here room pages h n \<and> words ops h n = m \<and> free_list_head h = p"

locale heap_memory = paged_memory ops ok here region room
  for ops :: "'s mem_ops" and ok :: "'s \<Rightarrow> bool" and here :: "'s \<Rightarrow> u32 \<Rightarrow> bool" and region :: "u32 \<Rightarrow> bool" and room :: "'s \<Rightarrow> nat" +
  fixes pages :: nat
  assumes heap_region: "k < heap_words \<Longrightarrow> region (wa k)"
begin

abbreviation V :: "'s heap \<Rightarrow> nat \<Rightarrow> (nat \<Rightarrow> u32) \<Rightarrow> u32 \<Rightarrow> bool" where
  "V \<equiv> view ops ok here room pages"

lemma V_bound: "V h n m p \<Longrightarrow> n \<le> heap_words"
  by (simp add: view_def good_def)

lemma V_load: "V h n m p \<Longrightarrow> k < n \<Longrightarrow> hload ops (wa k) h = Some (m k)"
proof -
  assume v: "V h n m p" and k: "k < n"
  then have "here (hmem h) (wa k)" "ok (hmem h)" by (auto simp: view_def good_def)
  then obtain w where "mem_load ops (wa k) (hmem h) = Some w" using load_here by blast
  with v k show ?thesis by (auto simp: hload_def view_def words_def)
qed

lemma V_store:
  assumes v: "V h n m p" and k: "k < n"
  obtains h' where "hstore ops (wa k) w h = Some h'" "V h' n (m(k := w)) p"
proof -
  have g: "good ok here room pages h n" and n: "n \<le> heap_words" using v by (auto simp: view_def good_def)
  then have "here (hmem h) (wa k)" "ok (hmem h)" using k by (auto simp: good_def)
  then obtain s' where s': "mem_store ops (wa k) w (hmem h) = Some s'" "ok s'" "here s' = here (hmem h)"
    "\<And>b. here (hmem h) b \<Longrightarrow> mem_load ops b s' = (if b = wa k then Some w else mem_load ops b (hmem h))"
    using store_here by metis
  have r: "room s' = room (hmem h)" using store_room [OF _ _ s'(1)] \<open>here (hmem h) (wa k)\<close> \<open>ok (hmem h)\<close> by simp
  let ?h' = "h\<lparr>hmem := s'\<rparr>"
  have "words ops ?h' n = m(k := w)"
  proof
    fix j
    show "words ops ?h' n j = (m(k := w)) j"
    proof (cases "j < n")
      case True
      then have "here (hmem h) (wa j)" "wa j = wa k \<longleftrightarrow> j = k" using g n k by (auto simp: good_def wa_eq)
      then show ?thesis using s'(4) True v by (auto simp: words_def view_def)
    qed (use v k in \<open>auto simp: words_def view_def\<close>)
  qed
  moreover have "good ok here room pages ?h' n" using g s'(2, 3) r by (simp add: good_def)
  ultimately have "V ?h' n (m(k := w)) p" using v by (simp add: view_def)
  moreover have "hstore ops (wa k) w h = Some ?h'" using s'(1) by (simp add: hstore_def)
  ultimately show thesis using that by blast
qed

lemma V_head:
  assumes "V h n m p"
  shows "V (h\<lparr>free_list_head := q\<rparr>) n m q"
proof -
  have "words ops (h\<lparr>free_list_head := q\<rparr>) n = words ops h n" by (simp add: words_def fun_eq_iff)
  then show ?thesis using assms by (simp add: view_def good_def)
qed

lemma V_head_eq: "V h n m p \<Longrightarrow> free_list_head h = p"
  by (simp add: view_def)

section \<open>Headers\<close>

lemma V_get_size: "V h n m p \<Longrightarrow> k < n \<Longrightarrow> m k = hdr l f \<Longrightarrow> get_size ops (wa k) h = Some (of_nat (4 * l))"
  by (simp only: get_size_def V_load hdr_simps(2) Option.bind_lunit)

lemma V_get_footer: "V h n m p \<Longrightarrow> k < n \<Longrightarrow> m k = hdr l f \<Longrightarrow> 0 < l \<Longrightarrow> get_footer ops (wa k) h = Some (wa (k + l - 1))"
  unfolding get_footer_def by (simp only: V_get_size wa_end Option.bind_lunit)

lemma V_update_footer:
  assumes "V h n m p" "m k = hdr l f" "0 < l" "k + l \<le> n"
  obtains h' where "update_footer ops (wa k) h = Some h'" "V h' n (m(k + l - 1 := hdr l f)) p"
proof -
  have last: "k + l - 1 < n" using assms(3, 4) by simp
  obtain h' where "hstore ops (wa (k + l - 1)) (hdr l f) h = Some h'" "V h' n (m(k + l - 1 := hdr l f)) p"
    using V_store [OF assms(1) last] by blast
  then show thesis using that V_get_footer [OF assms(1) _ assms(2, 3)] V_load [OF assms(1), of k] assms(2-4)
    by (simp add: update_footer_def)
qed

lemma V_set_size:
  assumes "V h n m p" "k < n"
  obtains h' where "set_size ops (wa k) (of_nat (4 * l)) h = Some h'" "V h' n (m(k := (m k AND 1) OR of_nat (4 * l))) p"
  using V_store [OF assms, of "(m k AND 1) OR of_nat (4 * l)"] V_load [OF assms] by (auto simp: set_size_def)

lemma V_set_free:
  assumes "V h n m p" "k < n"
  obtains h' where "set_free ops (wa k) h = Some h'" "V h' n (m(k := m k OR 1)) p"
  using V_store [OF assms, of "m k OR 1"] V_load [OF assms] by (auto simp: set_free_def)

lemma V_clear_free:
  assumes "V h n m p" "k < n" "m k = hdr l f"
  obtains h' where "clear_free ops (wa k) h = Some h'" "V h' n (m(k := hdr l False)) p"
  using V_store [OF assms(1, 2), of "hdr l False"] V_load [OF assms(1, 2)] assms(3) hdr_simps(5) [of l f] by (auto simp: clear_free_def)

lemma V_create:
  assumes v: "V h n m p" and l: "3 \<le> l" "k + l \<le> n"
  obtains h' where "create_free_block ops (wa k) (of_nat (4 * l)) h = Some (wa k, h')"
    "V h' n (m(k := hdr l True, k + l - 1 := hdr l True, k + 2 := 0, k + 1 := 0)) p"
proof -
  have k: "k < n" "k + 1 < n" "k + 2 < n" "k + l - 1 < n" using l by auto
  obtain h1 where h1: "set_size ops (wa k) (of_nat (4 * l)) h = Some h1" "V h1 n (m(k := (m k AND 1) OR of_nat (4 * l))) p"
    using V_set_size [OF v k(1)] by blast
  obtain h2 where h2: "set_free ops (wa k) h1 = Some h2" "V h2 n (m(k := hdr l True)) p"
    using V_set_free [OF h1(2) k(1)] hdr_simps(6) [of "m k" l] by auto
  obtain h3 where h3: "hstore ops (wa (k + l - 1)) (hdr l True) h2 = Some h3" "V h3 n (m(k := hdr l True, k + l - 1 := hdr l True)) p"
    using V_store [OF h2(2) k(4)] by blast
  obtain h4 where h4: "hstore ops (wa (k + 2)) 0 h3 = Some h4" "V h4 n (m(k := hdr l True, k + l - 1 := hdr l True, k + 2 := 0)) p"
    using V_store [OF h3(2) k(3)] by blast
  obtain h5 where h5: "hstore ops (wa (k + 1)) 0 h4 = Some h5" "V h5 n (m(k := hdr l True, k + l - 1 := hdr l True, k + 2 := 0, k + 1 := 0)) p"
    using V_store [OF h4(2) k(2)] by blast
  have "get_footer ops (wa k) h2 = Some (wa (k + l - 1))" "hload ops (wa k) h2 = Some (hdr l True)"
    using V_get_footer [OF h2(2) k(1)] V_load [OF h2(2) k(1)] l by auto
  then have "create_free_block ops (wa k) (of_nat (4 * l)) h = Some (wa k, h5)"
    unfolding create_free_block_def wa_fields using h1(1) h2(1) h3(1) h4(1) h5(1) by simp
  then show thesis using that h5(2) by blast
qed

section \<open>The list\<close>

lemma V_add:
  assumes v: "V h n m (nxt fl 0)" and k: "k + 2 < n" and fl: "fl \<noteq> [] \<Longrightarrow> hd fl + 2 < n"
  obtains h' where "add_free_block ops (wa k) h = Some h'" "V h' n (linked m fl k) (wa k)"
proof -
  have n: "n \<le> heap_words" using V_bound [OF v] .
  obtain h1 where h1: "hstore ops (wa (k + 1)) (nxt fl 0) h = Some h1" "V h1 n (m(k + 1 := nxt fl 0)) (nxt fl 0)"
    using V_store [OF v, of "k + 1"] k by auto
  define m2 where "m2 = (if fl = [] then m(k + 1 := nxt fl 0) else m(k + 1 := nxt fl 0, hd fl + 2 := wa k))"
  have "\<exists>h2. (if nxt fl 0 \<noteq> 0 then hstore ops (nxt fl 0 + 8) (wa k) h1 else Some h1) = Some h2 \<and> V h2 n m2 (nxt fl 0)"
  proof (cases "fl = []")
    case True
    then show ?thesis using h1(2) by (simp add: nxt_def m2_def)
  next
    case False
    then have "nxt fl 0 = wa (hd fl)" "wa (hd fl) \<noteq> 0" using fl n wa_nonzero [of "hd fl"] by (auto simp: nxt_def)
    then show ?thesis using V_store [OF h1(2) fl [OF False], of "wa k"] False wa_fields(2) [of "hd fl"] by (auto simp: m2_def)
  qed
  then obtain h2 where h2: "(if nxt fl 0 \<noteq> 0 then hstore ops (nxt fl 0 + 8) (wa k) h1 else Some h1) = Some h2" "V h2 n m2 (nxt fl 0)" by blast
  obtain h3 where h3: "hstore ops (wa (k + 2)) 0 h2 = Some h3" "V h3 n (m2(k + 2 := 0)) (nxt fl 0)"
    using V_store [OF h2(2) k] by blast
  have "linked m fl k = m2(k + 2 := 0)" by (simp add: linked_def m2_def Let_def)
  then have "V (h3\<lparr>free_list_head := wa k\<rparr>) n (linked m fl k) (wa k)" using V_head [OF h3(2)] by simp
  moreover have "add_free_block ops (wa k) h = Some (h3\<lparr>free_list_head := wa k\<rparr>)"
    unfolding add_free_block_def wa_fields using h1(1) h2(1) h3(1) V_head_eq [OF v] V_head_eq [OF h1(2)] by (simp split del: if_split cong: if_cong)
  ultimately show thesis using that by blast
qed

lemma V_remove:
  assumes v: "V h n m (nxt (xs @ k # ys) 0)" and d: "dseg m 0 (xs @ k # ys) 0" and ap: "apart (xs @ k # ys)"
    and b: "\<forall>j \<in> set (xs @ k # ys). j + 2 < n"
  obtains h' where "remove_free_block ops (wa k) h = Some h'" "V h' n (unlinked m xs k ys) (nxt (xs @ ys) 0)"
proof -
  have n: "n \<le> heap_words" using V_bound [OF v] .
  have k: "k < n" "k + 1 < n" "k + 2 < n" using b by auto
  have links: "m (k + 2) = prv 0 xs" "m (k + 1) = nxt ys 0" using d by (simp_all add: dseg_append nxt_def)
  have dk: "distinct (xs @ k # ys)" using ap by (simp add: apart_def)
  have w: "j + a \<noteq> k + b" if "j \<in> set xs \<union> set ys" "a < 3" "b < 3" for j a b
    using apart_word [OF ap, of j k a b] that dk by auto
  define m1 where "m1 = (if xs = [] then m else m(last xs + 1 := nxt ys 0))"
  have 1: "\<exists>h1. (if prv 0 xs \<noteq> 0 then hstore ops (prv 0 xs + 4) (nxt ys 0) h else Some (h\<lparr>free_list_head := nxt ys 0\<rparr>)) = Some h1
    \<and> V h1 n m1 (nxt (xs @ ys) 0)"
  proof (cases "xs = []")
    case True
    then show ?thesis using V_head [OF v] by (simp add: prv_def m1_def)
  next
    case False
    then have l: "last xs + 1 < n" "last xs \<le> heap_words" using b [rule_format, of "last xs"] n by auto
    have "prv 0 xs = wa (last xs)" "nxt (xs @ ys) 0 = nxt (xs @ k # ys) 0" using False by (simp_all add: prv_def nxt_def)
    then show ?thesis using V_store [OF v l(1), of "nxt ys 0"] wa_nonzero [OF l(2)] wa_fields(1) [of "last xs"] False by (auto simp: m1_def)
  qed
  then obtain h1 where h1: "(if prv 0 xs \<noteq> 0 then hstore ops (prv 0 xs + 4) (nxt ys 0) h else Some (h\<lparr>free_list_head := nxt ys 0\<rparr>)) = Some h1"
    "V h1 n m1 (nxt (xs @ ys) 0)" by blast
  have m1: "m1 (k + 1) = nxt ys 0" "m1 (k + 2) = prv 0 xs"
    using links w [of "last xs" 1 1] w [of "last xs" 1 2] by (auto simp: m1_def)
  define m2 where "m2 = (if ys = [] then m1 else m1(hd ys + 2 := prv 0 xs))"
  have "\<exists>h2. (if nxt ys 0 \<noteq> 0 then do { pf \<leftarrow> hload ops (wa (k + 2)) h1; hstore ops (nxt ys 0 + 8) pf h1 } else Some h1) = Some h2
    \<and> V h2 n m2 (nxt (xs @ ys) 0)"
  proof (cases "ys = []")
    case True
    then show ?thesis using h1(2) by (simp add: nxt_def m2_def)
  next
    case False
    then have l: "hd ys + 2 < n" "hd ys \<le> heap_words" using b [rule_format, of "hd ys"] n by auto
    have "nxt ys 0 = wa (hd ys)" using False by (simp add: nxt_def)
    then show ?thesis using V_store [OF h1(2) l(1), of "prv 0 xs"] wa_nonzero [OF l(2)] wa_fields(2) [of "hd ys"] False
      V_load [OF h1(2) k(3)] m1(2) by (auto simp: m2_def)
  qed
  then obtain h2 where h2: "(if nxt ys 0 \<noteq> 0 then do { pf \<leftarrow> hload ops (wa (k + 2)) h1; hstore ops (nxt ys 0 + 8) pf h1 } else Some h1) = Some h2"
    "V h2 n m2 (nxt (xs @ ys) 0)" by blast
  obtain h3 where h3: "hstore ops (wa (k + 2)) 0 h2 = Some h3" "V h3 n (m2(k + 2 := 0)) (nxt (xs @ ys) 0)" using V_store [OF h2(2) k(3)] by blast
  obtain h4 where h4: "hstore ops (wa (k + 1)) 0 h3 = Some h4" "V h4 n (m2(k + 2 := 0, k + 1 := 0)) (nxt (xs @ ys) 0)" using V_store [OF h3(2) k(2)] by blast
  have "unlinked m xs k ys = m2(k + 2 := 0, k + 1 := 0)" by (simp add: unlinked_def m1_def m2_def Let_def)
  moreover have "remove_free_block ops (wa k) h = Some h4"
    unfolding remove_free_block_def wa_fields
    using V_load [OF v k(2)] V_load [OF v k(3)] links h1(1) V_load [OF h1(2) k(2)] m1 h2(1) h3(1) h4(1) by (simp split del: if_split cong: if_cong)
  ultimately show thesis using that h4(2) by simp
qed

end

end
