(* ===== verification/Heap_Ok.thy ===== *)
theory Heap_Ok
  imports Heap_Step
begin

text \<open>
  The allocator on the shape of the heap: \<open>kmalloc\<close> and \<open>kfree\<close> keep the invariant, do not touch the words of the blocks
  that stay allocated, and change the set of allocated blocks as an allocator should.
\<close>

definition heap_inv :: "'s mem_ops \<Rightarrow> ('s \<Rightarrow> bool) \<Rightarrow> ('s \<Rightarrow> u32 \<Rightarrow> bool) \<Rightarrow> ('s \<Rightarrow> nat) \<Rightarrow> nat \<Rightarrow> 's heap \<Rightarrow> nat \<Rightarrow> blocks \<Rightarrow> bool" where
  "heap_inv ops ok here room pages h n B \<longleftrightarrow> good ok here room pages h n \<and> blocks_ok B n \<and> heads (words ops h n) B \<and>
     (\<exists>fl. flist (words ops h n) B (free_list_head h) fl)"

text \<open>The allocated blocks, and a memory that agrees with another on them.\<close>

definition allocs :: "blocks \<Rightarrow> nat \<rightharpoonup> nat" where
  "allocs B k = (case B k of Some (l, False) \<Rightarrow> Some l | _ \<Rightarrow> None)"

definition kept :: "blocks \<Rightarrow> (nat \<Rightarrow> u32) \<Rightarrow> (nat \<Rightarrow> u32) \<Rightarrow> bool" where
  "kept B m m' \<longleftrightarrow> (\<forall>k l j. B k = Some (l, False) \<and> j \<in> extent k l \<longrightarrow> m' j = m j)"

lemma allocs_eq: "allocs B k = Some l \<longleftrightarrow> B k = Some (l, False)"
  by (auto simp: allocs_def split: option.splits prod.splits bool.splits)

lemma allocs_upd: "allocs (B(k \<mapsto> (l, f))) = (allocs B)(k := if f then None else Some l)" "allocs (B(k := None)) = (allocs B)(k := None)"
  by (auto simp: allocs_def fun_eq_iff)

lemma kept_refl [simp]: "kept B m m"
  by (simp add: kept_def)

lemma kept_trans: "kept B m m1 \<Longrightarrow> kept B1 m1 m2 \<Longrightarrow> allocs B \<subseteq>\<^sub>m allocs B1 \<Longrightarrow> kept B m m2"
  unfolding kept_def map_le_def by (metis allocs_eq domI)

lemma kept_free:
  assumes "blocks_ok B n" "\<And>j. m' j \<noteq> m j \<Longrightarrow> \<exists>k l. B k = Some (l, True) \<and> j \<in> extent k l"
  shows "kept B m m'"
  unfolding kept_def
proof (intro allI impI)
  fix k l j assume a: "B k = Some (l, False) \<and> j \<in> extent k l"
  show "m' j = m j"
  proof (rule ccontr)
    assume "m' j \<noteq> m j"
    then obtain k' l' where "B k' = Some (l', True)" "j \<in> extent k' l'" using assms(2) by blast
    with a show False using blocks_disjoint [OF assms(1), of k l False k' l' True j] by auto
  qed
qed

lemma link_word: "blocks_ok B n \<Longrightarrow> B k = Some (l, f) \<Longrightarrow> k \<in> extent k l \<and> k + 1 \<in> extent k l \<and> k + 2 \<in> extent k l \<and> k + l - 1 \<in> extent k l \<and> k + 2 < n"
  using blocks_size [of B n k l f] by (auto simp: extent_def)

lemma linked_kept:
  assumes ok: "blocks_ok B n" and k: "B k = Some (l, True)" and fl: "set fl \<subseteq> {k. \<exists>l. B k = Some (l, True)}"
  shows "kept B m (linked m fl k)"
proof (rule kept_free [OF ok])
  fix j assume "linked m fl k j \<noteq> m j"
  then consider "j = k + 1 \<or> j = k + 2" | "fl \<noteq> []" "j = hd fl + 2" by (auto simp: linked_def Let_def split: if_splits)
  then show "\<exists>k l. B k = Some (l, True) \<and> j \<in> extent k l"
  proof cases
    case 1
    then show ?thesis using k link_word [OF ok k] by blast
  next
    case 2
    then have "hd fl \<in> {k. \<exists>l. B k = Some (l, True)}" using fl hd_in_set by blast
    then obtain l' where "B (hd fl) = Some (l', True)" by blast
    with 2(2) link_word [OF ok this] show ?thesis by blast
  qed
qed

lemma unlinked_kept:
  assumes ok: "blocks_ok B n" and fl: "set (xs @ k # ys) \<subseteq> {k. \<exists>l. B k = Some (l, True)}"
  shows "kept B m (unlinked m xs k ys)"
proof (rule kept_free [OF ok])
  fix j assume "unlinked m xs k ys j \<noteq> m j"
  then have "\<exists>i \<in> set (xs @ k # ys). j = i + 1 \<or> j = i + 2"
    by (auto simp: unlinked_def Let_def split: if_splits)
  then obtain i l where "B i = Some (l, True)" "j = i + 1 \<or> j = i + 2" using fl by blast
  then show "\<exists>k l. B k = Some (l, True) \<and> j \<in> extent k l" using link_word [OF ok] by blast
qed

lemma dseg_even: "dseg m p ks q \<Longrightarrow> p AND 1 = 0 \<Longrightarrow> k \<in> set ks \<Longrightarrow> m (k + 2) AND 1 = 0"
  by (induction ks arbitrary: p) (auto simp: wa_even)

context heap_memory
begin

definition I :: "'s heap \<Rightarrow> nat \<Rightarrow> (nat \<Rightarrow> u32) \<Rightarrow> blocks \<Rightarrow> nat list \<Rightarrow> bool" where
  "I h n m B fl \<longleftrightarrow> V h n m (nxt fl 0) \<and> blocks_ok B n \<and> heads m B \<and> flist m B (nxt fl 0) fl"

lemma I_inv: "heap_inv ops ok here room pages h n B \<longleftrightarrow> (\<exists>fl. I h n (words ops h n) B fl)"
  by (auto simp: heap_inv_def I_def view_def flist_def)

lemma I_words: "I h n m B fl \<Longrightarrow> heap_inv ops ok here room pages h n B \<and> m = words ops h n"
  by (auto simp: I_inv I_def view_def)

lemma I_free: "I h n m B fl \<Longrightarrow> k \<in> set fl \<longleftrightarrow> (\<exists>l. B k = Some (l, True))"
  by (auto simp: I_def flist_def)

section \<open>Adding, removing, merging\<close>

lemma add_ok:
  assumes v: "V h n m (nxt fl 0)" and ok: "blocks_ok B n" "B k = Some (l, True)" "heads m B" and f: "flist m (B(k := None)) (nxt fl 0) fl"
  obtains h' where "add_free_block ops (wa k) h = Some h'" "I h' n (linked m fl k) B (k # fl)" "kept B m (linked m fl k)"
proof -
  have sub: "set fl \<subseteq> {k. \<exists>l. B k = Some (l, True)}" using f by (auto simp: flist_def split: if_splits)
  have "fl \<noteq> [] \<Longrightarrow> hd fl + 2 < n" using sub link_word [OF ok(1)] hd_in_set [of fl] by blast
  then obtain h' where h': "add_free_block ops (wa k) h = Some h'" "V h' n (linked m fl k) (wa k)"
    using V_add [OF v, of k] link_word [OF ok(1, 2)] by blast
  note l = link_shape [OF ok(1, 3, 2) f]
  have "wa k = nxt (k # fl) 0" by (simp add: nxt_def)
  then have "I h' n (linked m fl k) B (k # fl)" using h'(2) ok(1) l by (simp add: I_def)
  then show thesis using that h'(1) linked_kept [OF ok(1, 2) sub] by blast
qed

lemma remove_ok:
  assumes i: "I h n m B fl" and k: "B k = Some (l, True)"
  obtains h' m' fl' where "remove_free_block ops (wa k) h = Some h'" "V h' n m' (nxt fl' 0)" "heads m' B" "kept B m m'"
    "flist m' (B(k := None)) (nxt fl' 0) fl'"
proof -
  have v: "V h n m (nxt fl 0)" and ok: "blocks_ok B n" "heads m B" and f: "flist m B (nxt fl 0) fl" using i by (auto simp: I_def)
  have "k \<in> set fl" using k I_free [OF i] by blast
  then obtain xs ys where fl: "fl = xs @ k # ys" by (meson split_list)
  have sub: "set (xs @ k # ys) \<subseteq> {k. \<exists>l. B k = Some (l, True)}" using f unfolding fl flist_def by blast
  have "\<forall>k \<in> set fl. B k \<noteq> None" using sub unfolding fl by fastforce
  then have "apart fl" using f by (intro free_apart [OF ok(1)]) (simp add: flist_def)
  moreover have "\<forall>j \<in> set (xs @ k # ys). j + 2 < n" using sub link_word [OF ok(1)] by blast
  moreover have "dseg m 0 fl 0" using f by (simp add: flist_def)
  ultimately obtain h' where h': "remove_free_block ops (wa k) h = Some h'" "V h' n (unlinked m xs k ys) (nxt (xs @ ys) 0)"
    using V_remove [of h n m xs k ys] v unfolding fl by blast
  note u = unlink_shape [OF ok f [unfolded fl]]
  show thesis using that [OF h' u(1) unlinked_kept [OF ok(1) sub] u(2)] .
qed

lemma coalesce_ok:
  assumes i: "I h n m B fl" and k: "B k = Some (l, True)" "B (k + l) = Some (l', True)"
  obtains h' m' fl' where "coalesce_blocks ops (wa k) (wa (k + l)) h = Some h'"
    "I h' n m' (B(k \<mapsto> (l + l', True), k + l := None)) fl'" "kept B m m'"
proof -
  have ok: "blocks_ok B n" using i by (simp add: I_def)
  note sz = blocks_size [OF ok k(1)] blocks_size [OF ok k(2)]
  obtain h1 m1 fl1 where h1: "remove_free_block ops (wa (k + l)) h = Some h1" "V h1 n m1 (nxt fl1 0)" "heads m1 B" "kept B m m1"
    "flist m1 (B(k + l := None)) (nxt fl1 0) fl1" using remove_ok [OF i k(2)] .
  have hd: "m1 k = hdr l True" "m1 (k + l) = hdr l' True" using h1(3) k by (auto simp: heads_def)
  have kn: "k < n" "k + l < n" using sz by auto
  have gs: "get_size ops (wa k) h1 = Some (of_nat (4 * l))" "get_size ops (wa (k + l)) h1 = Some (of_nat (4 * l'))"
    using V_get_size [OF h1(2) kn(1) hd(1)] V_get_size [OF h1(2) kn(2) hd(2)] .
  have sum: "of_nat (4 * l) + of_nat (4 * l') = (of_nat (4 * (l + l')) :: u32)" by (simp add: algebra_simps)
  define m2 where "m2 = m1(k := hdr (l + l') True)"
  obtain h2 where h2: "set_size ops (wa k) (of_nat (4 * (l + l'))) h1 = Some h2" "V h2 n m2 (nxt fl1 0)"
    using V_set_size [OF h1(2) kn(1), of "l + l'"] hd(1) hdr_simps(4) [of l True "l + l'"] unfolding m2_def by metis
  have m2k: "m2 k = hdr (l + l') True" by (simp add: m2_def)
  obtain h3 where h3: "set_free ops (wa k) h2 = Some h3" "V h3 n m2 (nxt fl1 0)"
    using V_set_free [OF h2(2) kn(1)] m2k hdr_simps(3) [of "l + l'" True] by (metis fun_upd_triv)
  define m3 where "m3 = m2(k + (l + l') - 1 := hdr (l + l') True)"
  obtain h4 where h4: "update_footer ops (wa k) h3 = Some h4" "V h4 n m3 (nxt fl1 0)"
    using V_update_footer [OF h3(2) m2k] sz unfolding m3_def by (metis add.assoc add_gr_0 le_zero_eq not_gr_zero zero_neq_numeral)
  have run: "coalesce_blocks ops (wa k) (wa (k + l)) h = Some h4"
    by (simp only: coalesce_blocks_def h1(1) gs sum h2(1) h3(1) h4(1) Option.bind_lunit)
  let ?B = "B(k \<mapsto> (l + l', True), k + l := None)"
  have ok': "blocks_ok ?B n" using blocks_merge [OF ok k] .
  have m3: "m3 j = m1 j" if "j \<noteq> k" "j \<noteq> k + l + l' - 1" for j using that by (simp add: m3_def m2_def add.assoc)
  have out: "m3 j = m1 j" if "B k' = Some (i, f)" "k' \<noteq> k" "k' \<noteq> k + l" "j \<in> extent k' i" for k' i f j
    using m3 link_word [OF ok k(1)] link_word [OF ok k(2)] blocks_disjoint [OF ok that(1) k(1) that(4)]
      blocks_disjoint [OF ok that(1) k(2) that(4)] that(2, 3) by metis
  have "heads m3 ?B" unfolding heads_def
  proof (intro allI impI)
    fix k' i f assume b: "?B k' = Some (i, f)"
    show "m3 k' = hdr i f \<and> (f \<and> i = 3 \<or> m3 (k' + i - 1) = hdr i f)"
    proof (cases "k' = k")
      case True
      then show ?thesis using b sz by (auto simp: m3_def m2_def add.assoc)
    next
      case False
      then have b': "B k' = Some (i, f)" "k' \<noteq> k + l" using b by (auto split: if_splits)
      then have "m3 k' = m1 k'" "m3 (k' + i - 1) = m1 (k' + i - 1)" using out [OF b'(1) False b'(2)] link_word [OF ok b'(1)] by blast+
      then show ?thesis using h1(3) b'(1) by (simp add: heads_def)
    qed
  qed
  moreover have "flist m3 ?B (nxt fl1 0) fl1"
  proof -
    have "dseg m3 0 fl1 0 = dseg m1 0 fl1 0"
    proof (rule dseg_cong)
      fix j assume "j \<in> set fl1"
      then obtain i where b: "B j = Some (i, True)" "j \<noteq> k + l" using h1(5) by (auto simp: flist_def split: if_splits)
      show "m3 (j + 1) = m1 (j + 1) \<and> m3 (j + 2) = m1 (j + 2)"
      proof (cases "j = k")
        case True
        then show ?thesis using m3 sz by auto
      next
        case False
        then show ?thesis using out [OF b(1) False b(2)] link_word [OF ok b(1)] by blast
      qed
    qed
    moreover have "{j. \<exists>i. ?B j = Some (i, True)} = {j. \<exists>i. (B(k + l := None)) j = Some (i, True)}"
      using k(1) sz by auto
    ultimately show ?thesis using h1(5) unfolding flist_def by simp
  qed
  ultimately have "I h4 n m3 ?B fl1" using h4(2) ok' by (simp add: I_def)
  moreover have "kept B m1 m3"
  proof (rule kept_free [OF ok])
    fix j assume "m3 j \<noteq> m1 j"
    then have "j = k \<or> j = k + l + l' - 1" using m3 by blast
    then show "\<exists>k l. B k = Some (l, True) \<and> j \<in> extent k l" using k link_word [OF ok k(1)] link_word [OF ok k(2)] by blast
  qed
  then have "kept B m m3" using kept_trans [OF h1(4) _ map_le_refl] by simp
  ultimately show thesis using that run by blast
qed

text \<open>The block before a free block is merged with it if it is free and has a footer.\<close>

lemma coalesce_prev_ok:
  assumes i: "I h n m B fl" and k: "B k = Some (l, True)"
  obtains h' m' B' fl' where "coalesce_with_prev ops (wa k) h = Some h'" "I h' n m' B' fl'" "kept B m m'" "allocs B' = allocs B"
    "if \<exists>k' l'. B k' = Some (l', True) \<and> k' + l' = k \<and> l' \<noteq> 3
     then \<exists>k' l'. B k' = Some (l', True) \<and> k' + l' = k \<and> B' = B(k' \<mapsto> (l' + l, True), k := None) else B' = B"
proof -
  have v: "V h n m (nxt fl 0)" and ok: "blocks_ok B n" and hd: "heads m B" and f: "flist m B (nxt fl 0) fl" using i by (auto simp: I_def)
  have n: "n \<le> heap_words" using V_bound [OF v] .
  note sz = blocks_size [OF ok k]
  have pos: "\<not> wa k \<le> 0" using wa_nonzero [of k] sz n by simp
  have low: "wa k - 4 \<le> KHEAP_START \<longleftrightarrow> k \<le> 1" 
  proof (cases "k = 0")
    case False
    then have "wa k - 4 = wa (k - 1)" using wa_fields(3) by simp
    moreover have "unat (wa (k - 1)) = 0xC1000000 + 4 * (k - 1)" using sz n by (intro unat_wa) linarith
    ultimately show ?thesis using False by (simp add: word_le_nat_alt)
  qed (simp add: wa_def)
  show thesis
  proof (cases "k = 0")
    case True
    then have "coalesce_with_prev ops (wa k) h = Some h" using pos low by (simp add: coalesce_with_prev_def)
    moreover have "\<not> (\<exists>k' l'. B k' = Some (l', True) \<and> k' + l' = k \<and> l' \<noteq> 3)" using True blocks_size [OF ok] by fastforce
    ultimately show thesis using that i by (metis kept_refl)
  next
    case False
    then obtain k' l' f' where k': "B k' = Some (l', f')" "k' + l' = k" using blocks_before [OF ok, of k] k by auto
    note sz' = blocks_size [OF ok k'(1)]
    have nlow: "\<not> wa k - 4 \<le> KHEAP_START" using low sz' k'(2) by simp
    have wk: "wa k - 4 = wa (k' + l' - 1)" using wa_fields(3) [of k] False k'(2) by simp
    have wb: "wa k - of_nat (4 * l') = wa k'" using wa_add [of k' l'] k'(2) by (metis add_diff_cancel_right')
    have ld: "hload ops (wa (k' + l' - 1)) h = Some (m (k' + l' - 1))" using sz' by (intro V_load [OF v]) linarith
    have uniq: "k'' = k'" if "B k'' = Some (l'', True)" "k'' + l'' = k" for k'' l''
    proof (rule blocks_disjoint [OF ok k'(1) that(1)])
      show "k - 1 \<in> extent k' l'" "k - 1 \<in> extent k'' l''" using that(2) k'(2) sz' blocks_size [OF ok that(1)] by (auto simp: extent_def)
    qed
    show thesis
    proof (cases "f' \<and> l' \<noteq> 3")
      case True
      then have hw: "m (k' + l' - 1) = hdr l' True" using hd k'(1) by (auto simp: heads_def)
      obtain h' m' fl' where c: "coalesce_blocks ops (wa k') (wa k) h = Some h'"
        "I h' n m' (B(k' \<mapsto> (l' + l, True), k := None)) fl'" "kept B m m'"
        using coalesce_ok [OF i, of k' l' l] k' k True by auto
      have "is_free ops (wa (k' + l' - 1)) h = Some True" using ld hw by (simp add: is_free_def hdr_simps(1))
      moreover have "get_size ops (wa (k' + l' - 1)) h = Some (of_nat (4 * l'))" using sz' by (intro V_get_size [OF v _ hw]) linarith
      ultimately have run: "coalesce_with_prev ops (wa k) h = Some h'"
        using pos nlow c(1) wb unfolding coalesce_with_prev_def wk by (simp add: Let_def del: of_nat_mult)
      have al: "allocs (B(k' \<mapsto> (l' + l, True), k := None)) = allocs B"
        using k' k True by (auto simp: allocs_def fun_eq_iff)
      have b: "B k' = Some (l', True)" using k'(1) True by simp
      then have e: "\<exists>k' l'. B k' = Some (l', True) \<and> k' + l' = k \<and> l' \<noteq> 3" using k'(2) True by blast
      have e': "\<exists>k'' l''. B k'' = Some (l'', True) \<and> k'' + l'' = k \<and> B(k' \<mapsto> (l' + l, True), k := None) = B(k'' \<mapsto> (l'' + l, True), k := None)"
        using k'(2) b by blast
      show thesis by (rule that [OF run c(2, 3) al]) (simp only: e e' if_True)
    next
      case False
      have "m (k' + l' - 1) AND 1 = 0"
      proof (cases f')
        case True
        then have l3: "l' = 3" "k' \<in> set fl" using False k'(1) I_free [OF i] by auto
        have "m (k' + 2) AND 1 = 0" using f l3(2) dseg_even [of m 0 fl 0 k'] by (simp add: flist_def)
        then show ?thesis using l3(1) by simp
      next
        case False
        then have "m (k' + l' - 1) = hdr l' False" using hd k'(1) by (auto simp: heads_def)
        then show ?thesis by (simp only: hdr_simps(1)) simp
      qed
      then have "coalesce_with_prev ops (wa k) h = Some h"
        using pos nlow ld unfolding coalesce_with_prev_def wk by (simp add: is_free_def Let_def)
      moreover have "\<not> (\<exists>k' l'. B k' = Some (l', True) \<and> k' + l' = k \<and> l' \<noteq> 3)" using uniq k'(1) False by fastforce
      ultimately show thesis using that i by (metis kept_refl)
    qed
  qed
qed

end

end
