(* ===== verification/Kmalloc.thy ===== *)
theory Kmalloc
  imports Heap_Ok
begin

text \<open>\<open>kmalloc\<close> and \<open>kfree\<close> as a whole: a new page, the search of the free list, the loop over new pages.\<close>

section \<open>A new page\<close>

lemma wa_page: "n mod 1024 = 0 \<Longrightarrow> wa n AND 0xFFF = 0"
proof -
  assume "n mod 1024 = 0"
  then obtain q where q: "n = 1024 * q" by (auto simp: mod_eq_0_iff_dvd)
  have "wa n = of_nat (4096 * (0xC1000 + q))" by (simp add: wa_def q)
  also have "\<dots> = push_bit 12 (of_nat (0xC1000 + q))" by (simp add: push_bit_eq_mult)
  finally have "take_bit 12 (wa n) = 0" by (simp add: take_bit_push_bit)
  then show ?thesis by (simp add: take_bit_eq_mask mask_eq_exp_minus_1)
qed

lemma wa_in_page:
  assumes "k \<le> heap_words" "n \<le> heap_words" "n mod 1024 = 0"
  shows "wa k AND 3 = 0 \<and> wa k AND 0xFFFFF000 = wa n \<longleftrightarrow> n \<le> k \<and> k < n + 1024"
proof -
  obtain q where q: "n = 1024 * q" using assms(3) by (auto simp: mod_eq_0_iff_dvd)
  have "wa k = of_nat (4 * (0x30400000 + k))" by (simp add: wa_def)
  also have "\<dots> = push_bit 2 (of_nat (0x30400000 + k))" by (simp add: push_bit_eq_mult)
  finally have "take_bit 2 (wa k) = 0" by (simp add: take_bit_push_bit)
  then have 3: "wa k AND 3 = 0" by (simp add: take_bit_eq_mask mask_eq_exp_minus_1)
  have "(0xFFFFF000 :: u32) = NOT (mask 12)" by (simp add: mask_eq_exp_minus_1)
  then have "unat (wa k AND 0xFFFFF000) = unat (wa k) div 4096 * 4096" using unat_align_down [of "wa k" 12] by simp
  also have "unat (wa k) = 4 * k + 4096 * 0xC1000" using unat_wa [OF assms(1)] by simp
  also have "(4 * k + 4096 * 0xC1000) div 4096 = 0xC1000 + 4 * k div 4096" by (subst div_mult_self2) simp_all
  finally have "unat (wa k AND 0xFFFFF000) = (0xC1000 + 4 * k div 4096) * 4096" .
  moreover have "unat (wa n) = (0xC1000 + q) * 4096" using unat_wa [OF assms(2)] q by simp
  ultimately have "wa k AND 0xFFFFF000 = wa n \<longleftrightarrow> 4 * k div 4096 = q" by (simp add: word_unat_eq_iff)
  also have "4 * k div 4096 = k div 1024" by simp
  finally show ?thesis using 3 by (auto simp: q)
qed

text \<open>The last block is free and has at least \<open>j\<close> pages.\<close>

definition grown :: "blocks \<Rightarrow> nat \<Rightarrow> nat \<Rightarrow> bool" where
  "grown B n j \<longleftrightarrow> j = 0 \<or> (\<exists>k l. B k = Some (l, True) \<and> k + l = n \<and> j * 1024 \<le> l)"

lemma heads_cong:
  assumes "blocks_ok B n" "heads m B" "\<And>j. j < n \<Longrightarrow> m' j = m j"
  shows "heads m' B"
  unfolding heads_def
proof (intro allI impI)
  fix k l f assume b: "B k = Some (l, f)"
  have "m' k = m k" "m' (k + l - 1) = m (k + l - 1)" using blocks_size [OF assms(1) b] by (auto intro!: assms(3))
  then show "m' k = hdr l f \<and> (f \<and> l = 3 \<or> m' (k + l - 1) = hdr l f)" using assms(2) b by (simp add: heads_def)
qed

lemma flist_cong:
  assumes "blocks_ok B n" "flist m B p fl" "\<And>j. j < n \<Longrightarrow> m' j = m j"
  shows "flist m' B p fl"
proof -
  have "dseg m' 0 fl 0 = dseg m 0 fl 0"
  proof (rule dseg_cong)
    fix j assume "j \<in> set fl"
    then obtain l where "B j = Some (l, True)" using assms(2) by (auto simp: flist_def)
    then have "j + 2 < n" using link_word [OF assms(1)] by blast
    then show "m' (j + 1) = m (j + 1) \<and> m' (j + 2) = m (j + 2)" using assms(3) by simp
  qed
  then show ?thesis using assms(2) by (simp add: flist_def)
qed

lemma kept_cong:
  assumes "blocks_ok B n" "\<And>j. j < n \<Longrightarrow> m' j = m j"
  shows "kept B m m'"
  unfolding kept_def
proof (intro allI impI)
  fix k l j assume a: "B k = Some (l, False) \<and> j \<in> extent k l"
  then have "k + l \<le> n" using blocks_size [OF assms(1)] by blast
  then show "m' j = m j" using a assms(2) by (simp add: extent_def)
qed

text \<open>The size of the block for a request, in words.\<close>

lemma unat_align_block: "unat sz + 3 < 2 ^ 32 \<Longrightarrow> unat (align_block sz) = (unat sz + 3) div 4 * 4"
proof -
  assume b: "unat sz + 3 < 2 ^ 32"
  have "(4 - 1 :: u32) = mask 2" by (simp add: mask_eq_exp_minus_1)
  then have "unat (align_block sz) = unat (sz + 3) div 4 * 4" unfolding align_block_def using unat_align_down [of "sz + 3" 2] by simp
  also have "unat (sz + 3) = unat sz + 3" using b by (subst unat_plus_no_wrap) simp_all
  finally show ?thesis .
qed

lemma unat_block_size:
  assumes "unat sz + 11 < 2 ^ 32"
  shows "unat (block_size sz) = max 12 ((unat sz + 3) div 4 * 4 + 8)"
proof -
  have al: "unat (align_block sz) = (unat sz + 3) div 4 * 4" using assms by (intro unat_align_block) simp
  have "(unat sz + 3) div 4 * 4 + 8 < 2 ^ 32" using assms by linarith
  then have "unat (align_block sz + 8) = (unat sz + 3) div 4 * 4 + 8" using al by (subst unat_plus_no_wrap) simp_all
  then show ?thesis by (simp add: block_size_def Let_def word_less_nat_alt max_def)
qed

lemma block_size_words:
  assumes "unat sz + 11 < 2 ^ 32"
  obtains a where "block_size sz = of_nat (4 * a)" "3 \<le> a" "unat sz + 8 \<le> 4 * a" "4 * a \<le> unat sz + 12"
proof -
  define a where "a = max 3 ((unat sz + 3) div 4 + 2)"
  have "unat (block_size sz) = 4 * a" unfolding unat_block_size [OF assms] a_def by simp
  then have "block_size sz = of_nat (4 * a)" by (rule eq_of_nat)
  moreover have "3 \<le> a" "unat sz + 8 \<le> 4 * a" "4 * a \<le> unat sz + 12"
    using div_times_less_eq_dividend [of "unat sz + 3" 4] dividend_less_div_times [of 4 "unat sz + 3"] unfolding a_def by (auto simp: max_def)
  ultimately show thesis using that by blast
qed

lemma block_size_again:
  assumes "3 \<le> a" "4 * a + 11 < 2 ^ 32"
  shows "block_size (of_nat (4 * a) - 8) = of_nat (4 * a)"
proof -
  define b where "b = a - 2"
  have b: "a = b + 2" "1 \<le> b" using assms(1) by (simp_all add: b_def)
  have "of_nat (4 * a) - (8 :: u32) = of_nat (4 * b)" by (simp add: b)
  moreover have "unat (of_nat (4 * b) :: u32) = 4 * b" using assms(2) b by (intro unat_of_nat32) simp
  ultimately have u: "unat (of_nat (4 * a) - 8 :: u32) = 4 * b" by simp
  have "unat (block_size (of_nat (4 * a) - 8)) = max 12 ((4 * b + 3) div 4 * 4 + 8)"
    using unat_block_size [of "of_nat (4 * a) - 8"] u assms(2) b by simp
  also have "(4 * b + 3) div 4 = b" by simp
  also have "max 12 (b * 4 + 8) = 4 * a" using b by simp
  finally show ?thesis by (rule eq_of_nat)
qed

context heap_memory
begin

lemma V_page:
  assumes v: "V h n m p" and n: "n < heap_words"
  obtains q s' where "mem_page ops (wa n) (hmem h) = Some (q, s')"
    "q = 0 \<Longrightarrow> V (h\<lparr>hmem := s'\<rparr>) n m p" "q = 0 \<Longrightarrow> n = 1024 * pages"
    "q \<noteq> 0 \<Longrightarrow> \<exists>m'. V (h\<lparr>hmem := s', heap_max := wa (n + 1024)\<rparr>) (n + 1024) m' p \<and> (\<forall>j < n. m' j = m j)"
proof -
  have rm: "n div 1024 + room (hmem h) = pages" and g: "ok (hmem h)" "heap_max h = wa n" "n mod 1024 = 0" "\<forall>k < heap_words. here (hmem h) (wa k) \<longleftrightarrow> k < n"
    and m: "words ops h n = m" "free_list_head h = p" using v by (auto simp: view_def good_def)
  have "\<not> here (hmem h) (wa n)" using g(4) n by simp
  obtain q s' where q: "mem_page ops (wa n) (hmem h) = Some (q, s')" "ok s'"
    "\<forall>b. here (hmem h) b \<longrightarrow> mem_load ops b s' = mem_load ops b (hmem h)"
    "\<forall>b. here s' b \<longleftrightarrow> here (hmem h) b \<or> q \<noteq> 0 \<and> b AND 3 = 0 \<and> b AND 0xFFFFF000 = wa n"
    and r: "q = 0 \<longleftrightarrow> room (hmem h) = 0" "room s' = room (hmem h) - 1"
    using page_here [OF g(1) heap_region [OF n] wa_page [OF g(3)] \<open>\<not> here (hmem h) (wa n)\<close>] by (elim exE conjE) (rule that)
  have full: "n = 1024 * pages" if "q = 0" using rm r(1) g(3) that by auto
  have same: "mem_load ops (wa j) s' = mem_load ops (wa j) (hmem h)" if "j < n" for j using q(3) g(4) that n by simp
  have n1: "n + 1024 \<le> heap_words" 
  proof -
    obtain r where "n = 1024 * r" using g(3) by (auto simp: mod_eq_0_iff_dvd)
    then show ?thesis using n by simp
  qed
  have w: "words ops (h\<lparr>hmem := s'\<rparr>) n = m" unfolding m(1) [symmetric] using same by (auto simp: words_def fun_eq_iff)
  have "V (h\<lparr>hmem := s'\<rparr>) n m p" if "q = 0"
    using g m(2) q(2, 4) that w n r rm by (simp add: view_def good_def)
  moreover have "V (h\<lparr>hmem := s', heap_max := wa (n + 1024)\<rparr>) (n + 1024)
      (words ops (h\<lparr>hmem := s', heap_max := wa (n + 1024)\<rparr>) (n + 1024)) p" if "q \<noteq> 0"
  proof -
    have "here s' (wa k) \<longleftrightarrow> k < n + 1024" if "k < heap_words" for k
      using q(4) \<open>q \<noteq> 0\<close> g(4) wa_in_page [of k n] that n g(3) by auto
    then show ?thesis using q(2) m g(3) n1 r rm \<open>q \<noteq> 0\<close> by (simp add: view_def good_def)
  qed
  moreover have "words ops (h\<lparr>hmem := s', heap_max := wa (n + 1024)\<rparr>) (n + 1024) j = m j" if "j < n" for j
    using same [OF that] that m by (auto simp: words_def)
  ultimately show thesis using that q(1) full by blast
qed

lemma page_ok:
  assumes i: "I h n m B fl" and n: "n < heap_words"
  shows "\<exists>p h'. allocate_new_heap_page ops h = Some (p, h') \<and> (p = 0 \<longrightarrow> I h' n m B fl \<and> n = 1024 * pages) \<and>
    (p \<noteq> 0 \<longrightarrow> (\<exists>m' B' fl'. I h' (n + 1024) m' B' fl' \<and> kept B m m' \<and> allocs B' = allocs B \<and>
      (\<forall>j. grown B n j \<longrightarrow> grown B' (n + 1024) (j + 1))))"
proof -
  have v: "V h n m (nxt fl 0)" and ok: "blocks_ok B n" and hd: "heads m B" and f: "flist m B (nxt fl 0) fl" using i by (auto simp: I_def)
  have mx: "heap_max h = wa n" using v by (simp add: view_def good_def)
  have fresh: "B n = None" using blocks_size [OF ok, of n] by (cases "B n") fastforce+
  obtain q s' where q: "mem_page ops (wa n) (hmem h) = Some (q, s')" "q = 0 \<Longrightarrow> V (h\<lparr>hmem := s'\<rparr>) n m (nxt fl 0)" "q = 0 \<Longrightarrow> n = 1024 * pages"
    "q \<noteq> 0 \<Longrightarrow> \<exists>m'. V (h\<lparr>hmem := s', heap_max := wa (n + 1024)\<rparr>) (n + 1024) m' (nxt fl 0) \<and> (\<forall>j < n. m' j = m j)"
    using V_page [OF v n] by blast
  show ?thesis
  proof (cases "q = 0")
    case True
    then have "allocate_new_heap_page ops h = Some (0, h\<lparr>hmem := s'\<rparr>)" using q(1) mx by (simp add: allocate_new_heap_page_def)
    moreover have "I (h\<lparr>hmem := s'\<rparr>) n m B fl" using q(2) [OF True] i by (simp add: I_def)
    ultimately show ?thesis using q(3) [OF True] by blast
  next
    case False
    let ?h1 = "h\<lparr>hmem := s', heap_max := wa (n + 1024)\<rparr>"
    obtain m1 where m1: "V ?h1 (n + 1024) m1 (nxt fl 0)" "\<And>j. j < n \<Longrightarrow> m1 j = m j" using q(4) [OF False] by blast
    define m2 where "m2 = m1(n := hdr 1024 True, n + 1024 - 1 := hdr 1024 True, n + 2 := 0, n + 1 := 0)"
    obtain h2 where h2: "create_free_block ops (wa n) (of_nat (4 * 1024)) ?h1 = Some (wa n, h2)" "V h2 (n + 1024) m2 (nxt fl 0)"
      using V_create [OF m1(1), of 1024 n] unfolding m2_def by auto
    let ?B = "B(n \<mapsto> (1024, True))"
    have old: "m2 j = m j" if "j < n" for j using m1(2) that by (simp add: m2_def)
    have ok1: "blocks_ok ?B (n + 1024)" using blocks_extend [OF ok] by simp
    have Bn: "?B(n := None) = B" and Bn1: "?B n = Some (1024, True)" using fresh by auto
    have "heads m2 (B(n := None))" using heads_cong [OF ok hd old] fresh by (simp add: fun_upd_idem)
    moreover have "m2 n = hdr 1024 True" "m2 (n + 1024 - 1) = hdr 1024 True" by (simp_all add: m2_def)
    ultimately have "heads m2 ?B" using heads_insert [of m2 B n 1024 True] by simp
    then obtain h3 where h3: "add_free_block ops (wa n) h2 = Some h3" "I h3 (n + 1024) (linked m2 fl n) ?B (n # fl)" "kept ?B m2 (linked m2 fl n)"
      using add_ok [OF h2(2) ok1, of n 1024] flist_cong [OF ok f old] Bn by auto
    obtain h4 m4 B4 fl4 where h4: "coalesce_with_prev ops (wa n) h3 = Some h4" "I h4 (n + 1024) m4 B4 fl4" "kept ?B (linked m2 fl n) m4"
      "allocs B4 = allocs ?B"
      "if \<exists>k' l'. ?B k' = Some (l', True) \<and> k' + l' = n \<and> l' \<noteq> 3
       then \<exists>k' l'. ?B k' = Some (l', True) \<and> k' + l' = n \<and> B4 = ?B(k' \<mapsto> (l' + 1024, True), n := None) else B4 = ?B"
      using coalesce_prev_ok [OF h3(2) Bn1] .
    have al: "allocs ?B = allocs B" using fresh by (auto simp: allocs_def fun_eq_iff)
    have kp: "kept B m m4"
      using kept_trans [OF kept_trans [OF kept_cong [OF ok old] h3(3)] h4(3)] al by simp
    have gr: "grown B4 (n + 1024) (j + 1)" if g: "grown B n j" for j
    proof (cases "\<exists>k' l'. ?B k' = Some (l', True) \<and> k' + l' = n \<and> l' \<noteq> 3")
      case True
      then obtain k' l' where k': "?B k' = Some (l', True)" "k' + l' = n" "B4 = ?B(k' \<mapsto> (l' + 1024, True), n := None)" using h4(5) by auto
      then have kn: "k' \<noteq> n" and b: "B k' = Some (l', True)" using blocks_size [OF ok1 k'(1)] by (auto split: if_splits)
      have "j * 1024 \<le> l'"
      proof (cases "j = 0")
        case False
        then obtain k l where kl: "B k = Some (l, True)" "k + l = n" "j * 1024 \<le> l" using g by (auto simp: grown_def)
        then have "k = k'" using blocks_disjoint [OF ok b kl(1), of "n - 1"] k'(2) blocks_size [OF ok b] blocks_size [OF ok kl(1)]
          by (auto simp: extent_def)
        with kl b show ?thesis by simp
      qed simp
      moreover have "B4 k' = Some (l' + 1024, True)" using k'(3) kn by simp
      ultimately show ?thesis using k'(2) unfolding grown_def by (intro disjI2 exI [of _ k'] exI [of _ "l' + 1024"]) simp
    next
      case False
      then have B4: "B4 = ?B" using h4(5) by argo
      have "j = 0"
      proof (rule ccontr)
        assume "j \<noteq> 0"
        then obtain k l where "B k = Some (l, True)" "k + l = n" "j * 1024 \<le> l" "1 \<le> j" using g by (auto simp: grown_def)
        then have "?B k = Some (l, True) \<and> k + l = n \<and> l \<noteq> 3" using fresh by auto
        with False show False by blast
      qed
      then show ?thesis unfolding grown_def B4 by (intro disjI2 exI [of _ n] exI [of _ 1024]) simp
    qed
    have 4096: "(4096 :: u32) = of_nat (4 * 1024)" by simp
    have "allocate_new_heap_page ops h = Some (q, h4)"
    proof -
      have "wa n + 4096 = wa (n + 1024)" using wa_add [of n 1024] by simp
      then show ?thesis using q(1) False mx h2(1) h3(1) h4(1) unfolding allocate_new_heap_page_def 4096
        by (simp add: Let_def)
    qed
    then show ?thesis using False h4(2) kp h4(4) al gr by metis
  qed
qed

section \<open>Taking a block\<close>

lemma heads_without: "heads m B \<Longrightarrow> heads m (B(k := None))"
  by (auto simp: heads_def)

lemma take_whole:
  assumes v: "V h n m (nxt fl 0)" and ok: "blocks_ok B n" and k: "B k = Some (l, True)" and hd: "heads m B"
    and f: "flist m (B(k := None)) (nxt fl 0) fl"
  obtains h1 h' m' where "clear_free ops (wa k) h = Some h1" "update_footer ops (wa k) h1 = Some h'"
    "I h' n m' (B(k \<mapsto> (l, False))) fl" "kept B m m'"
proof -
  note sz = blocks_size [OF ok k]
  have mk: "m k = hdr l True" using hd k by (auto simp: heads_def)
  obtain h1 where h1: "clear_free ops (wa k) h = Some h1" "V h1 n (m(k := hdr l False)) (nxt fl 0)"
    using V_clear_free [OF v _ mk] sz by auto
  define m2 where "m2 = m(k := hdr l False, k + l - 1 := hdr l False)"
  obtain h2 where h2: "update_footer ops (wa k) h1 = Some h2" "V h2 n m2 (nxt fl 0)"
    using V_update_footer [OF h1(2), of k l False] sz unfolding m2_def by auto
  have out: "m2 j = m j" if "j \<notin> extent k l" for j using that link_word [OF ok k] by (auto simp: m2_def)
  note c = carve_shape [OF ok k heads_without [OF hd] f, of m2, OF out]
  have "m2 k = hdr l False" "m2 (k + l - 1) = hdr l False" by (simp_all add: m2_def)
  then have "heads m2 (B(k \<mapsto> (l, False)))" using heads_insert [OF c(1)] by simp
  then have "I h2 n m2 (B(k \<mapsto> (l, False))) fl" using h2(2) blocks_flag [OF ok k] flist_alloc [OF c(2)] by (simp add: I_def)
  moreover have "kept B m m2" using kept_free [OF ok, of m2 m] out k by blast
  ultimately show thesis using that h1(1) h2(1) by blast
qed

lemma of_nat_le: "4 * a < 2 ^ 32 \<Longrightarrow> 4 * b < 2 ^ 32 \<Longrightarrow> (of_nat (4 * a) :: u32) \<le> of_nat (4 * b) \<longleftrightarrow> a \<le> b"
  by (simp only: word_le_nat_alt unat_of_nat32) simp

lemma split_sizes:
  assumes "a + 3 \<le> l" "4 * l < 2 ^ 32"
  shows "\<not> (of_nat (4 * l) :: u32) < of_nat (4 * a) + 12" "(of_nat (4 * l) :: u32) - of_nat (4 * a) = of_nat (4 * (l - a))"
proof -
  have "of_nat (4 * a) + (12 :: u32) = of_nat (4 * (a + 3))" by simp
  moreover have "(of_nat (4 * (a + 3)) :: u32) \<le> of_nat (4 * l)" by (subst of_nat_le) (use assms in simp_all)
  ultimately show "\<not> (of_nat (4 * l) :: u32) < of_nat (4 * a) + 12" by (simp only: not_less)
  have "4 * l = 4 * (l - a) + 4 * a" using assms(1) by simp
  then have "(of_nat (4 * l) :: u32) = of_nat (4 * (l - a)) + of_nat (4 * a)" by (simp only: of_nat_add)
  then show "(of_nat (4 * l) :: u32) - of_nat (4 * a) = of_nat (4 * (l - a))" by (simp only: add_diff_cancel_right')
qed

lemma take_split:
  assumes v: "V h n m (nxt fl 0)" and ok: "blocks_ok B n" and k: "B k = Some (l, True)" and hd: "heads m B"
    and f: "flist m (B(k := None)) (nxt fl 0) fl" and a: "3 \<le> a" "a + 3 \<le> l"
  obtains h1 h' m' fl' where "clear_free ops (wa k) h = Some h1" "split_block ops (wa k) (of_nat (4 * a)) h1 = Some (wa (k + a), h')"
    "I h' n m' (B(k \<mapsto> (a, False), k + a \<mapsto> (l - a, True))) fl'" "kept B m m'"
proof -
  note sz = blocks_size [OF ok k]
  have n: "n \<le> heap_words" using V_bound [OF v] .
  have mk: "m k = hdr l True" using hd k by (auto simp: heads_def)
  obtain h1 where h1: "clear_free ops (wa k) h = Some h1" "V h1 n (m(k := hdr l False)) (nxt fl 0)"
    using V_clear_free [OF v _ mk] sz by auto
  have g1: "get_size ops (wa k) h1 = Some (of_nat (4 * l))" using sz by (intro V_get_size [OF h1(2), of k l False]) auto
  have "hdr l False AND 1 OR of_nat (4 * a) = hdr a False" by (rule hdr_simps(4))
  then obtain h2 where h2: "set_size ops (wa k) (of_nat (4 * a)) h1 = Some h2" "V h2 n (m(k := hdr a False)) (nxt fl 0)"
    using V_set_size [OF h1(2), of k a] sz by auto
  obtain h3 where h3: "update_footer ops (wa k) h2 = Some h3" "V h3 n (m(k := hdr a False, k + a - 1 := hdr a False)) (nxt fl 0)"
    using V_update_footer [OF h2(2), of k a False] sz a by auto
  have rest: "3 \<le> l - a" "k + a + (l - a) \<le> n" using sz a by simp_all
  define m4 where "m4 = m(k := hdr a False, k + a - 1 := hdr a False, k + a := hdr (l - a) True,
    k + a + (l - a) - 1 := hdr (l - a) True, k + a + 2 := 0, k + a + 1 := 0)"
  obtain h4 where h4: "create_free_block ops (wa (k + a)) (of_nat (4 * (l - a))) h3 = Some (wa (k + a), h4)" "V h4 n m4 (nxt fl 0)"
    using V_create [OF h3(2) rest] unfolding m4_def .
  have out: "m4 j = m j" if "j \<notin> extent k l" for j using that a by (auto simp: m4_def extent_def)
  note c = carve_shape [OF ok k heads_without [OF hd] f, of m4, OF out]
  let ?B1 = "B(k \<mapsto> (a, False))" and ?B = "B(k \<mapsto> (a, False), k + a \<mapsto> (l - a, True))"
  have none: "B (k + a) = None"
  proof (rule ccontr)
    assume "B (k + a) \<noteq> None"
    then have "k + l \<le> k + a" using a by (intro blocks_order [OF ok k]) auto
    with a show False by simp
  qed
  have B1: "?B(k + a := None) = ?B1" "?B1(k + a := None) = ?B1" using none a by auto
  have m4v: "m4 k = hdr a False" "m4 (k + a - 1) = hdr a False" "m4 (k + a) = hdr (l - a) True"
    "l - a = 3 \<or> m4 (k + a + (l - a) - 1) = hdr (l - a) True" using a by (auto simp: m4_def)
  have "heads m4 ?B1" using heads_insert [OF c(1)] m4v(1, 2) by simp
  then have hd4: "heads m4 ?B" using heads_insert [of m4 ?B1 "k + a" "l - a" True] m4v(3, 4) unfolding B1(2) by auto
  have ok4: "blocks_ok ?B n" using blocks_split [OF ok k a] .
  have f4: "flist m4 (?B(k + a := None)) (nxt fl 0) fl" unfolding B1(1) using flist_alloc [OF c(2)] .
  have Bka: "?B (k + a) = Some (l - a, True)" by simp
  obtain h5 where h5: "add_free_block ops (wa (k + a)) h4 = Some h5" "I h5 n (linked m4 fl (k + a)) ?B ((k + a) # fl)" "kept ?B m4 (linked m4 fl (k + a))"
    using add_ok [OF h4(2) ok4 Bka hd4 f4] .
  have "4 * l < 2 ^ 32" using sz n by simp
  note ss = split_sizes [OF a(2) this]
  have "split_block ops (wa k) (of_nat (4 * a)) h1 = Some (wa (k + a), h5)"
    by (simp only: split_block_def g1 Option.bind_lunit ss if_False Let_def wa_add h2(1) h3(1) h4(1) h5(1) case_prod_conv)
  moreover have "kept B m m4" using kept_free [OF ok, of m4 m] out k by blast
  then have "kept B m (linked m4 fl (k + a))"
  proof (rule kept_trans [OF _ h5(3)])
    show "allocs B \<subseteq>\<^sub>m allocs ?B" using k none by (auto simp: map_le_def allocs_def)
  qed
  ultimately show thesis using that h1(1) h5(2) by blast
qed

section \<open>The search\<close>

definition outcome :: "nat \<Rightarrow> nat \<Rightarrow> blocks \<Rightarrow> (nat \<Rightarrow> u32) \<Rightarrow> u32 \<Rightarrow> 's heap \<Rightarrow> bool" where
  "outcome L a B m p h' \<longleftrightarrow> (\<exists>n' m' B' fl'. I h' n' m' B' fl' \<and> kept B m m' \<and>
     (p = 0 \<and> allocs B' = allocs B \<and> 1024 * pages < L \<or>
      (\<exists>k l. k < heap_words \<and> p = wa k + 4 \<and> a \<le> l \<and> allocs B k = None \<and> allocs B' = (allocs B)(k \<mapsto> l))))"

lemma outcome_mono: "kept B m m1 \<Longrightarrow> allocs B1 = allocs B \<Longrightarrow> outcome L a B1 m1 p h' \<Longrightarrow> outcome L a B m p h'"
  unfolding outcome_def using kept_trans [of B m m1 B1] by (metis map_le_refl)

lemma take_ok:
  assumes i: "I h n m B fl" and k: "B k = Some (l, True)" and a: "3 \<le> a" "a \<le> l"
  obtains h1 h2 h' where "remove_free_block ops (wa k) h = Some h1" "clear_free ops (wa k) h1 = Some h2"
    "(if of_nat (4 * a) + 12 \<le> (of_nat (4 * l) :: u32) then do { (_, h) \<leftarrow> split_block ops (wa k) (of_nat (4 * a)) h2; Some h }
      else update_footer ops (wa k) h2) = Some h'" "outcome L a B m (wa k + 4) h'"
proof -
  have ok: "blocks_ok B n" and v: "V h n m (nxt fl 0)" using i by (auto simp: I_def)
  have bnd: "l \<le> heap_words" "k < heap_words" using blocks_size [OF ok k] V_bound [OF v] by auto
  obtain h1 m1 fl1 where h1: "remove_free_block ops (wa k) h = Some h1" "V h1 n m1 (nxt fl1 0)" "heads m1 B" "kept B m m1"
    "flist m1 (B(k := None)) (nxt fl1 0) fl1" using remove_ok [OF i k] .
  have out: "outcome L a B m (wa k + 4) h'" if "I h' n m' B' fl'" "kept B m1 m'" "allocs B' = (allocs B)(k \<mapsto> l')" "a \<le> l'" for h' m' B' fl' l'
    unfolding outcome_def using that kept_trans [OF h1(4) that(2) map_le_refl] bnd(2) allocs_eq [of B k] k
    by (metis option.inject prod.inject not_None_eq)
  have "of_nat (4 * a) + (12 :: u32) = of_nat (4 * (a + 3))" by simp
  then have cond: "of_nat (4 * a) + 12 \<le> (of_nat (4 * l) :: u32) \<longleftrightarrow> a + 3 \<le> l"
    using of_nat_le [of "a + 3" l] a bnd(1) by (simp del: of_nat_mult)
  show thesis
  proof (cases "a + 3 \<le> l")
    case True
    obtain h2 h3 m3 fl3 where h3: "clear_free ops (wa k) h1 = Some h2" "split_block ops (wa k) (of_nat (4 * a)) h2 = Some (wa (k + a), h3)"
      "I h3 n m3 (B(k \<mapsto> (a, False), k + a \<mapsto> (l - a, True))) fl3" "kept B m1 m3"
      using take_split [OF h1(2) ok k h1(3, 5) a(1) True] .
    have "B (k + a) = None \<or> (\<exists>i. B (k + a) = Some (i, True))"
      using blocks_order [OF ok k, of "k + a"] a True by (cases "B (k + a)") auto
    then have "allocs (B(k \<mapsto> (a, False), k + a \<mapsto> (l - a, True))) = (allocs B)(k \<mapsto> a)"
      using a by (auto simp: allocs_def fun_eq_iff)
    then show thesis using that h1(1) h3(1, 2) cond True out [OF h3(3, 4)] by auto
  next
    case False
    obtain h2 h3 m3 where h3: "clear_free ops (wa k) h1 = Some h2" "update_footer ops (wa k) h2 = Some h3"
      "I h3 n m3 (B(k \<mapsto> (l, False))) fl1" "kept B m1 m3" using take_whole [OF h1(2) ok k h1(3, 5)] .
    have "allocs (B(k \<mapsto> (l, False))) = (allocs B)(k \<mapsto> l)" by (simp add: allocs_upd)
    then show thesis using that h1(1) h3(1, 2) cond False out [OF h3(3, 4)] a by auto
  qed
qed

lemma search_ok:
  assumes i: "I h n m B fl" and a: "3 \<le> a" "4 * a < 2 ^ 32"
  shows "dseg m q zs 0 \<Longrightarrow> set zs \<subseteq> set fl \<Longrightarrow>
    (\<exists>p h'. kmalloc_search ops (of_nat (4 * a)) (nxt zs 0) h = Some (Some p, h') \<and> p \<noteq> 0 \<and> outcome L a B m p h') \<or>
    kmalloc_search ops (of_nat (4 * a)) (nxt zs 0) h = Some (None, h) \<and> (\<forall>k \<in> set zs. \<forall>l f. B k = Some (l, f) \<longrightarrow> l < a)"
proof (induction zs arbitrary: q)
  case Nil
  show ?case by (simp add: nxt_def kmalloc_search.simps)
next
  case (Cons k zs)
  have v: "V h n m (nxt fl 0)" and ok: "blocks_ok B n" and hd: "heads m B" using i by (auto simp: I_def)
  obtain l where k: "B k = Some (l, True)" using Cons.prems(2) I_free [OF i] by auto
  note sz = blocks_size [OF ok k]
  have bnd: "k < n" "l \<le> heap_words" "k < heap_words" using sz V_bound [OF v] by auto
  have mk: "m k = hdr l True" using hd k by (auto simp: heads_def)
  have nz: "wa k \<noteq> 0" "nxt (k # zs) 0 = wa k" using wa_nonzero [of k] bnd by (simp_all add: nxt_def)
  have gs: "get_size ops (wa k) h = Some (of_nat (4 * l))" using V_get_size [OF v bnd(1) mk] .
  have cmp: "(of_nat (4 * a) :: u32) \<le> of_nat (4 * l) \<longleftrightarrow> a \<le> l" using of_nat_le [OF a(2)] bnd(2) by simp
  show ?case
  proof (cases "a \<le> l")
    case True
    obtain h1 h2 h' where t: "remove_free_block ops (wa k) h = Some h1" "clear_free ops (wa k) h1 = Some h2"
      "(if of_nat (4 * a) + 12 \<le> (of_nat (4 * l) :: u32) then do { (_, h) \<leftarrow> split_block ops (wa k) (of_nat (4 * a)) h2; Some h }
        else update_footer ops (wa k) h2) = Some h'" "outcome L a B m (wa k + 4) h'" using take_ok [OF i k a(1) True] .
    have "kmalloc_search ops (of_nat (4 * a)) (wa k) h = Some (Some (wa k + 4), h')"
      by (subst kmalloc_search.simps)
        (simp only: nz(1) if_False gs Option.bind_lunit cmp True if_True t(1, 2, 3) case_prod_conv)
    moreover have "wa k + 4 \<noteq> 0" using wa_fields(1) [of k] wa_nonzero [of "k + 1"] bnd(3) by simp
    ultimately show ?thesis using t(4) unfolding nz(2) by blast
  next
    case False
    have d: "m (k + 1) = nxt zs 0" "dseg m (wa k) zs 0" using Cons.prems(1) by auto
    have "hload ops (wa (k + 1)) h = Some (nxt zs 0)" using V_load [OF v, of "k + 1"] d(1) sz by simp
    then have step: "kmalloc_search ops (of_nat (4 * a)) (wa k) h = kmalloc_search ops (of_nat (4 * a)) (nxt zs 0) h"
      by (subst kmalloc_search.simps) (simp only: nz(1) if_False gs Option.bind_lunit cmp False wa_fields(1))
    show ?thesis unfolding nz(2) step using Cons.IH [OF d(2)] Cons.prems(2) k False by auto
  qed
qed

section \<open>kmalloc\<close>

lemma search_head:
  assumes i: "I h n m B fl" and a: "3 \<le> a" "4 * a < 2 ^ 32"
  shows "(\<exists>p h'. kmalloc_search ops (of_nat (4 * a)) (free_list_head h) h = Some (Some p, h') \<and> p \<noteq> 0 \<and> outcome L a B m p h') \<or>
    kmalloc_search ops (of_nat (4 * a)) (free_list_head h) h = Some (None, h) \<and> (\<forall>k l. B k = Some (l, True) \<longrightarrow> l < a)"
proof -
  have "free_list_head h = nxt fl 0" "dseg m 0 fl 0" "set fl \<subseteq> set fl" using i by (auto simp: I_def view_def flist_def)
  then show ?thesis using search_ok [OF i a, of 0 fl] I_free [OF i] by auto
qed

text \<open>The loop of \<open>kmalloc\<close> after the first test: \<open>d\<close> bounds the pages it may still have to map.\<close>

lemma kmalloc_tail:
  assumes L: "L \<le> heap_words" and i: "I h n m B fl" and a: "3 \<le> a" "4 * a < 2 ^ 32"
    and j: "grown B n j" "a \<le> (j + d) * 1024" "n + d * 1024 \<le> L"
    and IH: "\<forall>h n m B fl j d'. d' < d \<and> I h n m B fl \<and> grown B n j \<and> a \<le> (j + d') * 1024 \<and> n + d' * 1024 \<le> L \<longrightarrow>
      (\<exists>p h'. kmalloc ops (of_nat (4 * a) - 8) h = Some (p, h') \<and> outcome L a B m p h')"
  shows "\<exists>p h'. do {
       (found, h) \<leftarrow> kmalloc_search ops (of_nat (4 * a)) (free_list_head h) h;
       case found of
         Some p \<Rightarrow> Some (p, h)
       | None \<Rightarrow> do {
           (page, h) \<leftarrow> allocate_new_heap_page ops h;
           if page = 0 then Some (0, h) else kmalloc ops (of_nat (4 * a) - HEADER_SIZE * 2) h } } = Some (p, h') \<and> outcome L a B m p h'"
  using search_head [OF i a, where L = L]
proof (elim disjE exE conjE)
  assume none: "kmalloc_search ops (of_nat (4 * a)) (free_list_head h) h = Some (None, h)" "\<forall>k l. B k = Some (l, True) \<longrightarrow> l < a"
  have d: "0 < d"
  proof (rule ccontr)
    assume "\<not> 0 < d"
    then have "a \<le> j * 1024" "j \<noteq> 0" using j(2) a(1) by (auto intro: Nat.gr0I)
    then show False using j(1) none(2) unfolding grown_def by (metis le_trans not_le)
  qed
  have n: "n < heap_words" and nL: "n < L" using j(3) d L by simp_all
  obtain p h1 where p: "allocate_new_heap_page ops h = Some (p, h1)" "p = 0 \<longrightarrow> I h1 n m B fl \<and> n = 1024 * pages"
    "p \<noteq> 0 \<longrightarrow> (\<exists>m' B' fl'. I h1 (n + 1024) m' B' fl' \<and> kept B m m' \<and> allocs B' = allocs B \<and> (\<forall>j. grown B n j \<longrightarrow> grown B' (n + 1024) (j + 1)))"
    using page_ok [OF i n] by blast
  show ?thesis
  proof (cases "p = 0")
    case True
    have "outcome L a B m 0 h1" unfolding outcome_def using mp [OF p(2) True] nL kept_refl by blast
    then show ?thesis using none(1) p(1) True by simp
  next
    case False
    then obtain m1 B1 fl1 where i1: "I h1 (n + 1024) m1 B1 fl1" "kept B m m1" "allocs B1 = allocs B" "grown B1 (n + 1024) (j + 1)"
      using p(3) j(1) by blast
    have "a \<le> (j + 1 + (d - 1)) * 1024" "n + 1024 + (d - 1) * 1024 \<le> L" "d - 1 < d" using j(2, 3) d
      by (simp_all add: Suc_le_eq diff_mult_distrib)
    then obtain q h' where "kmalloc ops (of_nat (4 * a) - 8) h1 = Some (q, h')" "outcome L a B1 m1 q h'"
      using IH i1(1, 4) by blast
    then show ?thesis using none(1) p(1) False outcome_mono [OF i1(2, 3)] by (simp del: of_nat_mult)
  qed
qed auto

lemma kmalloc_loop:
  assumes L: "L \<le> heap_words" and a: "3 \<le> a" "4 * a < 2 ^ 32" and next_size: "block_size (of_nat (4 * a) - 8) = of_nat (4 * a)"
  shows "block_size sz = of_nat (4 * a) \<Longrightarrow> I h n m B fl \<Longrightarrow> grown B n j \<Longrightarrow> a \<le> (j + d) * 1024 \<Longrightarrow> n + d * 1024 \<le> L \<Longrightarrow>
    \<exists>p h'. kmalloc ops sz h = Some (p, h') \<and> outcome L a B m p h'"
proof (induction d arbitrary: sz h n m B fl j rule: less_induct)
  case (less d)
  note i = less.prems(2)
  have IH: "\<forall>h n m B fl j d'. d' < d \<and> I h n m B fl \<and> grown B n j \<and> a \<le> (j + d') * 1024 \<and> n + d' * 1024 \<le> L \<longrightarrow>
      (\<exists>p h'. kmalloc ops (of_nat (4 * a) - 8) h = Some (p, h') \<and> outcome L a B m p h')"
    using less.IH [OF _ next_size] by blast
  have hd: "free_list_head h = nxt fl 0" using i by (simp add: I_def view_def)
  show ?case
  proof (cases "fl = []")
    case False
    then have "hd fl \<le> heap_words"
    proof -
      obtain l where "B (hd fl) = Some (l, True)" using False I_free [OF i] hd_in_set by blast
      then show ?thesis using link_word [of B n "hd fl" l True] i V_bound [of h n m "nxt fl 0"] by (auto simp: I_def)
    qed
    then have "free_list_head h \<noteq> 0" using hd False wa_nonzero by (simp add: nxt_def)
    then show ?thesis
      using kmalloc_tail [OF L i a less.prems(3-5) IH] less.prems(1) by (subst kmalloc.simps) (simp add: Let_def del: of_nat_mult)
  next
    case True
    then have none: "\<not> (\<exists>k l. B k = Some (l, True))" using I_free [OF i] by auto
    then have j: "j = 0" using less.prems(3) by (auto simp: grown_def)
    then have d: "0 < d" using less.prems(4) a(1) by (auto intro: Nat.gr0I)
    then have n: "n < heap_words" and nL: "n < L" using less.prems(5) L by simp_all
    obtain p h1 where p: "allocate_new_heap_page ops h = Some (p, h1)" "p = 0 \<longrightarrow> I h1 n m B fl \<and> n = 1024 * pages"
      "p \<noteq> 0 \<longrightarrow> (\<exists>m' B' fl'. I h1 (n + 1024) m' B' fl' \<and> kept B m m' \<and> allocs B' = allocs B \<and> (\<forall>j. grown B n j \<longrightarrow> grown B' (n + 1024) (j + 1)))"
      using page_ok [OF i n] by blast
    have h0: "free_list_head h = 0" using hd True by (simp add: nxt_def)
    show ?thesis
    proof (cases "p = 0")
      case True
      have "outcome L a B m 0 h1" unfolding outcome_def using mp [OF p(2) True] nL kept_refl by blast
      then show ?thesis using p(1) True h0 by (subst kmalloc.simps) (simp add: Let_def)
    next
      case False
      then obtain m1 B1 fl1 where i1: "I h1 (n + 1024) m1 B1 fl1" "kept B m m1" "allocs B1 = allocs B" "grown B1 (n + 1024) (j + 1)"
        using p(3) less.prems(3) by blast
      have le: "a \<le> (j + 1 + (d - 1)) * 1024" "n + 1024 + (d - 1) * 1024 \<le> L" using less.prems(4, 5) d
        by (simp_all add: Suc_le_eq diff_mult_distrib)
      have "d' < d - 1 \<Longrightarrow> d' < d" for d' by simp
      then have IH': "\<forall>h n m B fl j d'. d' < d - 1 \<and> I h n m B fl \<and> grown B n j \<and> a \<le> (j + d') * 1024 \<and> n + d' * 1024 \<le> L \<longrightarrow>
          (\<exists>p h'. kmalloc ops (of_nat (4 * a) - 8) h = Some (p, h') \<and> outcome L a B m p h')" using IH by blast
      from kmalloc_tail [OF L i1(1) a i1(4) le IH'] obtain q h' where q: "do {
          (found, h) \<leftarrow> kmalloc_search ops (of_nat (4 * a)) (free_list_head h1) h1;
          case found of
            Some p \<Rightarrow> Some (p, h)
          | None \<Rightarrow> do {
              (page, h) \<leftarrow> allocate_new_heap_page ops h;
              if page = 0 then Some (0, h) else kmalloc ops (of_nat (4 * a) - HEADER_SIZE * 2) h } } = Some (q, h')" "outcome L a B1 m1 q h'"
        by blast
      have "kmalloc ops sz h = Some (q, h')"
        by (subst kmalloc.simps) (simp only: Let_def less.prems(1) h0 p(1) False q(1) Option.bind_lunit case_prod_conv if_True if_False simp_thms)
      then show ?thesis using outcome_mono [OF i1(2, 3) q(2)] by blast
    qed
  qed
qed

section \<open>kfree\<close>

lemma next_never: "(of_nat (2 ^ 32) :: u32) = 0"
  by simp

lemma kfree_ok:
  assumes i: "I h n m B fl" and k: "B k = Some (l, False)"
  shows "\<exists>h' m' B' fl'. kfree ops (wa k + 4) h = Some h' \<and> I h' n m' B' fl' \<and> allocs B' = (allocs B)(k := None) \<and> kept (B(k := None)) m m'"
proof -
  have v: "V h n m (nxt fl 0)" and ok: "blocks_ok B n" and hd: "heads m B" and f: "flist m B (nxt fl 0) fl" using i by (auto simp: I_def)
  note sz = blocks_size [OF ok k]
  have bnd: "k < n" "k + l \<le> n" "0 < l" "n \<le> heap_words" using sz V_bound [OF v] by auto
  have mk: "m k = hdr l False" using hd k by (auto simp: heads_def)
  obtain h1 where h1: "set_free ops (wa k) h = Some h1" "V h1 n (m(k := hdr l True)) (nxt fl 0)"
    using V_set_free [OF v bnd(1)] mk hdr_simps(3) [of l False] by auto
  define m2 where "m2 = m(k := hdr l True, k + l - 1 := hdr l True)"
  obtain h2 where h2: "update_footer ops (wa k) h1 = Some h2" "V h2 n m2 (nxt fl 0)"
    using V_update_footer [OF h1(2), of k l True] bnd unfolding m2_def by auto
  let ?B = "B(k \<mapsto> (l, True))"
  have out: "m2 j = m j" if "j \<notin> extent k l" for j using that link_word [OF ok k] by (auto simp: m2_def)
  have "flist m (B(k := None)) (nxt fl 0) fl" using f k unfolding flist_def by auto
  note c = carve_shape [OF ok k heads_without [OF hd] this, of m2, OF out]
  have "m2 k = hdr l True" "m2 (k + l - 1) = hdr l True" by (simp_all add: m2_def)
  then have hd2: "heads m2 ?B" using heads_insert [OF c(1)] by simp
  have ok2: "blocks_ok ?B n" using blocks_flag [OF ok k] .
  have Bk: "?B k = Some (l, True)" "?B(k := None) = B(k := None)" by simp_all
  obtain h3 where h3: "add_free_block ops (wa k) h2 = Some h3" "I h3 n (linked m2 fl k) ?B (k # fl)" "kept ?B m2 (linked m2 fl k)"
    using add_ok [OF h2(2) ok2 Bk(1) hd2] c(2) unfolding Bk(2) .
  obtain h4 m4 B4 fl4 where h4: "coalesce_with_prev ops (wa k) h3 = Some h4" "I h4 n m4 B4 fl4" "kept ?B (linked m2 fl k) m4" "allocs B4 = allocs ?B"
    using coalesce_prev_ok [OF h3(2) Bk(1)] .
  have "V h4 n m4 (nxt fl4 0)" using h4(2) by (simp add: I_def)
  then obtain w where "hload ops (wa k) h4 = Some w" using V_load bnd(1) by blast
  then have "coalesce_with_next ops (wa k) h4 = Some h4"
    unfolding coalesce_with_next_def next_never by (simp add: get_size_def)
  moreover have "wa k + 4 \<noteq> 0" using wa_fields(1) [of k] wa_nonzero [of "k + 1"] bnd by simp
  ultimately have run: "kfree ops (wa k + 4) h = Some h4" using h1(1) h2(1) h3(1) h4(1) by (simp add: kfree_def Let_def)
  have "kept (B(k := None)) m m2"
    unfolding kept_def using out blocks_disjoint [OF ok _ k] by (metis fun_upd_apply option.distinct(1))
  moreover have "kept ?B m2 m4" using kept_trans [OF h3(3) h4(3) map_le_refl] .
  moreover have "allocs (B(k := None)) = allocs ?B" by (simp add: allocs_upd)
  ultimately have "kept (B(k := None)) m m4" using kept_trans [of "B(k := None)" m m2 ?B m4] by simp
  moreover have "allocs B4 = (allocs B)(k := None)" using h4(4) by (simp add: allocs_upd)
  ultimately show ?thesis using run h4(2) by blast
qed

section \<open>The contract\<close>

lemma kmalloc_contract:
  assumes inv: "heap_inv ops ok here room pages h n B" and sz: "4 * n + unat sz + 4108 \<le> 16777216"
  shows "\<exists>p h' n' B'. kmalloc ops sz h = Some (p, h') \<and> heap_inv ops ok here room pages h' n' B' \<and>
    kept B (words ops h n) (words ops h' n') \<and>
    (p = 0 \<and> allocs B' = allocs B \<and> 4096 * pages < 4 * n + unat sz + 4108 \<or>
     (\<exists>k l. k < heap_words \<and> p = wa k + 4 \<and> unat sz + 8 \<le> 4 * l \<and> allocs B k = None \<and> allocs B' = (allocs B)(k \<mapsto> l)))"
proof -
  obtain fl where i: "I h n (words ops h n) B fl" using inv I_inv by blast
  obtain a where a: "block_size sz = of_nat (4 * a)" "3 \<le> a" "unat sz + 8 \<le> 4 * a" "4 * a \<le> unat sz + 12"
    using block_size_words [of sz] sz by auto
  define d where "d = (a + 1023) div 1024"
  define L where "L = n + d * 1024"
  have d: "a \<le> (0 + d) * 1024" "d * 1024 \<le> a + 1023" 
    using div_times_less_eq_dividend [of "a + 1023" 1024] dividend_less_div_times [of 1024 "a + 1023"] by (simp_all add: d_def)
  have "4 * (d * 1024) \<le> 4 * a + 4092" using d(2) by simp
  then have "4 * (d * 1024) \<le> unat sz + 4104" using a(4) by simp
  then have L: "4 * L \<le> 4 * n + unat sz + 4104" "L \<le> heap_words" using sz by (simp_all add: L_def)
  have lt: "4 * a < 2 ^ 32" "4 * a + 11 < 2 ^ 32" using a(4) sz by simp_all
  have "n + d * 1024 \<le> L" by (simp add: L_def)
  then obtain p h' where p: "kmalloc ops sz h = Some (p, h')" "outcome L a B (words ops h n) p h'"
    using kmalloc_loop [OF L(2) a(2) lt(1) block_size_again [OF a(2) lt(2)] a(1) i _ d(1)] unfolding grown_def by blast
  from p(2) obtain n' m' B' fl' where o: "I h' n' m' B' fl'" "kept B (words ops h n) m'"
    "p = 0 \<and> allocs B' = allocs B \<and> 1024 * pages < L \<or>
     (\<exists>k l. k < heap_words \<and> p = wa k + 4 \<and> a \<le> l \<and> allocs B k = None \<and> allocs B' = (allocs B)(k \<mapsto> l))"
    unfolding outcome_def by blast
  have "1024 * pages < L \<Longrightarrow> 4096 * pages < 4 * n + unat sz + 4108" using L(1) by simp
  moreover have "a \<le> l \<Longrightarrow> unat sz + 8 \<le> 4 * l" for l using a(3) by linarith
  ultimately show ?thesis using p(1) I_words [OF o(1)] o(2, 3) by blast
qed

lemma kfree_contract:
  assumes inv: "heap_inv ops ok here room pages h n B" and k: "allocs B k = Some l"
  shows "\<exists>h' B'. kfree ops (wa k + 4) h = Some h' \<and> heap_inv ops ok here room pages h' n B' \<and>
    allocs B' = (allocs B)(k := None) \<and> kept (B(k := None)) (words ops h n) (words ops h' n)"
proof -
  obtain fl where i: "I h n (words ops h n) B fl" using inv I_inv by blast
  have "B k = Some (l, False)" using k allocs_eq by blast
  from kfree_ok [OF i this] show ?thesis using I_words by metis
qed

end

end
