(* ===== verification/Vmm.thy ===== *)
theory Vmm
  imports Pmm Stdio Cstring
begin

text \<open>
  Virtual memory: \<open>kernel/memory/vmm.c\<close>.  The state holds the physical memory byte by byte, the register CR3 and the
  physical page allocator.  The processor translates an address by walking the page directory at CR3 and a page
  table in physical memory; an access to an address that is not present is a page fault, which the kernel does not
  handle, and gives \<open>None\<close>, as does an access to a misaligned word.  The code reaches the page tables through the
  recursive entry 1023 of the directory, that is, through the same translation.  There is no translation cache in
  the model, so \<open>invlpg\<close> and reloading CR3 have no effect of their own.
\<close>

section \<open>The machine\<close>

record kern =
  phys :: memory
  cr3 :: u32
  pmm_state :: pmm
  fl_head :: u32
  fl_tail :: u32
  fl_count :: u32
  last_free :: u32
  kcon :: console

abbreviation (input) PAGE_PRESENT :: u32 where "PAGE_PRESENT \<equiv> 0x001"
abbreviation (input) PAGE_RW :: u32 where "PAGE_RW \<equiv> 0x002"
abbreviation (input) PAGE_USER :: u32 where "PAGE_USER \<equiv> 0x004"
abbreviation (input) PAGE_GLOBAL :: u32 where "PAGE_GLOBAL \<equiv> 0x100"
abbreviation (input) PD_WINDOW :: u32 where "PD_WINDOW \<equiv> 0xFFFFF000"
abbreviation (input) PTS_WINDOW :: u32 where "PTS_WINDOW \<equiv> 0xFFC00000"
abbreviation (input) PTS_SCRATCH_WINDOW :: u32 where "PTS_SCRATCH_WINDOW \<equiv> 0xFF800000"
abbreviation (input) PD_SCRATCH_WINDOW :: u32 where "PD_SCRATCH_WINDOW \<equiv> 0xFFFFE000"
abbreviation (input) VMM_FREE_LIST_MAX_SIZE :: u32 where "VMM_FREE_LIST_MAX_SIZE \<equiv> 128"
abbreviation (input) KERNEL_HALF :: u32 where "KERNEL_HALF \<equiv> 0xC0000000"

abbreviation frame_of :: "u32 \<Rightarrow> u32" where "frame_of e \<equiv> e AND 0xFFFFF000"
abbreviation present :: "u32 \<Rightarrow> bool" where "present e \<equiv> e AND 1 \<noteq> 0"

text \<open>A word in memory, low byte first.\<close>

definition st32 :: "memory \<Rightarrow> u32 \<Rightarrow> u32 \<Rightarrow> memory" where
  "st32 m a w = m(a := ucast w, a + 1 := ucast (drop_bit 8 w), a + 2 := ucast (drop_bit 16 w), a + 3 := ucast (drop_bit 24 w))"

text \<open>The walk of the processor: the entries of the directory and of the table, and the physical address.\<close>

definition pde_at :: "memory \<Rightarrow> u32 \<Rightarrow> u32 \<Rightarrow> u32" where
  "pde_at m pd va = ld32 m (frame_of pd + 4 * drop_bit 22 va)"

definition pte_at :: "memory \<Rightarrow> u32 \<Rightarrow> u32 \<Rightarrow> u32" where
  "pte_at m pd va = ld32 m (frame_of (pde_at m pd va) + 4 * (drop_bit 12 va AND 0x3FF))"

definition translate :: "memory \<Rightarrow> u32 \<Rightarrow> u32 \<Rightarrow> u32 option" where
  "translate m pd va =
     (if \<not> present (pde_at m pd va) then None
      else if \<not> present (pte_at m pd va) then None
      else Some (frame_of (pte_at m pd va) + (va AND 0xFFF)))"

definition vload32 :: "u32 \<Rightarrow> 'a kern_scheme \<Rightarrow> u32 option" where
  "vload32 va s = do {
     pa \<leftarrow> (if va AND 3 = 0 then translate (phys s) (cr3 s) va else None);
     Some (ld32 (phys s) pa) }"

definition vstore32 :: "u32 \<Rightarrow> u32 \<Rightarrow> 'a kern_scheme \<Rightarrow> 'a kern_scheme option" where
  "vstore32 va w s = do {
     pa \<leftarrow> (if va AND 3 = 0 then translate (phys s) (cr3 s) va else None);
     Some (s\<lparr>phys := st32 (phys s) pa w\<rparr>) }"

definition vstore8 :: "u32 \<Rightarrow> u8 \<Rightarrow> 'a kern_scheme \<Rightarrow> 'a kern_scheme option" where
  "vstore8 va b s = do {
     pa \<leftarrow> translate (phys s) (cr3 s) va;
     Some (s\<lparr>phys := (phys s)(pa := b)\<rparr>) }"

definition vload8 :: "u32 \<Rightarrow> 'a kern_scheme \<Rightarrow> u8 option" where
  "vload8 va s = do {
     pa \<leftarrow> translate (phys s) (cr3 s) va;
     Some (phys s pa) }"

text \<open>\<open>memset\<close> and \<open>memcpy\<close> through the translation, byte by byte in ascending order.\<close>

primrec vfill :: "nat list \<Rightarrow> u32 \<Rightarrow> u8 \<Rightarrow> 'a kern_scheme \<Rightarrow> 'a kern_scheme option" where
  "vfill [] va b s = Some s"
| "vfill (i # is) va b s = do { s \<leftarrow> vstore8 (va + of_nat i) b s; vfill is va b s }"

definition vmemset :: "u32 \<Rightarrow> u8 \<Rightarrow> u32 \<Rightarrow> 'a kern_scheme \<Rightarrow> 'a kern_scheme option" where
  "vmemset va b n s = vfill [0..<unat n] va b s"

primrec vcopy :: "nat list \<Rightarrow> u32 \<Rightarrow> u32 \<Rightarrow> 'a kern_scheme \<Rightarrow> 'a kern_scheme option" where
  "vcopy [] dst src s = Some s"
| "vcopy (i # is) dst src s = do {
     b \<leftarrow> vload8 (src + of_nat i) s;
     s \<leftarrow> vstore8 (dst + of_nat i) b s;
     vcopy is dst src s }"

definition vmemcpy :: "u32 \<Rightarrow> u32 \<Rightarrow> u32 \<Rightarrow> 'a kern_scheme \<Rightarrow> 'a kern_scheme option" where
  "vmemcpy dst src n s = vcopy [0..<unat n] dst src s"

definition kprintf :: "string \<Rightarrow> va list \<Rightarrow> 'a kern_scheme \<Rightarrow> 'a kern_scheme option" where
  "kprintf format args s = do {
     (_, con) \<leftarrow> printf format args (kcon s);
     Some (s\<lparr>kcon := con\<rparr>) }"

definition kalloc_phys :: "'a kern_scheme \<Rightarrow> (u32 \<times> 'a kern_scheme) option" where
  "kalloc_phys s = do {
     (a, p) \<leftarrow> pmm_alloc_page (pmm_state s);
     Some (a, s\<lparr>pmm_state := p\<rparr>) }"

definition kfree_phys :: "u32 \<Rightarrow> 'a kern_scheme \<Rightarrow> 'a kern_scheme option" where
  "kfree_phys a s = do {
     p \<leftarrow> pmm_free_page a (pmm_state s);
     Some (s\<lparr>pmm_state := p\<rparr>) }"

section \<open>Low-level helpers\<close>

definition vmm_read_cr3 :: "'a kern_scheme \<Rightarrow> u32" where
  "vmm_read_cr3 s = cr3 s"

definition vmm_write_cr3 :: "u32 \<Rightarrow> 'a kern_scheme \<Rightarrow> 'a kern_scheme" where
  "vmm_write_cr3 phys_addr s = s\<lparr>cr3 := phys_addr\<rparr>"

definition vmm_flush_cr3 :: "'a kern_scheme \<Rightarrow> 'a kern_scheme" where
  "vmm_flush_cr3 s = vmm_write_cr3 (vmm_read_cr3 s) s"

text \<open>The list of free kernel pages is kept in the pages themselves: \<open>next\<close> at offset 0, \<open>prev\<close> at offset 4.\<close>

definition free_list_add :: "u32 \<Rightarrow> 'a kern_scheme \<Rightarrow> 'a kern_scheme option" where
  "free_list_add node s = do {
     s \<leftarrow> vstore32 node (fl_head s) s;
     s \<leftarrow> vstore32 (node + 4) 0 s;
     s \<leftarrow> (if fl_head s \<noteq> 0 then vstore32 (fl_head s + 4) node s else Some (s\<lparr>fl_tail := node\<rparr>));
     Some (s\<lparr>fl_head := node, fl_count := fl_count s + 1\<rparr>) }"

definition free_list_pop :: "'a kern_scheme \<Rightarrow> (u32 \<times> 'a kern_scheme) option" where
  "free_list_pop s =
     (if fl_tail s = 0 then Some (0, s)
      else do {
        let node = fl_tail s;
        prev \<leftarrow> vload32 (node + 4) s;
        let s = s\<lparr>fl_tail := prev\<rparr>;
        s \<leftarrow> (if prev \<noteq> 0 then vstore32 prev 0 s else Some (s\<lparr>fl_head := 0\<rparr>));
        s \<leftarrow> vstore32 (node + 4) 0 s;
        s \<leftarrow> vstore32 node 0 s;
        Some (node, s\<lparr>fl_count := fl_count s - 1\<rparr>) })"

definition page_align_up :: "u32 \<Rightarrow> u32" where
  "page_align_up x = (x + 4096 - 1) AND NOT (4096 - 1)"

definition vmm_switch_address_space :: "u32 \<Rightarrow> 'a kern_scheme \<Rightarrow> 'a kern_scheme" where
  "vmm_switch_address_space phys_addr s =
     (if phys_addr = 0 then s else vmm_flush_cr3 (vmm_write_cr3 phys_addr s))"

section \<open>Translation through the recursive mapping\<close>

definition vmm_virt_to_phys :: "u32 \<Rightarrow> 'a kern_scheme \<Rightarrow> u32 option" where
  "vmm_virt_to_phys vaddr s = do {
     pde \<leftarrow> vload32 (PD_WINDOW + 4 * drop_bit 22 vaddr) s;
     if pde AND PAGE_PRESENT = 0 then Some 0
     else do {
       pte \<leftarrow> vload32 (PTS_WINDOW + 4 * drop_bit 12 vaddr) s;
       if pte AND PAGE_PRESENT = 0 then Some 0
       else Some ((pte AND 0xFFFFF000) + (vaddr AND 0xFFF)) } }"

definition vmm_is_mapped :: "u32 \<Rightarrow> 'a kern_scheme \<Rightarrow> bool option" where
  "vmm_is_mapped vaddr s = do {
     pde \<leftarrow> vload32 (0xFFFFF000 + 4 * drop_bit 22 vaddr) s;
     if pde AND PAGE_PRESENT = 0 then Some False
     else do {
       pte \<leftarrow> vload32 (0xFFC00000 + 4 * drop_bit 12 vaddr) s;
       Some (pte AND PAGE_PRESENT \<noteq> 0) } }"

section \<open>Mapping and unmapping\<close>

definition vmm_set_pde_at :: "u32 \<Rightarrow> u32 \<Rightarrow> u32 \<Rightarrow> u32 \<Rightarrow> 'a kern_scheme \<Rightarrow> 'a kern_scheme option" where
  "vmm_set_pde_at window_base vaddr paddr flags s =
     vstore32 (window_base + 4 * drop_bit 22 vaddr) ((paddr AND 0xFFFFF000) OR flags) s"

definition vmm_set_pte_at :: "u32 \<Rightarrow> u32 \<Rightarrow> u32 \<Rightarrow> u32 \<Rightarrow> 'a kern_scheme \<Rightarrow> 'a kern_scheme option" where
  "vmm_set_pte_at window_base vaddr paddr flags s =
     vstore32 (window_base + 4 * drop_bit 12 vaddr) ((paddr AND 0xFFFFF000) OR flags) s"

definition vmm_map_kernel_page :: "u32 \<Rightarrow> u32 \<Rightarrow> 'a kern_scheme \<Rightarrow> 'a kern_scheme option" where
  "vmm_map_kernel_page vaddr phys_addr s =
     vmm_set_pte_at PTS_WINDOW vaddr phys_addr (PAGE_PRESENT OR PAGE_RW OR PAGE_GLOBAL) s"

definition vmm_map_user_page :: "u32 \<Rightarrow> u32 \<Rightarrow> 'a kern_scheme \<Rightarrow> 'a kern_scheme option" where
  "vmm_map_user_page vaddr phys_addr s = do {
     let pd_idx = drop_bit 22 vaddr;
     pde \<leftarrow> vload32 (PD_WINDOW + 4 * pd_idx) s;
     if pde AND PAGE_PRESENT = 0 then do {
       (new_pt_phys, s) \<leftarrow> kalloc_phys s;
       if new_pt_phys = 0 then Some s
       else do {
         s \<leftarrow> vmm_set_pde_at PD_WINDOW vaddr new_pt_phys (PAGE_PRESENT OR PAGE_RW OR PAGE_USER) s;
         s \<leftarrow> vmemset (PTS_WINDOW + pd_idx * 4096) 0 4096 s;
         vmm_set_pte_at PTS_WINDOW vaddr phys_addr (PAGE_PRESENT OR PAGE_RW OR PAGE_USER) s } }
     else vmm_set_pte_at PTS_WINDOW vaddr phys_addr (PAGE_PRESENT OR PAGE_RW OR PAGE_USER) s }"

definition vmm_unmap_page :: "u32 \<Rightarrow> 'a kern_scheme \<Rightarrow> 'a kern_scheme option" where
  "vmm_unmap_page vaddr s = vmm_set_pte_at PTS_WINDOW vaddr 0 0 s"

section \<open>Kernel pages\<close>

definition vmm_alloc_kernel_page_at :: "u32 \<Rightarrow> 'a kern_scheme \<Rightarrow> (bool \<times> 'a kern_scheme) option" where
  "vmm_alloc_kernel_page_at vaddr s = do {
     (p, s) \<leftarrow> kalloc_phys s;
     if p = 0 then do {
       s \<leftarrow> kprintf (''vmm: failed to allocate physical page'' @ [CHR 0x0A]) [] s;
       Some (False, s) }
     else do {
       s \<leftarrow> vmm_map_kernel_page vaddr p s;
       s \<leftarrow> vmemset vaddr 0 4096 s;
       Some (True, s) } }"

text \<open>The comparisons with \<open>MEMORY_SPACE\<close>, 2^32, are never true for a 32-bit address and are left out.\<close>

partial_function (option) alloc_kernel_scan :: "u32 \<Rightarrow> u32 \<Rightarrow> 'a kern_scheme \<Rightarrow> (u32 \<times> 'a kern_scheme) option" where
  "alloc_kernel_scan start i s = do {
     mapped \<leftarrow> vmm_is_mapped i s;
     (done, s) \<leftarrow> (if \<not> mapped then vmm_alloc_kernel_page_at i s else Some (False, s));
     if done then Some (i, s)
     else if i + 4096 \<noteq> start then alloc_kernel_scan start (i + 4096) s
     else do {
       s \<leftarrow> kprintf (''vmm: no free kernel pages [%x-%x]'' @ [CHR 0x0A]) [Va_int KERNEL_HALF, Va_int (- 1)] s;
       Some (0, s) } }"

definition vmm_alloc_kernel_page :: "'a kern_scheme \<Rightarrow> (u32 \<times> 'a kern_scheme) option" where
  "vmm_alloc_kernel_page s =
     (if 0 < fl_count s then free_list_pop s
      else
        let s = (if last_free s < KERNEL_HALF then s\<lparr>last_free := KERNEL_HALF\<rparr> else s);
            start = page_align_up (last_free s)
        in alloc_kernel_scan start start s)"

partial_function (option) free_list_trim :: "'a kern_scheme \<Rightarrow> 'a kern_scheme option" where
  "free_list_trim s =
     (if VMM_FREE_LIST_MAX_SIZE < fl_count s then do {
        (to_free, s) \<leftarrow> free_list_pop s;
        if to_free = 0 then Some s
        else do {
          p \<leftarrow> vmm_virt_to_phys to_free s;
          s \<leftarrow> (if p \<noteq> 0 then do { s \<leftarrow> vmm_unmap_page to_free s; kfree_phys p s } else Some s);
          free_list_trim s } }
      else Some s)"

definition vmm_free_kernel_page :: "u32 \<Rightarrow> 'a kern_scheme \<Rightarrow> 'a kern_scheme option" where
  "vmm_free_kernel_page vaddr s =
     (if vaddr mod 4096 \<noteq> 0 then Some s
      else do {
        s \<leftarrow> free_list_add vaddr s;
        free_list_trim s })"

section \<open>User pages\<close>

definition vmm_alloc_user_page_at :: "u32 \<Rightarrow> 'a kern_scheme \<Rightarrow> (bool \<times> 'a kern_scheme) option" where
  "vmm_alloc_user_page_at vaddr s = do {
     (p, s) \<leftarrow> kalloc_phys s;
     if p = 0 then do {
       s \<leftarrow> kprintf (''vmm: failed to allocate physical page'' @ [CHR 0x0A]) [] s;
       Some (False, s) }
     else do {
       s \<leftarrow> vmm_map_user_page vaddr p s;
       s \<leftarrow> vmemset vaddr 0 4096 s;
       Some (True, s) } }"

definition vmm_free_user_page :: "u32 \<Rightarrow> 'a kern_scheme \<Rightarrow> 'a kern_scheme option" where
  "vmm_free_user_page vaddr s = do {
     p \<leftarrow> vmm_virt_to_phys vaddr s;
     if p \<noteq> 0 then do { s \<leftarrow> vmm_unmap_page vaddr s; kfree_phys p s } else Some s }"

section \<open>Address spaces\<close>

primrec clear_entries :: "nat list \<Rightarrow> 'a kern_scheme \<Rightarrow> 'a kern_scheme option" where
  "clear_entries [] s = Some s"
| "clear_entries (i # is) s = do {
     s \<leftarrow> vstore32 (PD_SCRATCH_WINDOW + 4 * of_nat i) 0 s;
     clear_entries is s }"

primrec copy_entries :: "nat list \<Rightarrow> 'a kern_scheme \<Rightarrow> 'a kern_scheme option" where
  "copy_entries [] s = Some s"
| "copy_entries (i # is) s = do {
     w \<leftarrow> vload32 (PD_WINDOW + 4 * of_nat i) s;
     s \<leftarrow> vstore32 (PD_SCRATCH_WINDOW + 4 * of_nat i) w s;
     copy_entries is s }"

definition vmm_create_address_space :: "'a kern_scheme \<Rightarrow> (u32 \<times> 'a kern_scheme) option" where
  "vmm_create_address_space s = do {
     (new_pd_phys, s) \<leftarrow> kalloc_phys s;
     if new_pd_phys = 0 then Some (0, s)
     else do {
       s \<leftarrow> vstore32 (PD_WINDOW + 4 * 1022) (new_pd_phys OR PAGE_PRESENT OR PAGE_RW OR PAGE_GLOBAL) s;
       s \<leftarrow> clear_entries [0..<768] s;
       s \<leftarrow> copy_entries [768..<1022] s;
       s \<leftarrow> vstore32 (PD_SCRATCH_WINDOW + 4 * 1023) (new_pd_phys OR PAGE_PRESENT OR PAGE_RW OR PAGE_GLOBAL) s;
       s \<leftarrow> vstore32 (PD_WINDOW + 4 * 1022) 0 s;
       Some (new_pd_phys, s) } }"

text \<open>The two loops of \<open>vmm_destroy_address_space\<close>: the pages of a table, and the tables of the directory.\<close>

primrec free_table_pages :: "nat list \<Rightarrow> u32 \<Rightarrow> 'a kern_scheme \<Rightarrow> 'a kern_scheme option" where
  "free_table_pages [] pt s = Some s"
| "free_table_pages (j # js) pt s = do {
     e \<leftarrow> vload32 (pt + 4 * of_nat j) s;
     s \<leftarrow> (if e AND PAGE_PRESENT \<noteq> 0 then kfree_phys (e AND 0xFFFFF000) s else Some s);
     free_table_pages js pt s }"

primrec free_tables :: "nat list \<Rightarrow> 'a kern_scheme \<Rightarrow> 'a kern_scheme option" where
  "free_tables [] s = Some s"
| "free_tables (i # is) s = do {
     e \<leftarrow> vload32 (PD_SCRATCH_WINDOW + 4 * of_nat i) s;
     s \<leftarrow> (if e AND PAGE_PRESENT \<noteq> 0 then do {
         s \<leftarrow> free_table_pages [0..<1024] (PTS_SCRATCH_WINDOW + 4 * (of_nat i * 1024)) s;
         e \<leftarrow> vload32 (PD_SCRATCH_WINDOW + 4 * of_nat i) s;
         kfree_phys (e AND 0xFFFFF000) s }
       else Some s);
     free_tables is s }"

definition vmm_destroy_address_space :: "u32 \<Rightarrow> 'a kern_scheme \<Rightarrow> 'a kern_scheme option" where
  "vmm_destroy_address_space pd_phys s = do {
     s \<leftarrow> vmm_set_pde_at PD_WINDOW PD_SCRATCH_WINDOW pd_phys (PAGE_PRESENT OR PAGE_RW) s;
     s \<leftarrow> free_tables [0..<768] s;
     s \<leftarrow> vmm_set_pte_at PD_WINDOW PD_SCRATCH_WINDOW 0 0 s;
     kfree_phys pd_phys s }"

end
