(* ===== verification/Vmm_Walk.thy ===== *)
theory Vmm_Walk
  imports Vmm
begin

text \<open>
  The page walk: addresses as directory index, table index and offset, the entries of a directory or table as words
  of a frame, and what the recursive entry makes of the windows.
\<close>

section \<open>Addresses\<close>

definition mk :: "nat \<Rightarrow> nat \<Rightarrow> nat \<Rightarrow> u32" where
  "mk f j k = of_nat (f * 4194304 + j * 4096 + k)"

definition pdi :: "u32 \<Rightarrow> nat" where "pdi va = unat (drop_bit 22 va)"
definition pti :: "u32 \<Rightarrow> nat" where "pti va = unat (drop_bit 12 va AND 0x3FF)"
definition poff :: "u32 \<Rightarrow> nat" where "poff va = unat (va AND 0xFFF)"

lemma and_mask10: "(w :: u32) AND 0x3FF = take_bit 10 w"
  by (simp add: take_bit_eq_mask mask_eq_exp_minus_1)

lemma and_mask12: "(w :: u32) AND 0xFFF = take_bit 12 w"
  by (simp add: take_bit_eq_mask mask_eq_exp_minus_1)

lemma pdi_eq: "pdi va = unat va div 4194304"
  by (simp add: pdi_def unat_drop_bit_eq drop_bit_eq_div unat_div)

lemma pti_eq: "pti va = unat va div 4096 mod 1024"
  by (simp add: pti_def and_mask10 unsigned_take_bit_eq take_bit_eq_mod unat_drop_bit_eq drop_bit_eq_div unat_div unat_mod)

lemma poff_eq: "poff va = unat va mod 4096"
  by (simp add: poff_def and_mask12 unsigned_take_bit_eq take_bit_eq_mod unat_mod)

lemma index_bounds [simp]: "pdi va < 1024" "pti va < 1024" "poff va < 4096"
  using unat_bound32 [of va] by (auto simp: pdi_eq pti_eq poff_eq less_mult_imp_div_less)

lemma mk_fields:
  assumes "f < 1024" "j < 1024" "k < 4096"
  shows "unat (mk f j k) = f * 4194304 + j * 4096 + k" "pdi (mk f j k) = f" "pti (mk f j k) = j" "poff (mk f j k) = k"
proof -
  have "f * 4194304 + j * 4096 + k < 2 ^ 32" using assms by simp
  then show u: "unat (mk f j k) = f * 4194304 + j * 4096 + k" unfolding mk_def by (rule unat_of_nat32)
  have e: "f * 4194304 + j * 4096 + k = (f * 1024 + j) * 4096 + k" by simp
  have d: "(f * 4194304 + j * 4096 + k) div 4096 = f * 1024 + j" unfolding e using assms(3) by simp
  show "pti (mk f j k) = j" unfolding pti_eq u d using assms(2) by simp
  show "poff (mk f j k) = k" unfolding poff_eq u e by (rule mod_mult_self3 [THEN trans]) (use assms(3) in simp)
  have "(f * 4194304 + j * 4096 + k) div 4194304 = (f * 4194304 + j * 4096 + k) div 4096 div 1024"
    by (simp add: div_mult2_eq [symmetric])
  also have "\<dots> = f" unfolding d using assms(2) by simp
  finally show "pdi (mk f j k) = f" unfolding pdi_eq u .
qed

lemma mk_self: "mk (pdi va) (pti va) (poff va) = va"
proof -
  have "unat va = unat va div 4096 * 4096 + unat va mod 4096" by simp
  also have "unat va div 4096 = unat va div 4096 div 1024 * 1024 + unat va div 4096 mod 1024" by simp
  finally have "unat va = pdi va * 4194304 + pti va * 4096 + poff va"
    by (simp add: pdi_eq pti_eq poff_eq div_mult2_eq [symmetric])
  then show ?thesis unfolding mk_def by (metis unat_of_nat32 unat_bound32 word_unat_eq_iff)
qed

lemma drop_bit_of_fields: "drop_bit 22 va = of_nat (pdi va)" "drop_bit 12 va AND 0x3FF = of_nat (pti va)" "va AND 0xFFF = of_nat (poff va)"
  by (simp_all add: pdi_def pti_def poff_def)

text \<open>The windows.\<close>

lemma pd_window: "k < 1024 \<Longrightarrow> PD_WINDOW + 4 * of_nat k = mk 1023 1023 (4 * k)"
  by (simp add: mk_def)

lemma pd_scratch_window: "k < 1024 \<Longrightarrow> PD_SCRATCH_WINDOW + 4 * of_nat k = mk 1023 1022 (4 * k)"
  by (simp add: mk_def)

lemma pts_window: "PTS_WINDOW + 4 * drop_bit 12 va = mk 1023 (pdi va) (4 * pti va)"
proof -
  have "unat (drop_bit 12 va) = pdi va * 1024 + pti va"
  proof -
    have "unat (drop_bit 12 va) = unat va div 4096" by (simp add: unat_drop_bit_eq drop_bit_eq_div unat_div)
    also have "\<dots> = unat va div 4096 div 1024 * 1024 + unat va div 4096 mod 1024" by simp
    finally show ?thesis by (simp add: pdi_eq pti_eq div_mult2_eq [symmetric])
  qed
  then have "drop_bit 12 va = of_nat (pdi va * 1024 + pti va)" by (rule eq_of_nat)
  then show ?thesis by (simp add: mk_def algebra_simps)
qed

lemma pt_page: "PTS_WINDOW + of_nat f * 4096 + of_nat k = mk 1023 f k"
  by (simp add: mk_def)

lemma mk_aligned: "k mod 4 = 0 \<Longrightarrow> f < 1024 \<Longrightarrow> j < 1024 \<Longrightarrow> k < 4096 \<Longrightarrow> mk f j k AND 3 = 0"
proof -
  assume a: "k mod 4 = 0" "f < 1024" "j < 1024" "k < 4096"
  have "(mk f j k :: u32) AND 3 = take_bit 2 (mk f j k)" by (simp add: take_bit_eq_mask mask_eq_exp_minus_1)
  moreover have "unat (take_bit 2 (mk f j k)) = 0"
  proof -
    have "f * 4194304 + j * 4096 + k = (f * 1048576 + j * 1024) * 4 + k" by simp
    then have "unat (mk f j k) mod 4 = k mod 4" unfolding mk_fields(1) [OF a(2-4)] by (metis mod_mult_self3)
    then show ?thesis using a(1) by (simp add: take_bit_eq_mod unat_mod)
  qed
  ultimately show ?thesis by (simp add: unat_eq_zero)
qed

section \<open>Frames and their words\<close>

lemma unat_frame: "unat (frame_of e) = unat e div 4096 * 4096"
proof -
  have "(0xFFFFF000 :: u32) = NOT (mask 12)" by (simp add: mask_eq_exp_minus_1)
  then show ?thesis using unat_align_down [of e 12] by simp
qed

definition is_frame :: "u32 \<Rightarrow> bool" where
  "is_frame F \<longleftrightarrow> unat F mod 4096 = 0"

lemma is_frame_frame [simp]: "is_frame (frame_of e)"
  unfolding is_frame_def unat_frame by simp

lemma frame_of_frame: "is_frame F \<Longrightarrow> frame_of F = F"
  by (rule word_unat_eq_iff [THEN iffD2]) (auto simp: unat_frame is_frame_def)

lemma frame_of_idem [simp]: "frame_of (frame_of e) = frame_of e"
  by (rule frame_of_frame) simp

lemma frame_room: "is_frame F \<Longrightarrow> unat F + 4096 \<le> 2 ^ 32"
proof -
  assume "is_frame F"
  then obtain q where q: "unat F = 4096 * q" by (auto simp: is_frame_def)
  moreover have "4096 * q < 2 ^ 32" using unat_bound32 [of F] q by simp
  ultimately show ?thesis by simp
qed

lemma unat_in_frame: "is_frame F \<Longrightarrow> k < 4096 \<Longrightarrow> unat (F + of_nat k) = unat F + k"
proof -
  assume F: "is_frame F" and k: "k < 4096"
  then have "unat F + k < 2 ^ 32" using frame_room [OF F] by simp
  then show ?thesis using k by (subst unat_plus_no_wrap) (simp_all add: unat_of_nat)
qed

lemma frame_in_frame: "is_frame F \<Longrightarrow> k < 4096 \<Longrightarrow> frame_of (F + of_nat k) = F"
proof -
  assume F: "is_frame F" and k: "k < 4096"
  obtain q where q: "unat F = 4096 * q" using F by (auto simp: is_frame_def)
  have "unat (frame_of (F + of_nat k)) = unat F" unfolding unat_frame unat_in_frame [OF F k] q using k by simp
  then show ?thesis by (simp only: word_unat_eq_iff)
qed

lemma poff_in_frame: "is_frame F \<Longrightarrow> k < 4096 \<Longrightarrow> poff (F + of_nat k) = k"
proof -
  assume F: "is_frame F" and k: "k < 4096"
  obtain q where q: "unat F = 4096 * q" using F by (auto simp: is_frame_def)
  show ?thesis unfolding poff_eq unat_in_frame [OF F k] q using k by simp
qed

lemma frame_split: "a = frame_of a + of_nat (poff a)"
proof -
  have "unat (frame_of a + of_nat (poff a)) = unat (frame_of a) + poff a" by (rule unat_in_frame) simp_all
  also have "\<dots> = unat a" by (simp add: unat_frame poff_eq)
  finally show ?thesis by (simp only: word_unat_eq_iff)
qed

definition slot :: "u32 \<Rightarrow> nat \<Rightarrow> u32" where
  "slot F k = F + of_nat (4 * k)"

definition entry :: "memory \<Rightarrow> u32 \<Rightarrow> nat \<Rightarrow> u32" where
  "entry m F k = ld32 m (slot F k)"

lemma in_frame_eq:
  assumes "is_frame F" "is_frame G" "k < 4096" "l < 4096"
  shows "F + of_nat k = G + of_nat l \<longleftrightarrow> F = G \<and> k = l"
  using frame_in_frame [OF assms(1, 3)] frame_in_frame [OF assms(2, 4)] poff_in_frame [OF assms(1, 3)] poff_in_frame [OF assms(2, 4)]
  by metis

text \<open>Storing a word at a slot of a frame changes that slot only.\<close>

definition byte_at :: "u32 \<Rightarrow> nat \<Rightarrow> u32" where
  "byte_at F n = F + of_nat n"

lemma byte_at_eq: "is_frame F \<Longrightarrow> is_frame G \<Longrightarrow> k < 4096 \<Longrightarrow> l < 4096 \<Longrightarrow> byte_at F k = byte_at G l \<longleftrightarrow> F = G \<and> k = l"
  unfolding byte_at_def by (rule in_frame_eq)

lemma frame_byte_at: "is_frame F \<Longrightarrow> k < 4096 \<Longrightarrow> frame_of (byte_at F k) = F"
  unfolding byte_at_def by (rule frame_in_frame)

lemma entry_bytes:
  "entry m F k = of_le32 (m (byte_at F (4 * k))) (m (byte_at F (4 * k + 1))) (m (byte_at F (4 * k + 2))) (m (byte_at F (4 * k + 3)))"
  by (simp add: entry_def slot_def ld32_def byte_at_def algebra_simps)

lemma st32_bytes:
  "st32 m (slot F k) w = m(byte_at F (4 * k) := ucast w, byte_at F (4 * k + 1) := ucast (drop_bit 8 w),
     byte_at F (4 * k + 2) := ucast (drop_bit 16 w), byte_at F (4 * k + 3) := ucast (drop_bit 24 w))"
  by (simp add: st32_def slot_def byte_at_def algebra_simps)

lemma st32_outside:
  assumes "is_frame F" "k < 1024" "frame_of x \<noteq> F"
  shows "st32 m (slot F k) w x = m x"
proof -
  have "x \<noteq> byte_at F (4 * k + i)" if "i < 4" for i
    using frame_byte_at [OF assms(1), of "4 * k + i"] assms(2, 3) that by auto
  from this [of 0] this [of 1] this [of 2] this [of 3] show ?thesis unfolding st32_bytes by simp
qed

lemma st32_other_byte:
  assumes "\<And>i. i < 4 \<Longrightarrow> x \<noteq> byte_at F (4 * k + i)"
  shows "st32 m (slot F k) w x = m x"
  using assms [of 0] assms [of 1] assms [of 2] assms [of 3] unfolding st32_bytes by simp

lemma entry_st32:
  assumes "is_frame F" "is_frame G" "k < 1024" "l < 1024"
  shows "entry (st32 m (slot F k) w) G l = (if F = G \<and> k = l then w else entry m G l)"
proof (cases "F = G \<and> k = l")
  case True
  have ne: "byte_at F (4 * k + i) = byte_at F (4 * k + j) \<longleftrightarrow> i = j" if "i < 4" "j < 4" for i j
    using byte_at_eq [OF assms(1, 1), of "4 * k + i" "4 * k + j"] assms(3) that by auto
  have "of_le32 (ucast w) (ucast (drop_bit 8 w)) (ucast (drop_bit 16 w)) (ucast (drop_bit 24 w)) = w"
    using of_le32_le32 [of w] by (simp add: le32_def)
  with True ne [of 0 1] ne [of 0 2] ne [of 0 3] ne [of 1 2] ne [of 1 3] ne [of 2 3]
    ne [of 1 0] ne [of 2 0] ne [of 3 0] ne [of 2 1] ne [of 3 1] ne [of 3 2] show ?thesis
    unfolding entry_bytes st32_bytes by simp
next
  case False
  have "byte_at G (4 * l + j) \<noteq> byte_at F (4 * k + i)" if "i < 4" "j < 4" for i j
  proof -
    have "4 * l + j = 4 * k + i \<longrightarrow> l = k" using that by presburger
    then show ?thesis using byte_at_eq [OF assms(2, 1), of "4 * l + j" "4 * k + i"] assms(3, 4) that False by auto
  qed
  then have "st32 m (slot F k) w (byte_at G (4 * l + j)) = m (byte_at G (4 * l + j))" if "j < 4" for j
    using that by (intro st32_other_byte) auto
  from this [of 0] this [of 1] this [of 2] this [of 3] show ?thesis
    unfolding if_not_P [OF False] unfolding entry_bytes by simp
qed

lemma entry_cong:
  assumes "is_frame F" "k < 1024" "\<And>x. frame_of x = F \<Longrightarrow> m x = m' x"
  shows "entry m F k = entry m' F k"
proof -
  have "m (byte_at F (4 * k + i)) = m' (byte_at F (4 * k + i))" if "i < 4" for i
    using assms that by (intro assms(3) frame_byte_at) auto
  from this [of 0] this [of 1] this [of 2] this [of 3] show ?thesis unfolding entry_bytes by simp
qed

section \<open>The walk\<close>

lemma pde_at_entry: "pde_at m pd va = entry m (frame_of pd) (pdi va)"
  unfolding pde_at_def entry_def slot_def drop_bit_of_fields by simp

lemma pte_at_entry: "pte_at m pd va = entry m (frame_of (entry m (frame_of pd) (pdi va))) (pti va)"
  unfolding pte_at_def pde_at_entry drop_bit_of_fields by (simp add: entry_def slot_def)

definition walk :: "memory \<Rightarrow> u32 \<Rightarrow> nat \<Rightarrow> nat \<Rightarrow> u32 option" where
  "walk m pd f j = (let e = entry m (frame_of pd) f in
     if present e \<and> present (entry m (frame_of e) j) then Some (frame_of (entry m (frame_of e) j)) else None)"

lemma translate_walk: "translate m pd va = map_option (\<lambda>F. F + of_nat (poff va)) (walk m pd (pdi va) (pti va))"
  unfolding translate_def pte_at_entry unfolding pde_at_entry drop_bit_of_fields(3) by (simp add: walk_def Let_def)

lemma translate_mk: "f < 1024 \<Longrightarrow> j < 1024 \<Longrightarrow> k < 4096 \<Longrightarrow> translate m pd (mk f j k) = map_option (\<lambda>F. F + of_nat k) (walk m pd f j)"
  by (simp add: translate_walk mk_fields)

lemma walk_frame: "walk m pd f j = Some F \<Longrightarrow> is_frame F"
  by (auto simp: walk_def Let_def split: if_splits)

text \<open>The directory is its own table number 1023.\<close>

definition self_map :: "memory \<Rightarrow> u32 \<Rightarrow> bool" where
  "self_map m pd \<longleftrightarrow> present (entry m (frame_of pd) 1023) \<and> frame_of (entry m (frame_of pd) 1023) = frame_of pd"

lemma walk_window: "self_map m pd \<Longrightarrow> walk m pd 1023 j =
    (if present (entry m (frame_of pd) j) then Some (frame_of (entry m (frame_of pd) j)) else None)"
  by (simp add: self_map_def walk_def Let_def)

abbreviation pd_entry :: "'a kern_scheme \<Rightarrow> nat \<Rightarrow> u32" where
  "pd_entry s i \<equiv> entry (phys s) (frame_of (cr3 s)) i"

lemma vload_window:
  assumes "self_map (phys s) (cr3 s)" "j < 1024" "k < 1024"
  shows "vload32 (mk 1023 j (4 * k)) s = (if present (pd_entry s j) then Some (entry (phys s) (frame_of (pd_entry s j)) k) else None)"
  using assms by (simp add: vload32_def mk_aligned translate_mk walk_window entry_def slot_def)

lemma vstore_window:
  assumes "self_map (phys s) (cr3 s)" "j < 1024" "k < 1024"
  shows "vstore32 (mk 1023 j (4 * k)) w s =
    (if present (pd_entry s j) then Some (s\<lparr>phys := st32 (phys s) (slot (frame_of (pd_entry s j)) k) w\<rparr>) else None)"
  using assms by (simp add: vstore32_def mk_aligned translate_mk walk_window slot_def)

lemma vload_pd:
  assumes "self_map (phys s) (cr3 s)"
  shows "vload32 (PD_WINDOW + 4 * drop_bit 22 va) s = Some (pd_entry s (pdi va))"
proof -
  have "PD_WINDOW + 4 * drop_bit 22 va = mk 1023 1023 (4 * pdi va)"
    unfolding drop_bit_of_fields by (rule pd_window) simp
  then show ?thesis using assms by (simp only: vload_window index_bounds) (simp add: self_map_def)
qed

text \<open>C11. With the recursive entry in place, \<open>vmm_virt_to_phys\<close> is the translation the processor
  performs, for every address: the physical address, or 0 for one that is not mapped; it never faults.  And
  \<open>vmm_is_mapped\<close> tells whether the address is mapped.\<close>

theorem vmm_virt_to_phys_equiv:
  assumes "self_map (phys s) (cr3 s)"
  shows "vmm_virt_to_phys va s = Some (case translate (phys s) (cr3 s) va of None \<Rightarrow> 0 | Some pa \<Rightarrow> pa) \<and>
    vmm_is_mapped va s = Some (translate (phys s) (cr3 s) va \<noteq> None)"
proof -
  have pt: "vload32 (PTS_WINDOW + 4 * drop_bit 12 va) s =
      (if present (pd_entry s (pdi va)) then Some (entry (phys s) (frame_of (pd_entry s (pdi va))) (pti va)) else None)"
    unfolding pts_window using assms by (intro vload_window) simp_all
  show ?thesis
    unfolding vmm_virt_to_phys_def vmm_is_mapped_def vload_pd [OF assms] pt
    by (auto simp: translate_walk walk_def Let_def drop_bit_of_fields)
qed

end
