(* ===== verification/Vmm_Map.thy ===== *)
theory Vmm_Map
  imports Vmm_Walk
begin

text \<open>
  Mapping pages: what \<open>vmm_map_user_page\<close>, \<open>vmm_alloc_user_page_at\<close>, \<open>vmm_alloc_kernel_page_at\<close> and
  \<open>vmm_unmap_page\<close> do to the translation of every address and to the contents of every frame.
\<close>

section \<open>Well-formed address spaces\<close>

definition pts_inj :: "memory \<Rightarrow> u32 \<Rightarrow> bool" where
  "pts_inj m pd \<longleftrightarrow> (\<forall>i < 1024. \<forall>j < 1024. present (entry m (frame_of pd) i) \<and> present (entry m (frame_of pd) j) \<and>
     frame_of (entry m (frame_of pd) i) = frame_of (entry m (frame_of pd) j) \<longrightarrow> i = j)"

definition space_ok :: "memory \<Rightarrow> u32 \<Rightarrow> bool" where
  "space_ok m pd \<longleftrightarrow> self_map m pd \<and> pts_inj m pd"

text \<open>No frame of the directory or of a table is free for the physical allocator.\<close>

definition vm_ok :: "'a kern_scheme \<Rightarrow> bool" where
  "vm_ok s \<longleftrightarrow> pmm_ok (pmm_state s) \<and> space_ok (phys s) (cr3 s) \<and>
     (\<forall>i < 1024. present (pd_entry s i) \<longrightarrow> unat (frame_of (pd_entry s i)) div 4096 \<notin> free_pages (pmm_state s))"

lemma table_not_directory:
  assumes "space_ok m pd" "i < 1023" "present (entry m (frame_of pd) i)"
  shows "frame_of (entry m (frame_of pd) i) \<noteq> frame_of pd"
proof
  assume eq: "frame_of (entry m (frame_of pd) i) = frame_of pd"
  have "i < 1024" "(1023 :: nat) < 1024" using assms(2) by simp_all
  with assms(1, 3) eq have "i = 1023" unfolding space_ok_def self_map_def pts_inj_def by metis
  with assms(2) show False by simp
qed

lemma walk_cong:
  assumes "\<And>x. frame_of x = frame_of pd \<Longrightarrow> m' x = m x"
    and "\<And>x. present (entry m (frame_of pd) f) \<Longrightarrow> frame_of x = frame_of (entry m (frame_of pd) f) \<Longrightarrow> m' x = m x"
    and "f < 1024" "j < 1024"
  shows "walk m' pd f j = walk m pd f j"
proof -
  have "entry m' (frame_of pd) f = entry m (frame_of pd) f" using assms by (intro entry_cong) auto
  moreover have "present (entry m (frame_of pd) f) \<Longrightarrow>
      entry m' (frame_of (entry m (frame_of pd) f)) j = entry m (frame_of (entry m (frame_of pd) f)) j"
    using assms by (intro entry_cong) auto
  ultimately show ?thesis by (auto simp: walk_def Let_def)
qed

text \<open>A memory that agrees on the directory keeps the shape of the address space.\<close>

lemma space_ok_cong:
  assumes "space_ok m pd" "\<And>x. frame_of x = frame_of pd \<Longrightarrow> m' x = m x"
  shows "space_ok m' pd"
proof -
  have "entry m' (frame_of pd) i = entry m (frame_of pd) i" if "i < 1024" for i
    using assms that by (intro entry_cong) auto
  with assms(1) show ?thesis by (auto simp: space_ok_def self_map_def pts_inj_def)
qed

section \<open>One table entry\<close>

lemma st_pte:
  fixes w :: u32
  assumes ok: "space_ok m pd" and f: "f < 1023" and j: "j < 1024" and p: "present (entry m (frame_of pd) f)"
  defines "m' \<equiv> st32 m (slot (frame_of (entry m (frame_of pd) f)) j) w"
  shows "space_ok m' pd"
    and "i < 1024 \<Longrightarrow> entry m' (frame_of pd) i = entry m (frame_of pd) i"
    and "f' < 1024 \<Longrightarrow> j' < 1024 \<Longrightarrow>
      walk m' pd f' j' = (if f' = f \<and> j' = j then if present w then Some (frame_of w) else None else walk m pd f' j')"
proof -
  let ?P = "frame_of pd" and ?T = "frame_of (entry m (frame_of pd) f)"
  have T: "?T \<noteq> ?P" using table_not_directory [OF ok f p] .
  have pd: "entry m' ?P i = entry m ?P i" if "i < 1024" for i
    unfolding m'_def using T j that by (simp add: entry_st32)
  then show "i < 1024 \<Longrightarrow> entry m' ?P i = entry m ?P i" .
  show "space_ok m' pd"
    unfolding m'_def using T j by (intro space_ok_cong [OF ok] st32_outside) auto
  show "walk m' pd f' j' = (if f' = f \<and> j' = j then if present w then Some (frame_of w) else None else walk m pd f' j')"
    if i: "f' < 1024" "j' < 1024"
  proof (cases "present (entry m ?P f')")
    case True
    have "?T = frame_of (entry m ?P f') \<longleftrightarrow> f' = f"
    proof -
      have "f < 1024" using f by simp
      then show ?thesis using ok p True i unfolding space_ok_def pts_inj_def by metis
    qed
    then have "entry m' (frame_of (entry m ?P f')) j' = (if f' = f \<and> j' = j then w else entry m (frame_of (entry m ?P f')) j')"
      unfolding m'_def using j i by (subst entry_st32) auto
    with True pd [OF i(1)] show ?thesis by (auto simp: walk_def Let_def)
  next
    case False
    with p pd [OF i(1)] show ?thesis by (auto simp: walk_def Let_def)
  qed
qed

lemma set_pte_at:
  assumes "space_ok (phys s) (cr3 s)" "present (pd_entry s (pdi va))"
  shows "vmm_set_pte_at PTS_WINDOW va pa flags s =
    Some (s\<lparr>phys := st32 (phys s) (slot (frame_of (pd_entry s (pdi va))) (pti va)) (frame_of pa OR flags)\<rparr>)"
  unfolding vmm_set_pte_at_def pts_window
  using assms by (subst vstore_window) (simp_all add: space_ok_def)

lemma frame_or_flags:
  assumes "flags < 4096" "is_frame F"
  shows "frame_of (F OR flags) = F"
proof -
  have "frame_of flags = 0"
    using assms(1) by (simp add: word_unat_eq_iff unat_frame word_less_nat_alt)
  then show ?thesis using frame_of_frame [OF assms(2)] by (simp add: bit.conj_disj_distrib2)
qed

lemma flags_user: "frame_of (frame_of pa OR (PAGE_PRESENT OR PAGE_RW OR PAGE_USER)) = frame_of pa"
  "present (frame_of pa OR (PAGE_PRESENT OR PAGE_RW OR PAGE_USER))"
  "frame_of (frame_of pa OR (PAGE_PRESENT OR PAGE_RW OR PAGE_GLOBAL)) = frame_of pa"
  "present (frame_of pa OR (PAGE_PRESENT OR PAGE_RW OR PAGE_GLOBAL))"
  "frame_of (frame_of pa OR (PAGE_PRESENT OR PAGE_RW)) = frame_of pa"
  "present (frame_of pa OR (PAGE_PRESENT OR PAGE_RW))"
proof -
  have *: "frame_of (frame_of pa OR flags) = frame_of pa \<and> present (frame_of pa OR flags)" if "flags < 4096" "flags AND 1 = 1" for flags
    using that frame_or_flags [of flags "frame_of pa"] by (simp add: bit.conj_disj_distrib2)
  show "frame_of (frame_of pa OR (PAGE_PRESENT OR PAGE_RW OR PAGE_USER)) = frame_of pa"
    "present (frame_of pa OR (PAGE_PRESENT OR PAGE_RW OR PAGE_USER))"
    "frame_of (frame_of pa OR (PAGE_PRESENT OR PAGE_RW OR PAGE_GLOBAL)) = frame_of pa"
    "present (frame_of pa OR (PAGE_PRESENT OR PAGE_RW OR PAGE_GLOBAL))"
    "frame_of (frame_of pa OR (PAGE_PRESENT OR PAGE_RW)) = frame_of pa"
    "present (frame_of pa OR (PAGE_PRESENT OR PAGE_RW))"
    using * [of "PAGE_PRESENT OR PAGE_RW OR PAGE_USER"] * [of "PAGE_PRESENT OR PAGE_RW OR PAGE_GLOBAL"] * [of "PAGE_PRESENT OR PAGE_RW"]
    by simp_all
qed

section \<open>Filling a page\<close>

lemma vfill_page:
  assumes "walk (phys s) (cr3 s) f j = Some F" "F \<noteq> frame_of (cr3 s)" "F \<noteq> frame_of (pd_entry s f)"
    and "f < 1024" "j < 1024" "\<forall>i \<in> set is. i < 4096"
  shows "vfill is (mk f j 0) b s = Some (s\<lparr>phys := \<lambda>x. if frame_of x = F \<and> poff x \<in> set is then b else phys s x\<rparr>)"
  using assms
proof (induction "is" arbitrary: s)
  case Nil
  show ?case by simp
next
  case (Cons i "is")
  have F: "is_frame F" using Cons.prems(1) by (rule walk_frame)
  have i: "i < 4096" using Cons.prems by simp
  have a: "mk f j 0 + of_nat i = mk f j i" by (simp add: mk_def)
  define m where "m = (phys s)(F + of_nat i := b)"
  let ?s = "s\<lparr>phys := m\<rparr>"
  have step: "vstore8 (mk f j 0 + of_nat i) b s = Some ?s"
    unfolding a m_def using Cons.prems i by (simp add: vstore8_def translate_mk)
  have same: "m x = phys s x" if "frame_of x \<noteq> F" for x
    using that frame_in_frame [OF F i] unfolding m_def by auto
  have e: "entry m (frame_of (cr3 s)) f = pd_entry s f" using Cons.prems same by (intro entry_cong) auto
  have "walk m (cr3 s) f j = walk (phys s) (cr3 s) f j"
    using Cons.prems same by (intro walk_cong) auto
  then have "vfill is (mk f j 0) b ?s = Some (?s\<lparr>phys := \<lambda>x. if frame_of x = F \<and> poff x \<in> set is then b else phys ?s x\<rparr>)"
    using Cons.prems e by (intro Cons.IH) simp_all
  moreover have "(\<lambda>x. if frame_of x = F \<and> poff x \<in> set is then b else phys ?s x) =
      (\<lambda>x. if frame_of x = F \<and> poff x \<in> set (i # is) then b else phys s x)"
  proof
    fix x
    have "x = F + of_nat i \<longleftrightarrow> frame_of x = F \<and> poff x = i"
      using frame_in_frame [OF F i] poff_in_frame [OF F i] frame_split [of x] by metis
    then show "(if frame_of x = F \<and> poff x \<in> set is then b else phys ?s x) =
        (if frame_of x = F \<and> poff x \<in> set (i # is) then b else phys s x)" by (auto simp: m_def)
  qed
  ultimately show ?case using step by simp
qed

lemma vmemset_page:
  assumes "walk (phys s) (cr3 s) f j = Some F" "F \<noteq> frame_of (cr3 s)" "F \<noteq> frame_of (pd_entry s f)" "f < 1024" "j < 1024"
  shows "vmemset (mk f j 0) b 4096 s = Some (s\<lparr>phys := \<lambda>x. if frame_of x = F then b else phys s x\<rparr>)"
proof -
  have "vfill [0..<4096] (mk f j 0) b s =
      Some (s\<lparr>phys := \<lambda>x. if frame_of x = F \<and> poff x \<in> set [0..<4096] then b else phys s x\<rparr>)"
    by (rule vfill_page [OF assms]) auto
  moreover have "poff x \<in> set [0..<4096]" for x by simp
  ultimately show ?thesis unfolding vmemset_def by (simp del: upt_Suc upt_rec_numeral)
qed

section \<open>Fresh frames\<close>

lemma kalloc_ok:
  assumes ok: "vm_ok s" and free: "free_pages (pmm_state s) \<noteq> {}"
  obtains F p where "kalloc_phys s = Some (F, s\<lparr>pmm_state := p\<rparr>)" and "F \<noteq> 0" and "is_frame F"
    and "unat F div 4096 \<in> free_pages (pmm_state s)" and "free_pages p = free_pages (pmm_state s) - {unat F div 4096}"
    and "vm_ok (s\<lparr>pmm_state := p\<rparr>)" and "\<And>i. i < 1024 \<Longrightarrow> present (pd_entry s i) \<Longrightarrow> frame_of (pd_entry s i) \<noteq> F"
proof -
  have pok: "pmm_ok (pmm_state s)" using ok by (simp add: vm_ok_def)
  obtain F p where a: "pmm_alloc_page (pmm_state s) = Some (F, p)" "pmm_ok p" "managed p = managed (pmm_state s)"
    using pmm_pages.alloc_returns [OF pok] by blast
  have F: "F \<noteq> 0" using pmm_pages.alloc_fail [OF pok, of p] a(1) free by auto
  note f = pmm_pages.alloc_page [OF pok a(1) F]
  show thesis
  proof (rule that)
    show "kalloc_phys s = Some (F, s\<lparr>pmm_state := p\<rparr>)" using a(1) by (simp add: kalloc_phys_def)
    show "F \<noteq> 0" by (fact F)
    show "is_frame F" using f by (simp add: is_frame_def)
    show "vm_ok (s\<lparr>pmm_state := p\<rparr>)" using ok a(2) f by (simp add: vm_ok_def)
    show "frame_of (pd_entry s i) \<noteq> F" if "i < 1024" "present (pd_entry s i)" for i
      using that ok f by (auto simp: vm_ok_def)
  qed (use f in auto)
qed

lemma kalloc_none: "vm_ok s \<Longrightarrow> free_pages (pmm_state s) = {} \<Longrightarrow> kalloc_phys s = Some (0, s)"
proof -
  assume ok: "vm_ok s" and none: "free_pages (pmm_state s) = {}"
  then have pok: "pmm_ok (pmm_state s)" by (simp add: vm_ok_def)
  obtain a p where a: "pmm_alloc_page (pmm_state s) = Some (a, p)" using pmm_pages.alloc_returns [OF pok] by blast
  then have z: "a = 0" using pmm_pages.alloc_page [OF pok a] none by blast
  then have "p = pmm_state s" using pmm_pages.alloc_fail [OF pok] a by blast
  with a z show ?thesis by (simp add: kalloc_phys_def)
qed

section \<open>A new table\<close>

lemma set_pde_at:
  assumes "space_ok (phys s) (cr3 s)"
  shows "vmm_set_pde_at PD_WINDOW va pa flags s =
    Some (s\<lparr>phys := st32 (phys s) (slot (frame_of (cr3 s)) (pdi va)) (frame_of pa OR flags)\<rparr>)"
proof -
  have "PD_WINDOW + 4 * drop_bit 22 va = mk 1023 1023 (4 * pdi va)"
    unfolding drop_bit_of_fields by (rule pd_window) simp
  then show ?thesis using assms unfolding vmm_set_pde_at_def
    by (simp add: vstore_window space_ok_def) (simp add: self_map_def)
qed

lemma st_pde:
  fixes e :: u32
  assumes ok: "space_ok m pd" and f: "f < 1023"
    and new: "\<forall>i < 1024. present (entry m (frame_of pd) i) \<longrightarrow> frame_of (entry m (frame_of pd) i) \<noteq> frame_of e"
  defines "m' \<equiv> st32 m (slot (frame_of pd) f) e"
  shows "space_ok m' pd" and "i < 1024 \<Longrightarrow> entry m' (frame_of pd) i = (if i = f then e else entry m (frame_of pd) i)"
    and "frame_of x \<noteq> frame_of pd \<Longrightarrow> m' x = m x"
proof -
  have e: "entry m' (frame_of pd) i = (if i = f then e else entry m (frame_of pd) i)" if "i < 1024" for i
    unfolding m'_def using that f by (subst entry_st32) auto
  then show "i < 1024 \<Longrightarrow> entry m' (frame_of pd) i = (if i = f then e else entry m (frame_of pd) i)" .
  show "space_ok m' pd"
    using ok f new unfolding space_ok_def self_map_def pts_inj_def by (auto simp: e)
  show "m' x = m x" if "frame_of x \<noteq> frame_of pd"
    unfolding m'_def using that f by (intro st32_outside) auto
qed

lemma entry_zero: "is_frame F \<Longrightarrow> k < 1024 \<Longrightarrow> (\<And>x. frame_of x = F \<Longrightarrow> m x = 0) \<Longrightarrow> entry m F k = 0"
proof -
  assume F: "is_frame F" "k < 1024" "\<And>x. frame_of x = F \<Longrightarrow> m x = 0"
  then have "entry m F k = entry (\<lambda>_. 0) F k" by (intro entry_cong) auto
  then show ?thesis by (simp add: entry_def ld32_def of_le32_def)
qed

text \<open>The memory after a new, empty table has been entered at \<open>f\<close>.\<close>

lemma new_table:
  assumes ok: "space_ok m pd" and f: "f < 1023" and np: "\<not> present (entry m (frame_of pd) f)"
    and new: "\<forall>i < 1024. present (entry m (frame_of pd) i) \<longrightarrow> frame_of (entry m (frame_of pd) i) \<noteq> frame_of e"
    and e: "present e"
  defines "m' \<equiv> (\<lambda>x. if frame_of x = frame_of e then 0 else st32 m (slot (frame_of pd) f) e x)"
  shows "space_ok m' pd" and "i < 1024 \<Longrightarrow> entry m' (frame_of pd) i = (if i = f then e else entry m (frame_of pd) i)"
    and "f' < 1023 \<Longrightarrow> j < 1024 \<Longrightarrow> walk m' pd f' j = walk m pd f' j"
proof -
  let ?m1 = "st32 m (slot (frame_of pd) f) e"
  note s1 = st_pde [OF ok f new]
  have P: "frame_of e \<noteq> frame_of pd"
    using new [rule_format, of 1023] ok by (auto simp: space_ok_def self_map_def)
  then have same: "m' x = ?m1 x" if "frame_of x = frame_of pd" for x using that by (simp add: m'_def)
  show sp: "space_ok m' pd" by (rule space_ok_cong [OF s1(1)]) (auto simp: same)
  have en: "entry m' (frame_of pd) i = (if i = f then e else entry m (frame_of pd) i)" if "i < 1024" for i
    using s1(2) [of i] that same entry_cong [of "frame_of pd" i m' ?m1] by auto
  then show "i < 1024 \<Longrightarrow> entry m' (frame_of pd) i = (if i = f then e else entry m (frame_of pd) i)" .
  show "walk m' pd f' j = walk m pd f' j" if w: "f' < 1023" "j < 1024"
  proof (cases "f' = f")
    case True
    have "entry m' (frame_of e) j = 0" using w by (intro entry_zero) (auto simp: m'_def)
    with True w en [of f] np show ?thesis by (simp add: walk_def Let_def)
  next
    case False
    let ?T = "frame_of (entry m (frame_of pd) f')"
    have "entry m' ?T j = entry m ?T j" if p: "present (entry m (frame_of pd) f')"
    proof (rule entry_cong)
      fix x assume "frame_of x = ?T"
      moreover have "?T \<noteq> frame_of e" using new [rule_format, of f'] p w by simp
      moreover have "?T \<noteq> frame_of pd" using table_not_directory [OF ok w(1) p] .
      ultimately show "m' x = m x" using s1(3) [of x] by (simp add: m'_def)
    qed (use w in auto)
    with False w en [of f'] show ?thesis by (auto simp: walk_def Let_def)
  qed
qed

section \<open>vmm_map_user_page\<close>

lemma map_user_page_ok:
  assumes ok: "vm_ok s" and f: "pdi va < 1023"
    and room: "present (pd_entry s (pdi va)) \<or> free_pages (pmm_state s) \<noteq> {}"
  obtains s' where "vmm_map_user_page va pa s = Some s'" and "vm_ok s'" and "cr3 s' = cr3 s"
    and "\<And>f j. f < 1023 \<Longrightarrow> j < 1024 \<Longrightarrow> walk (phys s') (cr3 s) f j =
      (if f = pdi va \<and> j = pti va then Some (frame_of pa) else walk (phys s) (cr3 s) f j)"
    and "free_pages (pmm_state s') \<subseteq> free_pages (pmm_state s)"
    and "present (pd_entry s' (pdi va))" and "\<And>i. i < 1024 \<Longrightarrow> i \<noteq> pdi va \<Longrightarrow> pd_entry s' i = pd_entry s i"
    and "unat (frame_of (pd_entry s' (pdi va))) div 4096 \<in> free_pages (pmm_state s) \<or> pd_entry s' (pdi va) = pd_entry s (pdi va)"
    and "\<And>x. frame_of x \<noteq> frame_of (cr3 s) \<Longrightarrow> frame_of x \<noteq> frame_of (pd_entry s' (pdi va)) \<Longrightarrow> phys s' x = phys s x"
proof (cases "present (pd_entry s (pdi va))")
  case True
  have sp: "space_ok (phys s) (cr3 s)" using ok by (simp add: vm_ok_def)
  have "self_map (phys s) (cr3 s)" using sp by (simp add: space_ok_def)
  note ld = vload_pd [OF this, of va]
  define w where "w = frame_of pa OR (PAGE_PRESENT OR PAGE_RW OR PAGE_USER)"
  have w: "frame_of w = frame_of pa" "present w" unfolding w_def by (rule flags_user)+
  let ?s' = "s\<lparr>phys := st32 (phys s) (slot (frame_of (pd_entry s (pdi va))) (pti va)) w\<rparr>"
  note st = st_pte [OF sp f index_bounds(2) [of va] True, where w = w]
  show thesis
  proof (rule that)
    show "vmm_map_user_page va pa s = Some ?s'"
      unfolding vmm_map_user_page_def Let_def ld using True by (simp add: set_pte_at [OF sp True] w_def)
    show "vm_ok ?s'" using ok st(1, 2) by (simp add: vm_ok_def)
    show "walk (phys ?s') (cr3 s) f j = (if f = pdi va \<and> j = pti va then Some (frame_of pa) else walk (phys s) (cr3 s) f j)"
      if "f < 1023" "j < 1024" for f j
      using st(3) [of f j] that w by simp
    show "phys ?s' x = phys s x" if "frame_of x \<noteq> frame_of (pd_entry ?s' (pdi va))" for x
      using that st(2) [of "pdi va"] by (simp add: st32_outside)
    show "pd_entry ?s' i = pd_entry s i" if "i < 1024" for i using st(2) [OF that] by simp
    show "present (pd_entry ?s' (pdi va))"
      "unat (frame_of (pd_entry ?s' (pdi va))) div 4096 \<in> free_pages (pmm_state s) \<or> pd_entry ?s' (pdi va) = pd_entry s (pdi va)"
      using True st(2) [of "pdi va"] by simp_all
  qed simp_all
next
  case False
  then have free: "free_pages (pmm_state s) \<noteq> {}" using room by simp
  obtain F p where a: "kalloc_phys s = Some (F, s\<lparr>pmm_state := p\<rparr>)" "F \<noteq> 0" "is_frame F"
    "unat F div 4096 \<in> free_pages (pmm_state s)" "free_pages p = free_pages (pmm_state s) - {unat F div 4096}"
    "vm_ok (s\<lparr>pmm_state := p\<rparr>)" "\<And>i. i < 1024 \<Longrightarrow> present (pd_entry s i) \<Longrightarrow> frame_of (pd_entry s i) \<noteq> F"
    by (rule kalloc_ok [OF ok free]) blast
  have sp: "space_ok (phys s) (cr3 s)" using ok by (simp add: vm_ok_def)
  have "self_map (phys s) (cr3 s)" using sp by (simp add: space_ok_def)
  note ld = vload_pd [OF this, of va]
  let ?P = "frame_of (cr3 s)" and ?f = "pdi va"
  define e where "e = frame_of F OR (PAGE_PRESENT OR PAGE_RW OR PAGE_USER)"
  define w where "w = frame_of pa OR (PAGE_PRESENT OR PAGE_RW OR PAGE_USER)"
  have e: "frame_of e = F" "present e" unfolding e_def using flags_user(1, 2) [of F] frame_of_frame [OF a(3)] by simp_all
  have w: "frame_of w = frame_of pa" "present w" unfolding w_def by (rule flags_user)+
  have new: "\<forall>i < 1024. present (entry (phys s) ?P i) \<longrightarrow> frame_of (entry (phys s) ?P i) \<noteq> frame_of e" using a(7) e by simp
  have FP: "F \<noteq> ?P" using new [rule_format, of 1023] sp e by (auto simp: space_ok_def self_map_def)
  define m1 where "m1 = st32 (phys s) (slot ?P ?f) e"
  define m2 where "m2 = (\<lambda>x. if frame_of x = F then 0 else m1 x)"
  let ?s1 = "s\<lparr>pmm_state := p, phys := m1\<rparr>" and ?s2 = "s\<lparr>pmm_state := p, phys := m2\<rparr>"
  note s1 = st_pde [OF sp f new, folded m1_def]
  note s2 = new_table [OF sp f False new e(2), unfolded e(1), folded m1_def, folded m2_def]
  have pde: "vmm_set_pde_at PD_WINDOW va F (PAGE_PRESENT OR PAGE_RW OR PAGE_USER) (s\<lparr>pmm_state := p\<rparr>) = Some ?s1"
    using set_pde_at [of "s\<lparr>pmm_state := p\<rparr>" va F] sp by (simp add: m1_def e_def)
  have "walk m1 (cr3 s) 1023 ?f = Some F"
    using s1(1) s1(2) [of ?f] e walk_window [of m1 "cr3 s" ?f] by (simp add: space_ok_def)
  moreover have "frame_of (pd_entry ?s1 1023) = ?P" using s1(1) by (simp add: space_ok_def self_map_def)
  ultimately have "vmemset (mk 1023 ?f 0) 0 4096 ?s1 = Some (?s1\<lparr>phys := \<lambda>x. if frame_of x = F then 0 else phys ?s1 x\<rparr>)"
    using FP by (intro vmemset_page) simp_all
  then have set: "vmemset (PTS_WINDOW + drop_bit 22 va * 4096) 0 4096 ?s1 = Some ?s2"
    using pt_page [of ?f 0] unfolding drop_bit_of_fields m2_def by (simp cong: if_cong)
  have pres: "entry m2 ?P ?f = e" using s2(2) [of ?f] by simp
  let ?m3 = "st32 m2 (slot F (pti va)) w"
  let ?s3 = "s\<lparr>pmm_state := p, phys := ?m3\<rparr>"
  have pte: "vmm_set_pte_at PTS_WINDOW va pa (PAGE_PRESENT OR PAGE_RW OR PAGE_USER) ?s2 = Some ?s3"
    using set_pte_at [of ?s2 va pa] s2(1) pres e by (simp add: w_def)
  have run: "vmm_map_user_page va pa s = Some ?s3"
    unfolding vmm_map_user_page_def Let_def ld using False a(1, 2) pde set pte by simp
  have p2: "present (entry m2 ?P ?f)" unfolding pres by (rule e(2))
  note s3 = st_pte [OF s2(1) f index_bounds(2) [of va] p2, unfolded pres e(1), where w = w]
  have en3: "entry ?m3 ?P i = (if i = ?f then e else entry (phys s) ?P i)" if "i < 1024" for i
    using s3(2) [OF that] s2(2) [OF that] by simp
  show thesis
  proof (rule that [OF run])
    show "vm_ok ?s3"
      using a(5, 6) s3(1) e ok unfolding vm_ok_def by (auto simp: en3)
    show "walk (phys ?s3) (cr3 s) f j = (if f = pdi va \<and> j = pti va then Some (frame_of pa) else walk (phys s) (cr3 s) f j)"
      if "f < 1023" "j < 1024" for f j
      using s3(3) [of f j] s2(3) [of f j] that w by simp
    show "phys ?s3 x = phys s x" if "frame_of x \<noteq> frame_of (cr3 s)" "frame_of x \<noteq> frame_of (pd_entry ?s3 (pdi va))" for x
      using that en3 [of ?f] e(1) s1(3) [of x] a(3) by (simp add: st32_outside m2_def)
    show "pd_entry ?s3 i = pd_entry s i" if "i < 1024" "i \<noteq> pdi va" for i using en3 [OF that(1)] that(2) by simp
    show "present (pd_entry ?s3 (pdi va))"
      "unat (frame_of (pd_entry ?s3 (pdi va))) div 4096 \<in> free_pages (pmm_state s) \<or> pd_entry ?s3 (pdi va) = pd_entry s (pdi va)"
      using en3 [of ?f] e a(4) by simp_all
    show "free_pages (pmm_state ?s3) \<subseteq> free_pages (pmm_state s)" using a(5) by auto
  qed simp
qed

section \<open>Clearing the new page\<close>

lemma clear_page_ok:
  assumes ok: "vm_ok s" and w: "walk (phys s) (cr3 s) f j = Some F" and fj: "f < 1024" "j < 1024"
    and new: "\<And>i. i < 1024 \<Longrightarrow> present (pd_entry s i) \<Longrightarrow> frame_of (pd_entry s i) \<noteq> F"
  obtains s' where "vmemset (mk f j 0) 0 4096 s = Some s'" and "vm_ok s'" and "cr3 s' = cr3 s" and "pmm_state s' = pmm_state s"
    and "\<And>f j. f < 1024 \<Longrightarrow> j < 1024 \<Longrightarrow> walk (phys s') (cr3 s) f j = walk (phys s) (cr3 s) f j"
    and "phys s' = (\<lambda>x. if frame_of x = F then 0 else phys s x)"
    and "\<And>i. i < 1024 \<Longrightarrow> pd_entry s' i = pd_entry s i"
proof -
  let ?s' = "s\<lparr>phys := \<lambda>x. if frame_of x = F then 0 else phys s x\<rparr>"
  have sp: "space_ok (phys s) (cr3 s)" using ok by (simp add: vm_ok_def)
  have P: "frame_of (cr3 s) \<noteq> F" using new [of 1023] sp by (simp add: space_ok_def self_map_def)
  have "present (pd_entry s f)" using w by (auto simp: walk_def Let_def split: if_splits)
  then have T: "frame_of (pd_entry s f) \<noteq> F" using new fj by blast
  have en: "pd_entry ?s' i = pd_entry s i" if "i < 1024" for i
    using that P entry_cong [of "frame_of (cr3 s)" i "phys ?s'" "phys s"] by auto
  have sp': "space_ok (phys ?s') (cr3 s)" using P by (intro space_ok_cong [OF sp]) auto
  show thesis
  proof (rule that)
    show "vmemset (mk f j 0) 0 4096 s = Some ?s'" using P T w fj by (intro vmemset_page) auto
    have "pd_entry (s\<lparr>phys := phys ?s'\<rparr>) i = pd_entry s i" if "i < 1024" for i using en [OF that] by simp
    then show "vm_ok ?s'" using ok sp' by (auto simp: vm_ok_def)
    show "walk (phys ?s') (cr3 s) f j = walk (phys s) (cr3 s) f j" if "f < 1024" "j < 1024" for f j
      using that P new [of f] by (intro walk_cong) auto
  qed (use en in auto)
qed

section \<open>vmm_alloc_user_page_at\<close>

definition same_page :: "u32 \<Rightarrow> u32 \<Rightarrow> bool" where
  "same_page a b \<longleftrightarrow> pdi a = pdi b \<and> pti a = pti b"

lemma two_free: "2 \<le> card S \<Longrightarrow> S \<noteq> {} \<and> S - {p :: nat} \<noteq> {}"
proof -
  assume c: "2 \<le> card S"
  have "\<not> S \<subseteq> {p}"
  proof
    assume "S \<subseteq> {p}"
    then have "card S \<le> 1" using card_mono [of "{p}" S] by simp
    with c show False by simp
  qed
  then show ?thesis by auto
qed

text \<open>C9. With two free frames left, \<open>vmm_alloc_user_page_at\<close> succeeds at every page-aligned
  address below the recursive window: the page is mapped to a frame that was free and holds zeros, the
  translation of every other page below the window is what it was, and no byte of a frame that was in use changes
  except in the page directory and its tables.  The invariant of the address space is kept.\<close>

theorem vmm_alloc_user_page_correct:
  assumes ok: "vm_ok s" and va: "pdi va < 1023" "poff va = 0" and room: "2 \<le> card (free_pages (pmm_state s))"
  shows "\<exists>s' F. vmm_alloc_user_page_at va s = Some (True, s') \<and> vm_ok s' \<and> cr3 s' = cr3 s \<and>
    unat F div 4096 \<in> free_pages (pmm_state s) \<and>
    (\<forall>b. pdi b < 1023 \<longrightarrow> translate (phys s') (cr3 s) b =
      (if same_page b va then Some (F + of_nat (poff b)) else translate (phys s) (cr3 s) b)) \<and>
    (\<forall>x. frame_of x = F \<longrightarrow> phys s' x = 0) \<and>
    (\<forall>x. unat (frame_of x) div 4096 \<notin> free_pages (pmm_state s) \<and>
      (\<forall>i < 1024. present (pd_entry s i) \<longrightarrow> frame_of x \<noteq> frame_of (pd_entry s i)) \<longrightarrow> phys s' x = phys s x)"
proof -
  note free = two_free [OF room]
  obtain F p where a: "kalloc_phys s = Some (F, s\<lparr>pmm_state := p\<rparr>)" "F \<noteq> 0" "is_frame F"
    "unat F div 4096 \<in> free_pages (pmm_state s)" "free_pages p = free_pages (pmm_state s) - {unat F div 4096}"
    "vm_ok (s\<lparr>pmm_state := p\<rparr>)" "\<And>i. i < 1024 \<Longrightarrow> present (pd_entry s i) \<Longrightarrow> frame_of (pd_entry s i) \<noteq> F"
    by (rule kalloc_ok [OF ok]) (use free in blast)+
  let ?s1 = "s\<lparr>pmm_state := p\<rparr>"
  obtain s2 where s2: "vmm_map_user_page va F ?s1 = Some s2" "vm_ok s2" "cr3 s2 = cr3 s"
    "\<And>f j. f < 1023 \<Longrightarrow> j < 1024 \<Longrightarrow> walk (phys s2) (cr3 s) f j =
      (if f = pdi va \<and> j = pti va then Some (frame_of F) else walk (phys s) (cr3 s) f j)"
    "present (pd_entry s2 (pdi va))" "\<And>i. i < 1024 \<Longrightarrow> i \<noteq> pdi va \<Longrightarrow> pd_entry s2 i = pd_entry s i"
    "unat (frame_of (pd_entry s2 (pdi va))) div 4096 \<in> free_pages p \<or> pd_entry s2 (pdi va) = pd_entry s (pdi va)"
    "\<And>x. frame_of x \<noteq> frame_of (cr3 s) \<Longrightarrow> frame_of x \<noteq> frame_of (pd_entry s2 (pdi va)) \<Longrightarrow> phys s2 x = phys s x"
    by (rule map_user_page_ok [OF a(6) va(1), of F]) (use free a(5) in auto)
  have new: "frame_of (pd_entry s2 i) \<noteq> F" if "i < 1024" "present (pd_entry s2 i)" for i
  proof (cases "i = pdi va \<and> pd_entry s2 i \<noteq> pd_entry s i")
    case True
    then show ?thesis using s2(7) a(5) by auto
  next
    case False
    then have "pd_entry s2 i = pd_entry s i" using s2(6) that by auto
    with a(7) that show ?thesis by auto
  qed
  have w: "walk (phys s2) (cr3 s2) (pdi va) (pti va) = Some F"
    using s2(3, 4) va(1) frame_of_frame [OF a(3)] by simp
  obtain s3 where s3: "vmemset (mk (pdi va) (pti va) 0) 0 4096 s2 = Some s3" "vm_ok s3" "cr3 s3 = cr3 s2"
    "\<And>f j. f < 1024 \<Longrightarrow> j < 1024 \<Longrightarrow> walk (phys s3) (cr3 s2) f j = walk (phys s2) (cr3 s2) f j"
    "phys s3 = (\<lambda>x. if frame_of x = F then 0 else phys s2 x)"
    by (rule clear_page_ok [OF s2(2) w index_bounds(1, 2) new]) blast+
  have "mk (pdi va) (pti va) 0 = va" using mk_self [of va] va(2) by simp
  then have run: "vmm_alloc_user_page_at va s = Some (True, s3)"
    using a(1, 2) s2(1) s3(1) by (simp add: vmm_alloc_user_page_at_def)
  have tr: "translate (phys s3) (cr3 s) b = (if same_page b va then Some (F + of_nat (poff b)) else translate (phys s) (cr3 s) b)"
    if "pdi b < 1023" for b
    using s3(4) [of "pdi b" "pti b"] s2(3) s2(4) [of "pdi b" "pti b"] that frame_of_frame [OF a(3)]
    by (simp add: translate_walk same_page_def)
  have keep: "phys s3 x = phys s x"
    if x: "unat (frame_of x) div 4096 \<notin> free_pages (pmm_state s)" "\<forall>i < 1024. present (pd_entry s i) \<longrightarrow> frame_of x \<noteq> frame_of (pd_entry s i)" for x
  proof -
    have "frame_of x \<noteq> F" using x(1) a(4) by auto
    moreover have "frame_of x \<noteq> frame_of (cr3 s)"
      using x(2) [rule_format, of 1023] ok by (simp add: vm_ok_def space_ok_def self_map_def)
    moreover have "frame_of x \<noteq> frame_of (pd_entry s2 (pdi va))"
    proof (cases "pd_entry s2 (pdi va) = pd_entry s (pdi va)")
      case True
      then show ?thesis using x(2) [rule_format, OF index_bounds(1)] s2(5) by metis
    next
      case False
      then have "unat (frame_of (pd_entry s2 (pdi va))) div 4096 \<in> free_pages p" using s2(7) by simp
      then have "unat (frame_of (pd_entry s2 (pdi va))) div 4096 \<in> free_pages (pmm_state s)" unfolding a(5) by simp
      then show ?thesis using x(1) by metis
    qed
    ultimately show ?thesis using s2(8) s3(5) by simp
  qed
  have zero: "phys s3 x = 0" if "frame_of x = F" for x using that s3(5) by simp
  show ?thesis
  proof (intro exI conjI)
    show "vmm_alloc_user_page_at va s = Some (True, s3)" by (fact run)
    show "vm_ok s3" by (fact s3(2))
    show "cr3 s3 = cr3 s" using s3(3) s2(3) by simp
    show "unat F div 4096 \<in> free_pages (pmm_state s)" by (fact a(4))
    show "\<forall>b. pdi b < 1023 \<longrightarrow> translate (phys s3) (cr3 s) b =
      (if same_page b va then Some (F + of_nat (poff b)) else translate (phys s) (cr3 s) b)" using tr by simp
    show "\<forall>x. frame_of x = F \<longrightarrow> phys s3 x = 0" using zero by simp
    show "\<forall>x. unat (frame_of x) div 4096 \<notin> free_pages (pmm_state s) \<and>
      (\<forall>i < 1024. present (pd_entry s i) \<longrightarrow> frame_of x \<noteq> frame_of (pd_entry s i)) \<longrightarrow> phys s3 x = phys s x"
      using keep by simp
  qed
qed

section \<open>An example machine\<close>

text \<open>A directory in frame 1 with its recursive entry and an empty table in frame 2 for the kernel heap; the frames
  32 to 63 are free.\<close>

definition example_mem :: memory where
  "example_mem = st32 (st32 (\<lambda>_. 0) (slot 0x1000 1023) 0x1003) (slot 0x1000 772) 0x2003"

definition example_pmm :: pmm where
  "example_pmm = \<lparr>pmm_bitmap = (replicate 32768 0xFFFFFFFF)[1 := 0], usable_end_words = 2, last_alloc = 0\<rparr>"

definition example_kern :: kern where
  "example_kern = \<lparr>phys = example_mem, cr3 = 0x1000, pmm_state = example_pmm, fl_head = 0, fl_tail = 0, fl_count = 0,
     last_free = 0xC0000000, kcon = example_con\<rparr>"

lemma frame_constants: "is_frame 0x1000" "is_frame 0x2000" "frame_of 0x1000 = 0x1000" "frame_of 0x1003 = 0x1000" "frame_of 0x2003 = 0x2000"
  by (simp_all add: is_frame_def)

lemma example_entry: "i < 1024 \<Longrightarrow> entry example_mem 0x1000 i = (if i = 772 then 0x2003 else if i = 1023 then 0x1003 else 0)"
proof -
  assume i: "i < 1024"
  have "entry (\<lambda>_. 0) 0x1000 i = 0" using i by (intro entry_zero) (auto simp: is_frame_def)
  then show ?thesis unfolding example_mem_def using i by (simp add: entry_st32 frame_constants)
qed

lemma example_pmm_ok: "pmm_ok example_pmm"
  by (simp add: example_pmm_def pmm_ok_def page_used_def all_bits_set_32)

lemma example_free: "free_pages example_pmm = {32..<64}"
proof -
  have "page_used (pmm_bitmap example_pmm) p \<longleftrightarrow> p div 32 \<noteq> 1" if "p div 32 < 2" for p
    using that by (auto simp: page_used_def example_pmm_def all_bits_set_32 nth_list_update)
  then show ?thesis by (auto simp: free_pages_def managed_def example_pmm_def)
qed

lemma example_vm_ok: "vm_ok example_kern"
proof -
  have "space_ok example_mem 0x1000"
    unfolding space_ok_def self_map_def pts_inj_def using frame_constants by (auto simp: example_entry split: if_splits)
  then show ?thesis
    using example_pmm_ok frame_constants by (auto simp: vm_ok_def example_kern_def example_free example_entry split: if_splits)
qed

theorem vmm_alloc_user_page_correct_witness:
  "\<exists>s'. vmm_alloc_user_page_at 0x00400000 example_kern = Some (True, s') \<and> vm_ok s' \<and>
     translate (phys s') 0x1000 0x00400123 \<noteq> None \<and> translate (phys example_kern) 0x1000 0x00400123 = None"
proof -
  have c: "2 \<le> card (free_pages (pmm_state example_kern))" by (simp add: example_kern_def example_free)
  have f: "pdi 0x00400000 = 1" "poff 0x00400000 = 0" "pti 0x00400000 = 0" "pdi 0x00400123 = 1" "pti 0x00400123 = 0"
    by (simp_all add: pdi_eq poff_eq pti_eq)
  then have p: "pdi 0x00400000 < 1023" by simp
  have "translate (phys example_kern) 0x1000 0x00400123 = None"
    by (simp add: translate_walk walk_def example_kern_def frame_constants f example_entry)
  moreover have "cr3 example_kern = 0x1000" by (simp add: example_kern_def)
  moreover have "same_page 0x00400123 0x00400000" by (simp add: same_page_def f)
  ultimately show ?thesis
    using vmm_alloc_user_page_correct [OF example_vm_ok p f(2) c] f(4) by fastforce
qed

theorem vmm_virt_to_phys_equiv_witness:
  "vmm_virt_to_phys 0xFFFFF123 example_kern = Some 0x1123 \<and> vmm_virt_to_phys 0x00400000 example_kern = Some 0"
proof -
  have sm: "self_map (phys example_kern) (cr3 example_kern)" using example_vm_ok by (simp add: vm_ok_def space_ok_def)
  have f: "pdi 0xFFFFF123 = 1023" "pti 0xFFFFF123 = 1023" "poff 0xFFFFF123 = 0x123" "pdi 0x00400000 = 1"
    by (simp_all add: pdi_eq poff_eq pti_eq)
  have "translate (phys example_kern) (cr3 example_kern) 0xFFFFF123 = Some 0x1123"
    "translate (phys example_kern) (cr3 example_kern) 0x00400000 = None"
    by (simp_all add: translate_walk walk_def example_kern_def frame_constants f example_entry)
  then show ?thesis using vmm_virt_to_phys_equiv [OF sm] by simp
qed

end
