(* ===== verification/Vmm_Space.thy ===== *)
theory Vmm_Space
  imports Vmm_Map
begin

text \<open>
  Address spaces: what \<open>vmm_create_address_space\<close> builds through the scratch entry 1022 of the directory, and what
  \<open>vmm_destroy_address_space\<close> does instead.
\<close>

section \<open>The scratch window\<close>

text \<open>The scratch entry of the current directory names the frame \<open>N\<close>.\<close>

definition scratch :: "'a kern_scheme \<Rightarrow> u32 \<Rightarrow> bool" where
  "scratch s N \<longleftrightarrow> space_ok (phys s) (cr3 s) \<and> present (pd_entry s 1022) \<and> frame_of (pd_entry s 1022) = N"

lemma scratch_frame: "scratch s N \<Longrightarrow> is_frame N \<and> N \<noteq> frame_of (cr3 s)"
  using table_not_directory [of "phys s" "cr3 s" 1022] by (auto simp: scratch_def)

lemma scratch_keep:
  assumes "scratch s N" "\<And>x. frame_of x = frame_of (cr3 s) \<Longrightarrow> m x = phys s x"
  shows "scratch (s\<lparr>phys := m\<rparr>) N"
  using assms space_ok_cong [of "phys s" "cr3 s" m] entry_cong [of "frame_of (cr3 s)" 1022 m "phys s"]
  by (simp add: scratch_def)

lemma scratch_store:
  assumes "scratch s N" "k < 1024"
  shows "vstore32 (PD_SCRATCH_WINDOW + 4 * of_nat k) w s = Some (s\<lparr>phys := st32 (phys s) (slot N k) w\<rparr>)"
    and "scratch (s\<lparr>phys := st32 (phys s) (slot N k) w\<rparr>) N"
proof -
  have "self_map (phys s) (cr3 s)" using assms(1) by (simp add: scratch_def space_ok_def)
  then show "vstore32 (PD_SCRATCH_WINDOW + 4 * of_nat k) w s = Some (s\<lparr>phys := st32 (phys s) (slot N k) w\<rparr>)"
    unfolding pd_scratch_window [OF assms(2)] using assms by (subst vstore_window) (simp_all add: scratch_def)
  show "scratch (s\<lparr>phys := st32 (phys s) (slot N k) w\<rparr>) N"
    using scratch_frame [OF assms(1)] assms by (intro scratch_keep) (auto intro: st32_outside)
qed

lemma clear_entries_ok:
  assumes "scratch s N" "\<forall>i \<in> set is. i < 1024"
  shows "\<exists>m. clear_entries is s = Some (s\<lparr>phys := m\<rparr>) \<and> scratch (s\<lparr>phys := m\<rparr>) N \<and> (\<forall>x. frame_of x \<noteq> N \<longrightarrow> m x = phys s x) \<and>
    (\<forall>k < 1024. entry m N k = (if k \<in> set is then 0 else entry (phys s) N k))"
  using assms
proof (induction "is" arbitrary: s)
  case Nil
  then show ?case by (intro exI [of _ "phys s"]) simp
next
  case (Cons i "is")
  define m1 where "m1 = st32 (phys s) (slot N i) 0"
  have N: "is_frame N" using scratch_frame [OF Cons.prems(1)] by simp
  have i: "i < 1024" using Cons.prems by simp
  note st = scratch_store [OF Cons.prems(1) i, of 0, folded m1_def]
  obtain m where m: "clear_entries is (s\<lparr>phys := m1\<rparr>) = Some (s\<lparr>phys := m1\<rparr>\<lparr>phys := m\<rparr>)" "scratch (s\<lparr>phys := m1\<rparr>\<lparr>phys := m\<rparr>) N"
    "\<forall>x. frame_of x \<noteq> N \<longrightarrow> m x = m1 x" "\<forall>k < 1024. entry m N k = (if k \<in> set is then 0 else entry m1 N k)"
    using Cons.IH [OF st(2)] Cons.prems(2) by auto
  moreover have "entry m1 N k = (if k = i then 0 else entry (phys s) N k)" if "k < 1024" for k
    unfolding m1_def using N i that by (subst entry_st32) auto
  moreover have "m1 x = phys s x" if "frame_of x \<noteq> N" for x
    unfolding m1_def using N i that by (intro st32_outside)
  ultimately show ?case using st(1) by (intro exI [of _ m]) simp
qed

lemma vload_pd_nat:
  assumes "space_ok (phys s) (cr3 s)" "k < 1024"
  shows "vload32 (PD_WINDOW + 4 * of_nat k) s = Some (pd_entry s k)"
  unfolding pd_window [OF assms(2)] using assms by (subst vload_window) (simp_all add: space_ok_def self_map_def)

lemma vstore_pd_nat:
  assumes "space_ok (phys s) (cr3 s)" "k < 1024"
  shows "vstore32 (PD_WINDOW + 4 * of_nat k) w s = Some (s\<lparr>phys := st32 (phys s) (slot (frame_of (cr3 s)) k) w\<rparr>)"
  unfolding pd_window [OF assms(2)] using assms by (subst vstore_window) (simp_all add: space_ok_def self_map_def)

lemma copy_entries_ok:
  assumes "scratch s N" "\<forall>i \<in> set is. i < 1024"
  shows "\<exists>m. copy_entries is s = Some (s\<lparr>phys := m\<rparr>) \<and> scratch (s\<lparr>phys := m\<rparr>) N \<and> (\<forall>x. frame_of x \<noteq> N \<longrightarrow> m x = phys s x) \<and>
    (\<forall>k < 1024. entry m N k = (if k \<in> set is then pd_entry s k else entry (phys s) N k))"
  using assms
proof (induction "is" arbitrary: s)
  case Nil
  then show ?case by (intro exI [of _ "phys s"]) simp
next
  case (Cons i "is")
  let ?w = "pd_entry s i"
  define m1 where "m1 = st32 (phys s) (slot N i) ?w"
  have N: "is_frame N" "N \<noteq> frame_of (cr3 s)" using scratch_frame [OF Cons.prems(1)] by simp_all
  have i: "i < 1024" using Cons.prems by simp
  have ld: "vload32 (PD_WINDOW + 4 * of_nat i) s = Some ?w" using Cons.prems(1) i by (intro vload_pd_nat) (simp_all add: scratch_def)
  note st = scratch_store [OF Cons.prems(1) i, of ?w, folded m1_def]
  obtain m where m: "copy_entries is (s\<lparr>phys := m1\<rparr>) = Some (s\<lparr>phys := m1\<rparr>\<lparr>phys := m\<rparr>)" "scratch (s\<lparr>phys := m1\<rparr>\<lparr>phys := m\<rparr>) N"
    "\<forall>x. frame_of x \<noteq> N \<longrightarrow> m x = m1 x"
    "\<forall>k < 1024. entry m N k = (if k \<in> set is then entry m1 (frame_of (cr3 s)) k else entry m1 N k)"
    using Cons.IH [OF st(2)] Cons.prems(2) by auto
  moreover have "entry m1 N k = (if k = i then ?w else entry (phys s) N k)" if "k < 1024" for k
    unfolding m1_def using N i that by (subst entry_st32) auto
  moreover have "entry m1 (frame_of (cr3 s)) k = pd_entry s k" if "k < 1024" for k
    unfolding m1_def using N i that by (subst entry_st32) auto
  moreover have "m1 x = phys s x" if "frame_of x \<noteq> N" for x
    unfolding m1_def using N(1) i that by (rule st32_outside)
  ultimately show ?case using st(1) ld by (intro exI [of _ m]) simp
qed

section \<open>vmm_create_address_space\<close>

lemma create_space_ok:
  assumes ok: "vm_ok s" and free: "free_pages (pmm_state s) \<noteq> {}"
  obtains N s' where "vmm_create_address_space s = Some (N, s')" and "is_frame N" and "N \<noteq> 0" and "cr3 s' = cr3 s"
    and "unat N div 4096 \<in> free_pages (pmm_state s)" and "vm_ok s'"
    and "\<And>i. i < 1024 \<Longrightarrow> pd_entry s' i = (if i = 1022 then 0 else pd_entry s i)"
    and "\<And>i. i < 768 \<Longrightarrow> entry (phys s') N i = 0"
    and "\<And>i. 768 \<le> i \<Longrightarrow> i < 1022 \<Longrightarrow> entry (phys s') N i = pd_entry s i"
    and "entry (phys s') N 1022 = entry (phys s) N 1022" and "self_map (phys s') N"
    and "\<And>x. frame_of x \<noteq> frame_of (cr3 s) \<Longrightarrow> frame_of x \<noteq> N \<Longrightarrow> phys s' x = phys s x"
proof -
  obtain N p where a: "kalloc_phys s = Some (N, s\<lparr>pmm_state := p\<rparr>)" "N \<noteq> 0" "is_frame N"
    "unat N div 4096 \<in> free_pages (pmm_state s)" "free_pages p = free_pages (pmm_state s) - {unat N div 4096}"
    "vm_ok (s\<lparr>pmm_state := p\<rparr>)" "\<And>i. i < 1024 \<Longrightarrow> present (pd_entry s i) \<Longrightarrow> frame_of (pd_entry s i) \<noteq> N"
    by (rule kalloc_ok [OF ok free]) blast
  let ?P = "frame_of (cr3 s)" and ?s1 = "s\<lparr>pmm_state := p\<rparr>"
  have sp: "space_ok (phys s) (cr3 s)" using ok by (simp add: vm_ok_def)
  define e where "e = N OR PAGE_PRESENT OR PAGE_RW OR PAGE_GLOBAL"
  have e: "frame_of e = N" "present e"
    using flags_user(3, 4) [of N] frame_of_frame [OF a(3)] by (simp_all add: e_def or.assoc)
  have new: "\<forall>i < 1024. present (entry (phys s) ?P i) \<longrightarrow> frame_of (entry (phys s) ?P i) \<noteq> frame_of e" using a(7) e by simp
  define m1 where "m1 = st32 (phys s) (slot ?P 1022) e"
  have l: "(1022 :: nat) < 1023" by simp
  note s1 = st_pde [OF sp l new, folded m1_def]
  have st1: "vstore32 (PD_WINDOW + 4 * 1022) e ?s1 = Some (s\<lparr>pmm_state := p, phys := m1\<rparr>)"
    using vstore_pd_nat [of ?s1 1022 e] sp by (simp add: m1_def)
  have sc: "scratch (s\<lparr>pmm_state := p, phys := m1\<rparr>) N" using s1(1) s1(2) [of 1022] e by (simp add: scratch_def)
  have N: "N \<noteq> ?P" using scratch_frame [OF sc] by simp
  obtain m2 where m2: "clear_entries [0..<768] (s\<lparr>pmm_state := p, phys := m1\<rparr>) = Some (s\<lparr>pmm_state := p, phys := m2\<rparr>)"
    "scratch (s\<lparr>pmm_state := p, phys := m2\<rparr>) N" "\<forall>x. frame_of x \<noteq> N \<longrightarrow> m2 x = m1 x"
    "\<forall>k < 1024. entry m2 N k = (if k < 768 then 0 else entry m1 N k)"
    using clear_entries_ok [OF sc, of "[0..<768]"] by (auto simp del: upt_Suc upt_rec_numeral)
  obtain m3 where m3: "copy_entries [768..<1022] (s\<lparr>pmm_state := p, phys := m2\<rparr>) = Some (s\<lparr>pmm_state := p, phys := m3\<rparr>)"
    "scratch (s\<lparr>pmm_state := p, phys := m3\<rparr>) N" "\<forall>x. frame_of x \<noteq> N \<longrightarrow> m3 x = m2 x"
    "\<forall>k < 1024. entry m3 N k = (if 768 \<le> k \<and> k < 1022 then entry m2 ?P k else entry m2 N k)"
    using copy_entries_ok [OF m2(2), of "[768..<1022]"] by (auto simp del: upt_Suc upt_rec_numeral)
  define m4 where "m4 = st32 m3 (slot N 1023) e"
  have st4: "vstore32 (PD_SCRATCH_WINDOW + 4 * 1023) e (s\<lparr>pmm_state := p, phys := m3\<rparr>) = Some (s\<lparr>pmm_state := p, phys := m4\<rparr>)"
    and sc4: "scratch (s\<lparr>pmm_state := p, phys := m4\<rparr>) N"
    using scratch_store [OF m3(2), of 1023 e] by (simp_all add: m4_def)
  define m5 where "m5 = st32 m4 (slot ?P 1022) 0"
  have st5: "vstore32 (PD_WINDOW + 4 * 1022) 0 (s\<lparr>pmm_state := p, phys := m4\<rparr>) = Some (s\<lparr>pmm_state := p, phys := m5\<rparr>)"
    using vstore_pd_nat [of "s\<lparr>pmm_state := p, phys := m4\<rparr>" 1022 0] sc4 by (simp add: m5_def scratch_def)
  let ?s' = "s\<lparr>pmm_state := p, phys := m5\<rparr>"
  have run: "vmm_create_address_space s = Some (N, ?s')"
  proof -
    have "N OR 259 = e" by (simp add: e_def)
    then show ?thesis unfolding vmm_create_address_space_def using a(1, 2) st1 m2(1) m3(1) st4 st5
      by (simp del: upt_Suc upt_rec_numeral)
  qed
  have out4: "m4 x = m1 x" if "frame_of x \<noteq> N" for x
    using that a(3) m2(3) m3(3) by (simp add: m4_def st32_outside)
  have P4: "entry m4 ?P i = (if i = 1022 then e else pd_entry s i)" if "i < 1024" for i
    using entry_cong [of ?P i m4 m1] out4 N s1(2) [OF that] that by auto
  have P5: "entry m5 ?P i = (if i = 1022 then 0 else pd_entry s i)" if "i < 1024" for i
    unfolding m5_def using P4 [OF that] that by (subst entry_st32) auto
  have N5: "entry m5 N i = entry m4 N i" if "i < 1024" for i
    unfolding m5_def using N a(3) that by (subst entry_st32) auto
  have N4: "entry m4 N i = (if i = 1023 then e else entry m3 N i)" if "i < 1024" for i
    unfolding m4_def using a(3) that by (subst entry_st32) auto
  have P2: "entry m2 ?P i = (if i = 1022 then e else pd_entry s i)" if "i < 1024" for i
    using entry_cong [of ?P i m2 m1] m2(3) N s1(2) [OF that] that by auto
  have N1: "entry m1 N i = entry (phys s) N i" if "i < 1024" for i
    unfolding m1_def using N a(3) that by (subst entry_st32) auto
  show thesis
  proof (rule that [OF run])
    show "is_frame N" "N \<noteq> 0" "unat N div 4096 \<in> free_pages (pmm_state s)" by (fact a)+
    show "pd_entry ?s' i = (if i = 1022 then 0 else pd_entry s i)" if "i < 1024" for i using P5 [OF that] by simp
    show "entry (phys ?s') N i = 0" if "i < 768" for i
      using that N5 [of i] N4 [of i] m3(4) m2(4) by simp
    show "entry (phys ?s') N i = pd_entry s i" if "768 \<le> i" "i < 1022" for i
      using that N5 [of i] N4 [of i] m3(4) P2 [of i] by simp
    show "entry (phys ?s') N 1022 = entry (phys s) N 1022"
      using N5 [of 1022] N4 [of 1022] m3(4) m2(4) N1 [of 1022] by simp
    show "self_map (phys ?s') N"
      using N5 [of 1023] N4 [of 1023] e frame_of_frame [OF a(3)] by (simp add: self_map_def)
    have "space_ok m5 (cr3 s)"
      using sp unfolding space_ok_def self_map_def pts_inj_def by (auto simp: P5)
    then show "vm_ok ?s'" using a(6) unfolding vm_ok_def by (auto simp: P5)
    show "phys ?s' x = phys s x" if "frame_of x \<noteq> ?P" "frame_of x \<noteq> N" for x
      using that out4 [of x] s1(3) [of x] by (simp add: m5_def st32_outside)
  qed simp
qed

text \<open>Two walks agree when the directory entries and the memory of the table do.\<close>

lemma walk_entry_cong:
  assumes "entry m' (frame_of pd') f = entry m (frame_of pd) f" "j < 1024"
    and "\<And>x. present (entry m (frame_of pd) f) \<Longrightarrow> frame_of x = frame_of (entry m (frame_of pd) f) \<Longrightarrow> m' x = m x"
  shows "walk m' pd' f j = walk m pd f j"
proof -
  have "present (entry m (frame_of pd) f) \<Longrightarrow>
      entry m' (frame_of (entry m (frame_of pd) f)) j = entry m (frame_of (entry m (frame_of pd) f)) j"
    using assms(2, 3) by (intro entry_cong) auto
  with assms(1) show ?thesis by (auto simp: walk_def Let_def)
qed

text \<open>C10. \<open>vmm_create_address_space\<close> returns, with a free frame left, a new directory in a frame
  that was free.  In the new address space no user page is mapped, every kernel page below the windows is mapped as
  in the current one, and the recursive entry is in place.  The translation of the current address space is
  unchanged below the scratch entry, and its invariant holds.  The scratch entry of the new directory keeps
  whatever the frame held.\<close>

theorem vmm_create_address_space_correct:
  assumes "vm_ok s" "free_pages (pmm_state s) \<noteq> {}"
  shows "\<exists>N s'. vmm_create_address_space s = Some (N, s') \<and> N \<noteq> 0 \<and> unat N div 4096 \<in> free_pages (pmm_state s) \<and> vm_ok s' \<and> cr3 s' = cr3 s \<and>
    self_map (phys s') N \<and> entry (phys s') N 1022 = entry (phys s) N 1022 \<and>
    (\<forall>b. pdi b < 1022 \<longrightarrow> translate (phys s') (cr3 s) b = translate (phys s) (cr3 s) b \<and>
      translate (phys s') N b = (if pdi b < 768 then None else translate (phys s) (cr3 s) b))"
proof -
  obtain N s' where c: "vmm_create_address_space s = Some (N, s')" "is_frame N" "N \<noteq> 0" "cr3 s' = cr3 s"
    "unat N div 4096 \<in> free_pages (pmm_state s)" "vm_ok s'"
    "\<And>i. i < 1024 \<Longrightarrow> pd_entry s' i = (if i = 1022 then 0 else pd_entry s i)"
    "\<And>i. i < 768 \<Longrightarrow> entry (phys s') N i = 0" "\<And>i. 768 \<le> i \<Longrightarrow> i < 1022 \<Longrightarrow> entry (phys s') N i = pd_entry s i"
    "entry (phys s') N 1022 = entry (phys s) N 1022" "self_map (phys s') N"
    "\<And>x. frame_of x \<noteq> frame_of (cr3 s) \<Longrightarrow> frame_of x \<noteq> N \<Longrightarrow> phys s' x = phys s x"
    by (rule create_space_ok [OF assms]) blast
  have sp: "space_ok (phys s) (cr3 s)" using assms(1) by (simp add: vm_ok_def)
  have same: "phys s' x = phys s x" if "f < 1022" "present (pd_entry s f)" "frame_of x = frame_of (pd_entry s f)" for f x
  proof (rule c(12))
    show "frame_of x \<noteq> frame_of (cr3 s)" using table_not_directory [OF sp _ that(2)] that by simp
    have "unat (frame_of (pd_entry s f)) div 4096 \<notin> free_pages (pmm_state s)" using assms(1) that by (simp add: vm_ok_def)
    then show "frame_of x \<noteq> N" using c(5) that(3) by metis
  qed
  have cur: "walk (phys s') (cr3 s) f j = walk (phys s) (cr3 s) f j" if "f < 1022" "j < 1024" for f j
    using c(4) c(7) [of f] that same [of f] by (intro walk_entry_cong) auto
  have user: "walk (phys s') N f j = None" if "f < 768" for f j
    using c(8) [OF that] frame_of_frame [OF c(2)] by (simp add: walk_def)
  have kern: "walk (phys s') N f j = walk (phys s) (cr3 s) f j" if "768 \<le> f" "f < 1022" "j < 1024" for f j
    using c(9) [OF that(1, 2)] frame_of_frame [OF c(2)] that same [of f] by (intro walk_entry_cong) auto
  have "translate (phys s') (cr3 s) b = translate (phys s) (cr3 s) b \<and>
      translate (phys s') N b = (if pdi b < 768 then None else translate (phys s) (cr3 s) b)" if "pdi b < 1022" for b
    using cur [OF that, of "pti b"] user [of "pdi b" "pti b"] kern [of "pdi b" "pti b"] that
    by (auto simp: translate_walk)
  with c show ?thesis by blast
qed

theorem vmm_create_address_space_correct_witness:
  "\<exists>N s'. vmm_create_address_space example_kern = Some (N, s') \<and> N \<noteq> 0 \<and> self_map (phys s') N \<and> translate (phys s') N 0x00400000 = None"
proof -
  have f: "free_pages (pmm_state example_kern) \<noteq> {}" by (simp add: example_kern_def example_free)
  have "pdi 0x00400000 = 1" by (simp add: pdi_eq)
  with vmm_create_address_space_correct [OF example_vm_ok f] show ?thesis by fastforce
qed

section \<open>vmm_destroy_address_space\<close>

text \<open>C27. \<open>vmm_destroy_address_space\<close> does not reach the directory it is given.  Its first call enters the
  victim directory at index 1023, since the scratch window lies in the last directory entry, and so overwrites the
  recursive entry of the running directory.  From then on word \<open>i\<close> of the scratch window is word \<open>i\<close> of whatever frame
  entry 1022 of the victim names, an entry that \<open>vmm_create_address_space\<close> leaves as it found it; when that entry is
  not present the first read of the window is a page fault and the call does not return.\<close>

theorem vmm_destroy_faults:
  assumes "self_map (phys s) (cr3 s)" "frame_of pd_phys \<noteq> frame_of (cr3 s)"
  shows "\<exists>s1. vmm_set_pde_at PD_WINDOW PD_SCRATCH_WINDOW pd_phys (PAGE_PRESENT OR PAGE_RW) s = Some s1 \<and> cr3 s1 = cr3 s \<and>
    entry (phys s1) (frame_of (cr3 s)) 1023 = frame_of pd_phys OR (PAGE_PRESENT OR PAGE_RW) \<and>
    (\<forall>i < 1024. translate (phys s1) (cr3 s1) (PD_SCRATCH_WINDOW + 4 * of_nat i) =
       (if present (entry (phys s) (frame_of pd_phys) 1022)
        then Some (frame_of (entry (phys s) (frame_of pd_phys) 1022) + 4 * of_nat i) else None)) \<and>
    (\<not> present (entry (phys s) (frame_of pd_phys) 1022) \<longrightarrow>
       vload32 PD_SCRATCH_WINDOW s1 = None \<and> vmm_destroy_address_space pd_phys s = None)"
proof -
  let ?P = "frame_of (cr3 s)" and ?V = "frame_of pd_phys"
  define e where "e = ?V OR (PAGE_PRESENT OR PAGE_RW)"
  have e: "frame_of e = ?V" "present e" unfolding e_def by (rule flags_user)+
  define m where "m = st32 (phys s) (slot ?P 1023) e"
  have "pdi PD_SCRATCH_WINDOW = 1023" by (simp add: pdi_eq)
  then have "PD_WINDOW + 4 * drop_bit 22 PD_SCRATCH_WINDOW = mk 1023 1023 (4 * 1023)"
    using pd_window [of 1023] by (simp add: drop_bit_of_fields)
  then have st: "vmm_set_pde_at PD_WINDOW PD_SCRATCH_WINDOW pd_phys (PAGE_PRESENT OR PAGE_RW) s = Some (s\<lparr>phys := m\<rparr>)"
    unfolding vmm_set_pde_at_def using assms(1) vstore_window [of s 1023 1023]
    by (simp add: m_def e_def self_map_def)
  have me: "entry m ?P 1023 = e" "entry m ?V 1022 = entry (phys s) ?V 1022"
    unfolding m_def using assms(2) by (simp_all add: entry_st32)
  then have w: "walk m (cr3 s) 1023 1022 = (if present (entry (phys s) ?V 1022) then Some (frame_of (entry (phys s) ?V 1022)) else None)"
    using e by (simp add: walk_def Let_def)
  have tr: "translate m (cr3 s) (PD_SCRATCH_WINDOW + 4 * of_nat i) =
      (if present (entry (phys s) ?V 1022) then Some (frame_of (entry (phys s) ?V 1022) + 4 * of_nat i) else None)" if "i < 1024" for i
    using pd_scratch_window [OF that] translate_mk [of 1023 1022 "4 * i" m "cr3 s"] that by (simp add: w)
  have f: "vload32 PD_SCRATCH_WINDOW (s\<lparr>phys := m\<rparr>) = None \<and> vmm_destroy_address_space pd_phys s = None"
    if np: "\<not> present (entry (phys s) ?V 1022)"
  proof -
    have l: "vload32 PD_SCRATCH_WINDOW (s\<lparr>phys := m\<rparr>) = None" using tr [of 0] np by (simp add: vload32_def)
    have "[0..<768] = 0 # [Suc 0..<768]" by (rule upt_conv_Cons) simp
    then have "free_tables [0..<768] (s\<lparr>phys := m\<rparr>) = None" using l by (simp del: upt_Suc upt_rec_numeral)
    then show ?thesis using l st by (simp add: vmm_destroy_address_space_def del: upt_Suc upt_rec_numeral)
  qed
  show ?thesis
    by (rule exI [of _ "s\<lparr>phys := m\<rparr>"]) (use st me(1) tr f in \<open>simp add: e_def\<close>)
qed

theorem vmm_destroy_faults_witness:
  "\<exists>N s'. vmm_create_address_space example_kern = Some (N, s') \<and> vmm_destroy_address_space N s' = None"
proof -
  have f: "free_pages (pmm_state example_kern) \<noteq> {}" by (simp add: example_kern_def example_free)
  obtain N s' where c: "vmm_create_address_space example_kern = Some (N, s')" "is_frame N" "cr3 s' = cr3 example_kern"
    "unat N div 4096 \<in> free_pages (pmm_state example_kern)" "vm_ok s'" "entry (phys s') N 1022 = entry (phys example_kern) N 1022"
    by (rule create_space_ok [OF example_vm_ok f]) blast
  have "unat N div 4096 \<in> {32..<64}" using c(4) by (simp add: example_kern_def example_free)
  then have N: "N \<noteq> 0x1000" by auto
  have "entry (phys example_kern) N 1022 = 0"
  proof -
    have "entry (\<lambda>_. 0) N 1022 = 0" using c(2) by (intro entry_zero) auto
    then show ?thesis using N c(2) by (auto simp: example_kern_def example_mem_def entry_st32 frame_constants)
  qed
  then have "\<not> present (entry (phys s') (frame_of N) 1022)" using c(6) frame_of_frame [OF c(2)] by simp
  moreover have "frame_of N \<noteq> frame_of (cr3 s')" using N c(2, 3) frame_of_frame [OF c(2)] by (simp add: example_kern_def frame_constants)
  moreover have "self_map (phys s') (cr3 s')" using c(5) by (simp add: vm_ok_def space_ok_def)
  ultimately show ?thesis using vmm_destroy_faults [of s' N] c(1) by blast
qed

end
