(* ===== verification/Kmem.thy ===== *)
theory Kmem
  imports Memory Vmm_Space
begin

text \<open>
  Kernel memory: the words of the heap region, \<open>0xC1000000\<close> up to \<open>0xC2000000\<close>, as the page tables give them.  The
  invariant speaks of a set of page directories that share the tables of the region, so that it also holds after a
  switch to the address space of another process.  The laws of the memory interface are proved for it.
\<close>

section \<open>The operations\<close>

definition kern_mem :: "'a kern_scheme mem_ops" where
  "kern_mem = \<lparr>mem_load = vload32, mem_store = vstore32,
     mem_page = (\<lambda>a s. map_option (\<lambda>(b, s). (of_bool b, s)) (vmm_alloc_kernel_page_at a s))\<rparr>"

section \<open>The invariant\<close>

definition heap_pde :: "nat \<Rightarrow> bool" where
  "heap_pde f \<longleftrightarrow> 772 \<le> f \<and> f < 776"

text \<open>The frames that hold the data of the region, and those that hold directories and tables.\<close>

definition table_frames :: "u32 set \<Rightarrow> memory \<Rightarrow> u32 set" where
  "table_frames D m = {frame_of (entry m (frame_of pd) i) | pd i. pd \<in> D \<and> i < 1024 \<and> present (entry m (frame_of pd) i)}"

definition tables_ok :: "u32 set \<Rightarrow> memory \<Rightarrow> bool" where
  "tables_ok D m \<longleftrightarrow> (\<forall>pd \<in> D. space_ok m pd) \<and>
     (\<forall>pd \<in> D. \<forall>pd' \<in> D. \<forall>f. heap_pde f \<longrightarrow> present (entry m (frame_of pd) f) \<and> entry m (frame_of pd) f = entry m (frame_of pd') f)"

definition data_ok :: "u32 set \<Rightarrow> memory \<Rightarrow> u32 \<Rightarrow> bool" where
  "data_ok D m pd \<longleftrightarrow>
     (\<forall>f j F. heap_pde f \<and> j < 1024 \<and> walk m pd f j = Some F \<longrightarrow> F \<notin> table_frames D m) \<and>
     (\<forall>f j f' j' F. heap_pde f \<and> j < 1024 \<and> heap_pde f' \<and> j' < 1024 \<and> walk m pd f j = Some F \<and> walk m pd f' j' = Some F
        \<longrightarrow> f = f' \<and> j = j')"

definition data_frames :: "memory \<Rightarrow> u32 \<Rightarrow> u32 set" where
  "data_frames m pd = {F. \<exists>f j. heap_pde f \<and> j < 1024 \<and> walk m pd f j = Some F}"

definition frames_used :: "u32 set \<Rightarrow> pmm \<Rightarrow> bool" where
  "frames_used S p \<longleftrightarrow> (\<forall>F \<in> S. unat F div 4096 \<notin> free_pages p)"

definition kmem_ok :: "u32 set \<Rightarrow> 'a kern_scheme \<Rightarrow> bool" where
  "kmem_ok D s \<longleftrightarrow> pmm_ok (pmm_state s) \<and> con_ok (kcon s) \<and> cr3 s \<in> D \<and> tables_ok D (phys s) \<and> data_ok D (phys s) (cr3 s) \<and>
     frames_used (table_frames D (phys s) \<union> data_frames (phys s) (cr3 s)) (pmm_state s)"

definition kmem_here :: "'a kern_scheme \<Rightarrow> u32 \<Rightarrow> bool" where
  "kmem_here s a \<longleftrightarrow> a AND 3 = 0 \<and> heap_pde (pdi a) \<and> walk (phys s) (cr3 s) (pdi a) (pti a) \<noteq> None"

lemma heap_pde_bound: "heap_pde f \<Longrightarrow> f < 1023" "heap_pde f \<Longrightarrow> f < 1024"
  by (simp_all add: heap_pde_def)

text \<open>A change to memory that leaves the directories and tables alone.\<close>

lemma table_framesI: "pd \<in> D \<Longrightarrow> i < 1024 \<Longrightarrow> present (entry m (frame_of pd) i) \<Longrightarrow> frame_of (entry m (frame_of pd) i) \<in> table_frames D m"
  by (auto simp: table_frames_def)

lemma directory_frame: "tables_ok D m \<Longrightarrow> pd \<in> D \<Longrightarrow> frame_of pd \<in> table_frames D m"
  using table_framesI [of pd D 1023 m] by (auto simp: tables_ok_def space_ok_def self_map_def)

lemma same_entries:
  assumes "tables_ok D m" "\<forall>pd \<in> D. space_ok m' pd" "\<forall>pd \<in> D. \<forall>i < 1024. entry m' (frame_of pd) i = entry m (frame_of pd) i"
  shows "tables_ok D m'" "table_frames D m' = table_frames D m"
proof -
  show "table_frames D m' = table_frames D m" unfolding table_frames_def by (intro Collect_cong ex_cong1) (use assms(3) in auto)
  show "tables_ok D m'" unfolding tables_ok_def
  proof (intro conjI ballI allI impI)
    fix pd pd' f assume a: "pd \<in> D" "pd' \<in> D" "heap_pde f"
    then have e: "entry m' (frame_of pd) f = entry m (frame_of pd) f" "entry m' (frame_of pd') f = entry m (frame_of pd') f"
      using assms(3) heap_pde_bound(2) by blast+
    have "present (entry m (frame_of pd) f)" "entry m (frame_of pd) f = entry m (frame_of pd') f"
      using assms(1) a unfolding tables_ok_def by blast+
    then show "present (entry m' (frame_of pd) f)" "entry m' (frame_of pd) f = entry m' (frame_of pd') f"
      unfolding e by simp_all
  qed (use assms(2) in blast)
qed

lemma tables_cong:
  assumes "tables_ok D m" "\<And>x. frame_of x \<in> table_frames D m \<Longrightarrow> m' x = m x"
  shows "tables_ok D m'" "table_frames D m' = table_frames D m"
    "pd \<in> D \<Longrightarrow> f < 1024 \<Longrightarrow> j < 1024 \<Longrightarrow> walk m' pd f j = walk m pd f j"
    "pd \<in> D \<Longrightarrow> i < 1024 \<Longrightarrow> entry m' (frame_of pd) i = entry m (frame_of pd) i"
proof -
  have dir: "m' x = m x" if "pd \<in> D" "frame_of x = frame_of pd" for x pd
    using assms(2) directory_frame [OF assms(1) that(1)] that(2) by simp
  have e: "entry m' (frame_of pd) i = entry m (frame_of pd) i" if "pd \<in> D" "i < 1024" for pd i
    using dir that by (intro entry_cong) auto
  then show "pd \<in> D \<Longrightarrow> i < 1024 \<Longrightarrow> entry m' (frame_of pd) i = entry m (frame_of pd) i" .
  have "\<forall>pd \<in> D. space_ok m' pd" using assms(1) dir space_ok_cong [of m] by (auto simp: tables_ok_def)
  from same_entries [OF assms(1) this] e show "tables_ok D m'" "table_frames D m' = table_frames D m" by simp_all
  show "walk m' pd f j = walk m pd f j" if "pd \<in> D" "f < 1024" "j < 1024"
  proof (rule walk_cong)
    show "m' x = m x" if "frame_of x = frame_of pd" for x using dir [OF \<open>pd \<in> D\<close> that] .
    show "m' x = m x" if "present (entry m (frame_of pd) f)" "frame_of x = frame_of (entry m (frame_of pd) f)" for x
      using assms(2) table_framesI [OF \<open>pd \<in> D\<close> \<open>f < 1024\<close> that(1)] that(2) by simp
  qed (use that in simp_all)
qed

lemma data_cong:
  assumes "data_ok D m pd" "table_frames D m' = table_frames D m" "\<forall>f j. heap_pde f \<and> j < 1024 \<longrightarrow> walk m' pd f j = walk m pd f j"
  shows "data_ok D m' pd" "data_frames m' pd = data_frames m pd"
proof -
  show "data_ok D m' pd" using assms(1) unfolding data_ok_def assms(2) using assms(3) by (metis (no_types))
  show "data_frames m' pd = data_frames m pd" unfolding data_frames_def using assms(3) by metis
qed

lemma kmem_cong:
  assumes ok: "kmem_ok D s" and m: "\<And>x. frame_of x \<in> table_frames D (phys s) \<Longrightarrow> m' x = phys s x"
  shows "kmem_ok D (s\<lparr>phys := m'\<rparr>)" "kmem_here (s\<lparr>phys := m'\<rparr>) = kmem_here s"
    "f < 1024 \<Longrightarrow> j < 1024 \<Longrightarrow> walk m' (cr3 s) f j = walk (phys s) (cr3 s) f j"
proof -
  have t: "tables_ok D (phys s)" "cr3 s \<in> D" using ok by (auto simp: kmem_ok_def)
  note c = tables_cong [OF t(1), of m', OF m]
  have w: "walk m' (cr3 s) f j = walk (phys s) (cr3 s) f j" if "f < 1024" "j < 1024" for f j using c(3) [OF _ t(2) that] .
  then show "f < 1024 \<Longrightarrow> j < 1024 \<Longrightarrow> walk m' (cr3 s) f j = walk (phys s) (cr3 s) f j" .
  have "data_ok D m' (cr3 s)" "data_frames m' (cr3 s) = data_frames (phys s) (cr3 s)"
    using data_cong [of D "phys s" "cr3 s" m'] c(2) w ok heap_pde_bound by (auto simp: kmem_ok_def)
  then show "kmem_ok D (s\<lparr>phys := m'\<rparr>)" using ok c(1, 2) by (simp add: kmem_ok_def)
  show "kmem_here (s\<lparr>phys := m'\<rparr>) = kmem_here s" using w by (simp add: kmem_here_def fun_eq_iff)
qed

section \<open>Loads and stores\<close>

lemma poff_aligned: "a AND 3 = 0 \<longleftrightarrow> poff a mod 4 = 0"
proof -
  have "(a :: u32) AND 3 = take_bit 2 a" by (simp add: take_bit_eq_mask mask_eq_exp_minus_1)
  then have "a AND 3 = 0 \<longleftrightarrow> unat a mod 4 = 0" by (simp add: unat_eq_0 [symmetric] unsigned_take_bit_eq take_bit_eq_mod unat_mod)
  also have "unat a mod 4 = poff a mod 4" by (simp add: poff_eq mod_mod_cancel)
  finally show ?thesis .
qed

lemma here_slot:
  assumes "kmem_here s a"
  obtains F k where "walk (phys s) (cr3 s) (pdi a) (pti a) = Some F" "poff a = 4 * k" "k < 1024" "is_frame F"
    "vload32 a s = Some (entry (phys s) F k)"
    "\<And>w. vstore32 a w s = Some (s\<lparr>phys := st32 (phys s) (slot F k) w\<rparr>)"
proof -
  obtain F where F: "walk (phys s) (cr3 s) (pdi a) (pti a) = Some F" and al: "a AND 3 = 0" using assms by (auto simp: kmem_here_def)
  obtain k where k: "poff a = 4 * k" using al poff_aligned [of a] by (auto elim: dvdE simp: mod_eq_0_iff_dvd)
  have t: "translate (phys s) (cr3 s) a = Some (slot F k)" using F k by (simp add: translate_walk slot_def)
  show thesis
  proof (rule that [OF F k])
    show "k < 1024" using index_bounds(3) [of a] k by simp
    show "is_frame F" using walk_frame [OF F] .
    show "vload32 a s = Some (entry (phys s) F k)" using al t by (simp add: vload32_def entry_def)
    show "vstore32 a w s = Some (s\<lparr>phys := st32 (phys s) (slot F k) w\<rparr>)" for w using al t by (simp add: vstore32_def)
  qed
qed

lemma kern_store:
  assumes ok: "kmem_ok D s" and a: "kmem_here s a"
  shows "\<exists>s'. vstore32 a w s = Some s' \<and> kmem_ok D s' \<and> kmem_here s' = kmem_here s \<and>
    (\<forall>b. kmem_here s b \<longrightarrow> vload32 b s' = (if b = a then Some w else vload32 b s))"
proof -
  obtain F k where F: "walk (phys s) (cr3 s) (pdi a) (pti a) = Some F" "poff a = 4 * k" "k < 1024" "is_frame F"
    "vstore32 a w s = Some (s\<lparr>phys := st32 (phys s) (slot F k) w\<rparr>)" using here_slot [OF a] by metis
  have hp: "heap_pde (pdi a)" using a by (simp add: kmem_here_def)
  have nt: "F \<notin> table_frames D (phys s)" using ok F(1) hp index_bounds(2) unfolding kmem_ok_def data_ok_def by blast
  let ?s' = "s\<lparr>phys := st32 (phys s) (slot F k) w\<rparr>"
  have m: "st32 (phys s) (slot F k) w x = phys s x" if "frame_of x \<in> table_frames D (phys s)" for x
    using nt that F(3, 4) by (intro st32_outside) auto
  note c = kmem_cong [OF ok, of "st32 (phys s) (slot F k) w", OF m]
  have "vload32 b ?s' = (if b = a then Some w else vload32 b s)" if b: "kmem_here s b" for b
  proof -
    obtain G l where G: "walk (phys s) (cr3 s) (pdi b) (pti b) = Some G" "poff b = 4 * l" "l < 1024" "is_frame G"
      "vload32 b s = Some (entry (phys s) G l)" using here_slot [OF b] by metis
    obtain G' l' where G': "walk (phys ?s') (cr3 ?s') (pdi b) (pti b) = Some G'" "poff b = 4 * l'"
      "vload32 b ?s' = Some (entry (phys ?s') G' l')" using here_slot [of ?s' b] b c(2) by metis
    have "G' = G" "l' = l" using G' G c(3) [OF _ index_bounds(1) index_bounds(2)] by simp_all
    with G' have "vload32 b ?s' = Some (if F = G \<and> k = l then w else entry (phys s) G l)"
      using F(3, 4) G(3, 4) by (simp add: entry_st32)
    moreover have "F = G \<and> k = l \<longleftrightarrow> b = a"
    proof
      assume e: "F = G \<and> k = l"
      have "heap_pde (pdi b)" using b by (simp add: kmem_here_def)
      then have "pdi a = pdi b \<and> pti a = pti b" using ok hp F(1) G(1) e unfolding kmem_ok_def data_ok_def by (meson index_bounds(2))
      then show "b = a" using mk_self [of a] mk_self [of b] e F(2) G(2) by simp
    qed (use F G in auto)
    ultimately show ?thesis using G(5) by simp
  qed
  then show ?thesis using F(5) c(1, 2) by auto
qed

lemma kern_load: "kmem_here s a \<Longrightarrow> \<exists>w. vload32 a s = Some w"
  using here_slot by metis

section \<open>A new page\<close>

lemma kmem_vm_ok: "kmem_ok D s \<Longrightarrow> vm_ok s"
  using table_framesI [of "cr3 s" D _ "phys s"] by (auto simp: kmem_ok_def vm_ok_def tables_ok_def frames_used_def)

text \<open>The memory after the entry \<open>j\<close> of the shared table \<open>f\<close> has been set and the new page cleared.\<close>

lemma new_page_tables:
  assumes ok: "kmem_ok D s" and f: "heap_pde f" and j: "j < 1024"
    and F: "is_frame F" "unat F div 4096 \<in> free_pages (pmm_state s)" and e: "present e" "frame_of e = F"
  defines "m' \<equiv> (\<lambda>x. if frame_of x = F then 0 else st32 (phys s) (slot (frame_of (pd_entry s f)) j) e x)"
  shows "tables_ok D m'" "table_frames D m' = table_frames D (phys s)"
    "f' < 1024 \<Longrightarrow> j' < 1024 \<Longrightarrow> walk m' (cr3 s) f' j' = (if f' = f \<and> j' = j then Some F else walk (phys s) (cr3 s) f' j')"
proof -
  define m1 where "m1 = st32 (phys s) (slot (frame_of (pd_entry s f)) j) e"
  have t: "tables_ok D (phys s)" "cr3 s \<in> D" using ok by (auto simp: kmem_ok_def)
  have sp: "space_ok (phys s) pd" if "pd \<in> D" for pd using t(1) that by (simp add: tables_ok_def)
  have sh: "present (entry (phys s) (frame_of pd) f)" "entry (phys s) (frame_of pd) f = pd_entry s f" if "pd \<in> D" for pd
    using t that f unfolding tables_ok_def by blast+
  have s1: "space_ok m1 pd" "\<And>i. i < 1024 \<Longrightarrow> entry m1 (frame_of pd) i = entry (phys s) (frame_of pd) i" if "pd \<in> D" for pd
    using st_pte(1, 2) [OF sp [OF that] heap_pde_bound(1) [OF f] j sh(1) [OF that], where w = e] sh(2) [OF that] by (simp_all add: m1_def)
  have w1: "walk m1 (cr3 s) f' j' = (if f' = f \<and> j' = j then Some F else walk (phys s) (cr3 s) f' j')"
    if "f' < 1024" "j' < 1024" for f' j'
    using st_pte(3) [OF sp [OF t(2)] heap_pde_bound(1) [OF f] j sh(1) [OF t(2)] that, where w = e] e by (simp add: m1_def)
  have t1: "tables_ok D m1" and tf1: "table_frames D m1 = table_frames D (phys s)" using same_entries [OF t(1)] s1 by (auto simp del: not_None_eq)
  have "F \<notin> table_frames D (phys s)" using ok F(2) by (auto simp: kmem_ok_def frames_used_def)
  then have m': "m' x = m1 x" if "frame_of x \<in> table_frames D m1" for x using that tf1 by (auto simp: m'_def m1_def)
  note c = tables_cong [OF t1, of m', OF m']
  show "tables_ok D m'" "table_frames D m' = table_frames D (phys s)" using c(1, 2) tf1 by simp_all
  show "f' < 1024 \<Longrightarrow> j' < 1024 \<Longrightarrow> walk m' (cr3 s) f' j' = (if f' = f \<and> j' = j then Some F else walk (phys s) (cr3 s) f' j')"
    using c(3) t(2) w1 by simp
qed

lemma new_page_data:
  assumes ok: "kmem_ok D s" and f: "heap_pde f" and j: "j < 1024" and none: "walk (phys s) (cr3 s) f j = None"
    and F: "unat F div 4096 \<in> free_pages (pmm_state s)"
    and tf: "table_frames D m' = table_frames D (phys s)"
    and w: "\<forall>f' j'. f' < 1024 \<and> j' < 1024 \<longrightarrow> walk m' (cr3 s) f' j' = (if f' = f \<and> j' = j then Some F else walk (phys s) (cr3 s) f' j')"
  shows "data_ok D m' (cr3 s)" "data_frames m' (cr3 s) = insert F (data_frames (phys s) (cr3 s))"
proof -
  have fresh: "F \<notin> table_frames D (phys s)" "F \<notin> data_frames (phys s) (cr3 s)"
    using ok F by (auto simp: kmem_ok_def frames_used_def)
  have w': "walk m' (cr3 s) f' j' = (if f' = f \<and> j' = j then Some F else walk (phys s) (cr3 s) f' j')"
    if "heap_pde f'" "j' < 1024" for f' j' using w that heap_pde_bound(2) by blast
  have old: "G \<in> data_frames (phys s) (cr3 s)" if "walk (phys s) (cr3 s) f' j' = Some G" "heap_pde f'" "j' < 1024" for f' j' G
    using that by (auto simp: data_frames_def)
  have d: "data_ok D (phys s) (cr3 s)" using ok by (simp add: kmem_ok_def)
  show "data_ok D m' (cr3 s)" unfolding data_ok_def tf
  proof (intro conjI allI impI)
    fix f' j' G assume "heap_pde f' \<and> j' < 1024 \<and> walk m' (cr3 s) f' j' = Some G"
    then show "G \<notin> table_frames D (phys s)" using w' [of f' j'] d fresh(1) unfolding data_ok_def by (auto split: if_splits)
  next
    fix f1 j1 f2 j2 G
    assume a: "heap_pde f1 \<and> j1 < 1024 \<and> heap_pde f2 \<and> j2 < 1024 \<and> walk m' (cr3 s) f1 j1 = Some G \<and> walk m' (cr3 s) f2 j2 = Some G"
    have "f1 = f2 \<and> j1 = j2" 
    proof (cases "G = F")
      case True
      have "f' = f \<and> j' = j" if "heap_pde f'" "j' < 1024" "walk m' (cr3 s) f' j' = Some G" for f' j'
        using that w' [of f' j'] old [of f' j' G] True fresh(2) by (auto split: if_splits)
      with a show ?thesis by metis
    next
      case False
      then have "walk (phys s) (cr3 s) f1 j1 = Some G" "walk (phys s) (cr3 s) f2 j2 = Some G"
        using a w' [of f1 j1] w' [of f2 j2] by (metis option.inject)+
      with a d show ?thesis unfolding data_ok_def by blast
    qed
    then show "f1 = f2" "j1 = j2" by simp_all
  qed
  show "data_frames m' (cr3 s) = insert F (data_frames (phys s) (cr3 s))"
  proof (intro set_eqI iffI)
    fix G assume "G \<in> data_frames m' (cr3 s)"
    then show "G \<in> insert F (data_frames (phys s) (cr3 s))" using w' by (auto simp: data_frames_def split: if_splits)
  next
    fix G assume "G \<in> insert F (data_frames (phys s) (cr3 s))"
    then show "G \<in> data_frames m' (cr3 s)"
    proof
      assume "G = F"
      then show ?thesis using w' [OF f j] f j unfolding data_frames_def by auto
    next
      assume "G \<in> data_frames (phys s) (cr3 s)"
      then obtain f' j' where "heap_pde f'" "j' < 1024" "walk (phys s) (cr3 s) f' j' = Some G" by (auto simp: data_frames_def)
      moreover from this have "\<not> (f' = f \<and> j' = j)" using none by auto
      ultimately have "heap_pde f' \<and> j' < 1024 \<and> walk m' (cr3 s) f' j' = Some G" using w' [of f' j'] by auto
      then show ?thesis unfolding data_frames_def by blast
    qed
  qed
qed

lemma new_page_here:
  assumes f: "heap_pde (pdi a)" and a: "poff a = 0"
    and w: "\<forall>f j. f < 1024 \<and> j < 1024 \<longrightarrow> walk (phys s') (cr3 s) f j = (if f = pdi a \<and> j = pti a then Some F else walk (phys s) (cr3 s) f j)"
    and c: "cr3 s' = cr3 s"
  shows "kmem_here s' b \<longleftrightarrow> kmem_here s b \<or> b AND 3 = 0 \<and> frame_of b = a"
proof -
  have "frame_of b = a \<longleftrightarrow> pdi b = pdi a \<and> pti b = pti a"
  proof
    assume e: "frame_of b = a"
    have "unat a div 4096 = unat b div 4096" using e unat_frame [of b] by simp
    then have "pti b = pti a" by (simp add: pti_eq)
    moreover have "unat b div 4194304 = unat a div 4194304"
      using \<open>unat a div 4096 = unat b div 4096\<close> div_mult2_eq [of "unat a" 4096 1024] div_mult2_eq [of "unat b" 4096 1024] by simp
    ultimately show "pdi b = pdi a \<and> pti b = pti a" by (simp add: pdi_eq)
  next
    assume e: "pdi b = pdi a \<and> pti b = pti a"
    have "unat x = pdi x * 4194304 + pti x * 4096 + poff x" for x
      using mk_fields(1) [of "pdi x" "pti x" "poff x"] mk_self [of x] by simp
    then have "unat b = unat a + poff b" using e a by (metis add_0_right)
    then have "unat (frame_of b) = unat (frame_of a)" using unat_frame [of a] unat_frame [of b] a index_bounds(3) [of b]
      by (simp add: poff_eq) (metis div_mult_self1_is_m div_mult_self4 add.commute dvd_mult_div_cancel mod_0_imp_dvd mod_less div_add1_eq Nat.add_0_right div_less mod_div_trivial)
    moreover have "frame_of a = a" using a by (intro frame_of_frame) (simp add: is_frame_def poff_eq)
    ultimately show "frame_of b = a" by (simp add: word_unat_eq_iff)
  qed
  then show ?thesis using w f c by (auto simp: kmem_here_def)
qed

lemma kprintf_text:
  assumes "kmem_ok D s" "fmt_ok format args"
  shows "\<exists>con. kprintf format args s = Some (s\<lparr>kcon := con\<rparr>) \<and> con_ok con"
  using printf_ok [OF _ assms(2), of "kcon s"] assms(1) by (auto simp: kprintf_def kmem_ok_def)

lemma kmem_con: "kmem_ok D s \<Longrightarrow> con_ok con \<Longrightarrow> kmem_ok D (s\<lparr>kcon := con\<rparr>)" "kmem_here (s\<lparr>kcon := con\<rparr>) = kmem_here s"
  "vload32 a (s\<lparr>kcon := con\<rparr>) = vload32 a s"
  by (simp_all add: kmem_ok_def kmem_here_def fun_eq_iff vload32_def)

lemma no_page_text: "fmt_ok (''vmm: failed to allocate physical page'' @ [CHR 0x0A]) []"
  by simp

definition kmem_room :: "'a kern_scheme \<Rightarrow> nat" where
  "kmem_room s = card (free_pages (pmm_state s))"

lemma free_pages_finite: "pmm_ok p \<Longrightarrow> finite (free_pages p)"
  using pmm_pages.pages_bound [of p] pmm_pages.avail_pages [of p] by (intro finite_subset [of "free_pages p" "{..<1048576}"]) auto

lemma map_and_clear:
  assumes sp: "space_ok (phys s) (cr3 s)" and f: "pdi a < 1023" "poff a = 0" and pr: "present (pd_entry s (pdi a))"
    and F: "is_frame F" "F \<noteq> frame_of (cr3 s)" "F \<noteq> frame_of (pd_entry s (pdi a))"
  shows "do { s \<leftarrow> vmm_map_kernel_page a F s; vmemset a 0 4096 s } = Some (s\<lparr>phys := \<lambda>x. if frame_of x = F then 0 else
    st32 (phys s) (slot (frame_of (pd_entry s (pdi a))) (pti a)) (frame_of F OR (PAGE_PRESENT OR PAGE_RW OR PAGE_GLOBAL)) x\<rparr>)"
proof -
  define e where "e = frame_of F OR (PAGE_PRESENT OR PAGE_RW OR PAGE_GLOBAL)"
  have e: "present e" "frame_of e = F" using flags_user(3, 4) [of F] frame_of_frame [OF F(1)] by (simp_all add: e_def)
  define m1 where "m1 = st32 (phys s) (slot (frame_of (pd_entry s (pdi a))) (pti a)) e"
  have 1: "vmm_map_kernel_page a F s = Some (s\<lparr>phys := m1\<rparr>)"
    unfolding vmm_map_kernel_page_def set_pte_at [OF sp pr] by (simp add: m1_def e_def)
  note st = st_pte [OF sp f(1) index_bounds(2) [of a] pr, where w = e, folded m1_def]
  have w: "walk m1 (cr3 s) (pdi a) (pti a) = Some F" using st(3) [of "pdi a" "pti a"] e by simp
  have 2: "vmemset (mk (pdi a) (pti a) 0) 0 4096 (s\<lparr>phys := m1\<rparr>) =
    Some (s\<lparr>phys := m1, phys := \<lambda>x. if frame_of x = F then 0 else phys (s\<lparr>phys := m1\<rparr>) x\<rparr>)"
    using w F st(2) [of "pdi a"] by (intro vmemset_page) simp_all
  have "mk (pdi a) (pti a) 0 = a" using mk_self [of a] f(2) by simp
  then show ?thesis unfolding 1 e_def [symmetric] m1_def [symmetric] using 2 by (simp cong: if_cong)
qed

lemma kern_page:
  assumes ok: "kmem_ok D s" and a: "heap_pde (pdi a)" "poff a = 0" and none: "\<not> kmem_here s a"
  shows "\<exists>p s'. vmm_alloc_kernel_page_at a s = Some (p, s') \<and> kmem_ok D s' \<and>
    (\<forall>b. kmem_here s b \<longrightarrow> vload32 b s' = vload32 b s) \<and>
    (\<forall>b. kmem_here s' b \<longleftrightarrow> kmem_here s b \<or> p \<and> b AND 3 = 0 \<and> frame_of b = a) \<and>
    (\<not> p \<longleftrightarrow> kmem_room s = 0) \<and> kmem_room s' = kmem_room s - 1"
proof (cases "free_pages (pmm_state s) = {}")
  case True
  obtain con where c: "kprintf (''vmm: failed to allocate physical page'' @ [CHR 0x0A]) [] s = Some (s\<lparr>kcon := con\<rparr>)" "con_ok con"
    using kprintf_text [OF ok no_page_text] by blast
  have "vmm_alloc_kernel_page_at a s = Some (False, s\<lparr>kcon := con\<rparr>)"
    using kalloc_none [OF kmem_vm_ok [OF ok] True] c(1) by (simp add: vmm_alloc_kernel_page_at_def)
  then show ?thesis using kmem_con(1) [OF ok c(2)] by (intro exI [of _ False] exI [of _ "s\<lparr>kcon := con\<rparr>"]) (simp add: kmem_con(2, 3) kmem_room_def True)
next
  case False
  obtain F p where F: "kalloc_phys s = Some (F, s\<lparr>pmm_state := p\<rparr>)" "F \<noteq> 0" "is_frame F"
    "unat F div 4096 \<in> free_pages (pmm_state s)" "free_pages p = free_pages (pmm_state s) - {unat F div 4096}" "vm_ok (s\<lparr>pmm_state := p\<rparr>)"
    using kalloc_ok [OF kmem_vm_ok [OF ok] False] by metis
  have t: "tables_ok D (phys s)" "cr3 s \<in> D" using ok by (simp_all add: kmem_ok_def)
  then have sp: "space_ok (phys s) (cr3 s)" by (simp add: tables_ok_def)
  have pr: "present (pd_entry s (pdi a))" using t a(1) unfolding tables_ok_def by blast
  have fresh: "F \<notin> table_frames D (phys s)" "F \<notin> data_frames (phys s) (cr3 s)"
    using ok F(4) by (auto simp: kmem_ok_def frames_used_def)
  have T: "frame_of (pd_entry s (pdi a)) \<in> table_frames D (phys s)" "frame_of (cr3 s) \<in> table_frames D (phys s)"
    using table_framesI [OF t(2) index_bounds(1) pr] directory_frame [OF t] by simp_all
  define e where "e = frame_of F OR (PAGE_PRESENT OR PAGE_RW OR PAGE_GLOBAL)"
  have e: "present e" "frame_of e = F" using flags_user(3, 4) [of F] frame_of_frame [OF F(3)] by (simp_all add: e_def)
  define m2 where "m2 = (\<lambda>x. if frame_of x = F then 0 else st32 (phys s) (slot (frame_of (pd_entry s (pdi a))) (pti a)) e x)"
  note n = new_page_tables [OF ok a(1) index_bounds(2) [of a] F(3, 4) e, folded m2_def]
  have w: "\<forall>f j. f < 1024 \<and> j < 1024 \<longrightarrow> walk m2 (cr3 s) f j = (if f = pdi a \<and> j = pti a then Some F else walk (phys s) (cr3 s) f j)"
    using n(3) by simp
  have none': "walk (phys s) (cr3 s) (pdi a) (pti a) = None"
    using none a poff_aligned [of a] by (auto simp: kmem_here_def)
  note d = new_page_data [OF ok a(1) index_bounds(2) none' F(4) n(2) w]
  define s' where "s' = s\<lparr>pmm_state := p, phys := m2\<rparr>"
  have FT: "F \<noteq> frame_of (cr3 s)" "F \<noteq> frame_of (pd_entry s (pdi a))" using fresh(1) T by auto
  have "do { s \<leftarrow> vmm_map_kernel_page a F (s\<lparr>pmm_state := p\<rparr>); vmemset a 0 4096 s } = Some s'"
    using map_and_clear [of "s\<lparr>pmm_state := p\<rparr>" a F] sp heap_pde_bound(1) [OF a(1)] a(2) pr F(3) FT
    by (simp add: s'_def m2_def e_def cong: if_cong)
  then obtain s1 where "vmm_map_kernel_page a F (s\<lparr>pmm_state := p\<rparr>) = Some s1" "vmemset a 0 4096 s1 = Some s'"
    by (auto simp: Option.bind_eq_Some_conv)
  then have run: "vmm_alloc_kernel_page_at a s = Some (True, s')"
    using F(1, 2) by (simp add: vmm_alloc_kernel_page_at_def)
  have ok': "kmem_ok D s'"
    using ok n(1, 2) d F(5, 6) by (auto simp: kmem_ok_def s'_def vm_ok_def frames_used_def)
  have "vload32 b s' = vload32 b s" if b: "kmem_here s b" for b
  proof -
    obtain G k where G: "walk (phys s) (cr3 s) (pdi b) (pti b) = Some G" "poff b = 4 * k" "k < 1024" "is_frame G"
      "vload32 b s = Some (entry (phys s) G k)" using here_slot [OF b] by metis
    have w': "walk m2 (cr3 s) (pdi b) (pti b) = Some G" using w G(1) none' index_bounds by auto
    then have b': "kmem_here s' b" using b by (simp add: kmem_here_def s'_def)
    obtain G' k' where G': "walk (phys s') (cr3 s') (pdi b) (pti b) = Some G'" "poff b = 4 * k'" "vload32 b s' = Some (entry (phys s') G' k')"
      using here_slot [OF b'] by metis
    have e: "G' = G" "k' = k" using G' G(2) w' by (simp_all add: s'_def)
    have hb: "heap_pde (pdi b)" using b by (simp add: kmem_here_def)
    have "G \<notin> table_frames D (phys s)" "G \<noteq> F"
      using ok G(1) hb index_bounds(2) [of b] fresh(2) unfolding kmem_ok_def data_ok_def data_frames_def by blast+
    then have "entry m2 G k = entry (phys s) G k"
      using G(3, 4) T(1) by (intro entry_cong) (auto simp: m2_def intro!: st32_outside)
    then show ?thesis using G' G(5) e by (simp add: s'_def)
  qed
  moreover have "kmem_here s' b \<longleftrightarrow> kmem_here s b \<or> b AND 3 = 0 \<and> frame_of b = a" for b
    using w by (intro new_page_here [OF a, where F = F]) (simp_all add: s'_def)
  moreover have "kmem_room s \<noteq> 0" "kmem_room s' = kmem_room s - 1"
    using F(4, 5) free_pages_finite [of "pmm_state s"] ok False by (auto simp: kmem_room_def s'_def kmem_ok_def)
  ultimately show ?thesis using run ok' by auto
qed

text \<open>The page tables provide the memory interface.\<close>

lemma poff_zero: "a AND 0xFFF = 0 \<longleftrightarrow> poff a = 0"
  by (simp add: poff_def unat_eq_0)

interpretation km: paged_memory kern_mem "kmem_ok D" kmem_here "\<lambda>a. heap_pde (pdi a)" kmem_room for D
proof
  fix s s' :: "'a kern_scheme" and a w
  show "kmem_ok D s \<Longrightarrow> kmem_here s a \<Longrightarrow> mem_store kern_mem a w s = Some s' \<Longrightarrow> kmem_room s' = kmem_room s"
    by (auto simp: kern_mem_def vstore32_def kmem_room_def Option.bind_eq_Some_conv)
  show "kmem_ok D s \<Longrightarrow> kmem_here s a \<Longrightarrow> \<exists>w. mem_load kern_mem a s = Some w"
    using kern_load by (simp add: kern_mem_def)
  show "\<exists>s'. mem_store kern_mem a w s = Some s' \<and> kmem_ok D s' \<and> kmem_here s' = kmem_here s \<and>
      (\<forall>b. kmem_here s b \<longrightarrow> mem_load kern_mem b s' = (if b = a then Some w else mem_load kern_mem b s))"
    if "kmem_ok D s" "kmem_here s a" using kern_store [OF that, of w] by (simp only: kern_mem_def mem_ops.simps)
  show "\<exists>p s'. mem_page kern_mem a s = Some (p, s') \<and> kmem_ok D s' \<and> (\<forall>b. kmem_here s b \<longrightarrow> mem_load kern_mem b s' = mem_load kern_mem b s) \<and>
      (\<forall>b. kmem_here s' b \<longleftrightarrow> kmem_here s b \<or> p \<noteq> 0 \<and> b AND 3 = 0 \<and> b AND 0xFFFFF000 = a) \<and>
      (p = 0 \<longleftrightarrow> kmem_room s = 0) \<and> kmem_room s' = kmem_room s - 1"
    if pre: "kmem_ok D s" "heap_pde (pdi a)" "a AND 0xFFF = 0" "\<not> kmem_here s a"
  proof -
    obtain p s' where p: "vmm_alloc_kernel_page_at a s = Some (p, s')" "kmem_ok D s'" "\<forall>b. kmem_here s b \<longrightarrow> vload32 b s' = vload32 b s"
      "\<forall>b. kmem_here s' b \<longleftrightarrow> kmem_here s b \<or> p \<and> b AND 3 = 0 \<and> frame_of b = a"
      "\<not> p \<longleftrightarrow> kmem_room s = 0" "kmem_room s' = kmem_room s - 1"
      using kern_page [OF pre(1, 2) iffD1 [OF poff_zero pre(3)] pre(4)] by (elim exE conjE) (rule that)
    then show ?thesis by (intro exI [of _ "of_bool p"] exI [of _ s']) (cases p; simp add: kern_mem_def)
  qed
qed

end
