(* ===== verification/Kheap.thy ===== *)
theory Kheap
  imports Kmalloc Kmem
begin

text \<open>
  The allocator on the kernel's virtual memory: the laws it needs hold of the page tables, so \<open>kmalloc\<close> and \<open>kfree\<close> are
  correct in every address space that shares the tables of the heap region.
\<close>

lemma pdi_wa: "k < heap_words \<Longrightarrow> heap_pde (pdi (wa k))"
  unfolding heap_pde_def pdi_eq by (simp add: unat_wa less_eq_div_iff_mult_less_eq less_mult_imp_div_less)

interpretation kh: heap_memory kern_mem "kmem_ok D" kmem_here "\<lambda>a. heap_pde (pdi a)" kmem_room pages for D pages
  by unfold_locales (rule pdi_wa)

text \<open>The kernel heap: \<open>n\<close> words mapped, the blocks \<open>B\<close>, and \<open>pages\<close> pages mapped or still free in the physical allocator.\<close>

definition kheap_ok :: "u32 set \<Rightarrow> nat \<Rightarrow> kern heap \<Rightarrow> nat \<Rightarrow> blocks \<Rightarrow> bool" where
  "kheap_ok D pages = heap_inv kern_mem (kmem_ok D) kmem_here kmem_room pages"

definition kwords :: "kern heap \<Rightarrow> nat \<Rightarrow> nat \<Rightarrow> u32" where
  "kwords = words kern_mem"

lemma blocks_apart:
  assumes "kheap_ok D pages h n B" "allocs B k = Some l" "allocs B k' = Some l'" "k \<noteq> k'"
  shows "extent k l \<inter> extent k' l' = {}"
  using assms blocks_disjoint [of B n k l False k' l' False] by (auto simp: kheap_ok_def heap_inv_def allocs_eq)

section \<open>An example\<close>

text \<open>Four tables for the region, and the frames 32 to 63 free.\<close>

definition example_kmem :: kern where
  "example_kmem = example_kern\<lparr>phys := st32 (st32 (st32 example_mem (slot 0x1000 773) 0x3003) (slot 0x1000 774) 0x4003) (slot 0x1000 775) 0x5003\<rparr>"

definition example_heap :: "kern heap" where
  "example_heap = \<lparr>hmem = example_kmem, free_list_head = 0, heap_max = KHEAP_START\<rparr>"

lemma example_kmem_entry: "i < 1024 \<Longrightarrow> entry (phys example_kmem) 0x1000 i =
    (if i = 772 then 0x2003 else if i = 773 then 0x3003 else if i = 774 then 0x4003 else if i = 775 then 0x5003 else if i = 1023 then 0x1003 else 0)"
  by (simp add: example_kmem_def entry_st32 frame_constants example_entry)

lemma example_kmem_table: "is_frame F \<Longrightarrow> F \<noteq> 0x1000 \<Longrightarrow> j < 1024 \<Longrightarrow> entry (phys example_kmem) F j = 0"
proof -
  assume F: "is_frame F" "F \<noteq> 0x1000" "j < 1024"
  have z: "entry (\<lambda>_. 0) F j = 0" by (simp add: entry_def ld32_def of_le32_def)
  show ?thesis using F z by (simp add: example_kmem_def example_mem_def entry_st32 frame_constants)
qed

lemma example_walk: "heap_pde f \<Longrightarrow> j < 1024 \<Longrightarrow> walk (phys example_kmem) 0x1000 f j = None"
proof -
  assume f: "heap_pde f" "j < 1024"
  have fr: "frame_of (0x3003 :: u32) = 0x3000" "frame_of (0x4003 :: u32) = 0x4000" "frame_of (0x5003 :: u32) = 0x5000" by simp_all
  have "is_frame (0x3000)" "is_frame (0x4000)" "is_frame (0x5000)" by (simp_all add: is_frame_def)
  moreover have "f = 772 \<or> f = 773 \<or> f = 774 \<or> f = 775" using f(1) by (auto simp: heap_pde_def)
  ultimately show ?thesis using f(2) example_kmem_table [of _ j] frame_constants fr
    by (auto simp: walk_def Let_def example_kmem_entry)
qed

lemma example_kmem_ok: "kmem_ok {0x1000} example_kmem"
proof -
  have e: "entry (phys example_kmem) 0x1000 i = (if i = 772 then 0x2003 else if i = 773 then 0x3003 else if i = 774 then 0x4003
      else if i = 775 then 0x5003 else if i = 1023 then 0x1003 else 0)" if "i < 1024" for i using example_kmem_entry [OF that] .
  have fr: "frame_of (0x1000 :: u32) = 0x1000" by simp
  have sp: "space_ok (phys example_kmem) 0x1000"
    unfolding space_ok_def self_map_def pts_inj_def fr by (auto simp: e split: if_splits)
  have t: "tables_ok {0x1000} (phys example_kmem)"
    unfolding tables_ok_def using sp by (auto simp: heap_pde_def e)
  have tf: "table_frames {0x1000} (phys example_kmem) \<subseteq> {0x2000, 0x3000, 0x4000, 0x5000, 0x1000}"
    unfolding table_frames_def by (auto simp: e split: if_splits)
  have c: "cr3 example_kmem = 0x1000" "pmm_state example_kmem = example_pmm" "kcon example_kmem = example_con"
    by (simp_all add: example_kmem_def example_kern_def)
  have d: "data_ok {0x1000} (phys example_kmem) 0x1000" "data_frames (phys example_kmem) 0x1000 = {}"
    unfolding data_ok_def data_frames_def using example_walk by auto
  have "frames_used (table_frames {0x1000} (phys example_kmem)) example_pmm"
    unfolding frames_used_def using tf by (auto simp: example_free)
  then show ?thesis unfolding kmem_ok_def c using t d example_pmm_ok example_con_ok by simp
qed

lemma example_heap_ok: "kheap_ok {0x1000} 32 example_heap 0 (\<lambda>_. None)"
proof -
  have "kmem_room example_kmem = 32" by (simp add: kmem_room_def example_kmem_def example_kern_def example_free)
  moreover have "\<not> kmem_here example_kmem (wa k)" if "k < heap_words" for k
    using pdi_wa [OF that] example_walk by (simp add: kmem_here_def example_kmem_def example_kern_def)
  ultimately have "good (kmem_ok {0x1000}) kmem_here kmem_room 32 example_heap 0"
    using example_kmem_ok by (simp add: good_def example_heap_def wa_def)
  moreover have "flist m (\<lambda>_. None) 0 []" "blocks_ok (\<lambda>_. None) 0" "heads m (\<lambda>_. None)" for m
    by (auto simp: flist_def blocks_ok_def heads_def nxt_def)
  ultimately show ?thesis unfolding kheap_ok_def heap_inv_def by (auto simp: example_heap_def)
qed

section \<open>kmalloc and kfree\<close>

text \<open>C13. \<open>kmalloc\<close> always returns, as long as the request fits below the end of the heap region.  It
  keeps the heap well formed and leaves every word of the allocated blocks alone.  The result is 0 only if the physical
  pages have run out; otherwise it is the second word of a new block that has room for the request, its header and its
  footer, and that no allocated block overlaps.\<close>

theorem kmalloc_correct:
  assumes "kheap_ok D pages h n B" and "4 * n + unat sz + 4108 \<le> 0x1000000"
  shows "\<exists>p h' n' B'. kmalloc kern_mem sz h = Some (p, h') \<and> kheap_ok D pages h' n' B' \<and> kept B (kwords h n) (kwords h' n') \<and>
    (p = 0 \<and> allocs B' = allocs B \<and> 4096 * pages < 4 * n + unat sz + 4108 \<or>
     (\<exists>k l. k < heap_words \<and> p = wa k + 4 \<and> unat sz + 8 \<le> 4 * l \<and> allocs B k = None \<and> allocs B' = (allocs B)(k \<mapsto> l) \<and>
       (\<forall>k' l'. allocs B k' = Some l' \<longrightarrow> extent k l \<inter> extent k' l' = {})))"
proof -
  have inv: "heap_inv kern_mem (kmem_ok D) kmem_here kmem_room pages h n B" using assms(1) by (simp add: kheap_ok_def)
  have "4 * n + unat sz + 4108 \<le> 16777216" using assms(2) by simp
  from kh.kmalloc_contract [OF inv this] obtain p h' n' B' where r: "kmalloc kern_mem sz h = Some (p, h')"
    "kheap_ok D pages h' n' B'" "kept B (kwords h n) (kwords h' n')"
    "p = 0 \<and> allocs B' = allocs B \<and> 4096 * pages < 4 * n + unat sz + 4108 \<or>
     (\<exists>k l. k < heap_words \<and> p = wa k + 4 \<and> unat sz + 8 \<le> 4 * l \<and> allocs B k = None \<and> allocs B' = (allocs B)(k \<mapsto> l))"
    unfolding kheap_ok_def kwords_def by blast
  have "extent k l \<inter> extent k' l' = {}" if "allocs B k = None" "allocs B' = (allocs B)(k \<mapsto> l)" "allocs B k' = Some l'" for k l k' l'
    using that blocks_apart [OF r(2), of k l k' l'] by (cases "k = k'") auto
  then show ?thesis using r by blast
qed

theorem kmalloc_correct_witness:
  "\<exists>p h' n' B' k l. kmalloc kern_mem 100 example_heap = Some (p, h') \<and> kheap_ok {0x1000} 32 h' n' B' \<and>
     p = wa k + 4 \<and> p \<noteq> 0 \<and> 108 \<le> 4 * l \<and> allocs B' k = Some l"
proof -
  have u: "unat (100 :: u32) = 100" by simp
  have "4 * 0 + unat (100 :: u32) + 4108 \<le> 0x1000000" by simp
  from kmalloc_correct [OF example_heap_ok this] obtain p h' n' B' k l where r: "kmalloc kern_mem 100 example_heap = Some (p, h')"
    "kheap_ok {0x1000} 32 h' n' B'" "k < heap_words" "p = wa k + 4" "108 \<le> 4 * l" "allocs B' = (allocs (\<lambda>_. None))(k \<mapsto> l)"
    unfolding u by auto
  moreover have "p \<noteq> 0" using r(3, 4) wa_fields(1) [of k] wa_nonzero [of "k + 1"] by simp
  ultimately show ?thesis by (metis fun_upd_same)
qed

text \<open>C14. \<open>kfree\<close> on an allocated block returns, keeps the heap well formed, takes exactly this block out of
  the allocated ones and leaves the words of all others alone.\<close>

theorem kfree_correct:
  assumes "kheap_ok D pages h n B" and "allocs B k = Some l"
  shows "\<exists>h' B'. kfree kern_mem (wa k + 4) h = Some h' \<and> kheap_ok D pages h' n B' \<and> allocs B' = (allocs B)(k := None) \<and>
    kept (B(k := None)) (kwords h n) (kwords h' n)"
  using kh.kfree_contract [of D pages h n B k l] assms unfolding kheap_ok_def kwords_def by blast

lemma kmalloc_example:
  "\<exists>h n B k l. kheap_ok {0x1000} 32 h n B \<and> allocs B k = Some l \<and> (\<exists>q. kmalloc kern_mem q example_heap = Some (wa k + 4, h))"
proof -
  have inv: "heap_inv kern_mem (kmem_ok {0x1000}) kmem_here kmem_room 32 example_heap 0 (\<lambda>_. None)"
    using example_heap_ok by (simp add: kheap_ok_def)
  have "4 * 0 + unat (100 :: u32) + 4108 \<le> 16777216" by simp
  from kh.kmalloc_contract [OF inv this] obtain h n B k l where "kmalloc kern_mem 100 example_heap = Some (wa k + 4, h)"
    "heap_inv kern_mem (kmem_ok {0x1000}) kmem_here kmem_room 32 h n B" "allocs B = (allocs (\<lambda>_. None))(k \<mapsto> l)"
    by (auto simp: unat_numeral)
  then show ?thesis unfolding kheap_ok_def by (metis fun_upd_same)
qed

theorem kfree_correct_witness:
  "\<exists>h n B k l h' B'. allocs B k = Some l \<and> kfree kern_mem (wa k + 4) h = Some h' \<and> kheap_ok {0x1000} 32 h' n B' \<and> allocs B' k = None"
proof -
  obtain h n B k l where "kheap_ok {0x1000} 32 h n B" "allocs B k = Some l" using kmalloc_example by blast
  from this(2) kfree_correct [OF this] show ?thesis by (metis fun_upd_same)
qed

end
