(* ===== verification/Stub.thy ===== *)
theory Stub
  imports Memory Idt
begin

text \<open>
  The assembly around interrupts and stack switches: the entry stubs of \<open>arch/i686/cpu/interrupts.s\<close> and the routines of
  \<open>kernel/scheduler/stack_switch.s\<close>, instruction by instruction on the registers of the processor and the words of its
  stack.  Segment registers are pushed as zero-extended words; loading one with any
  selector succeeds, so the general protection fault of an invalid selector is not modelled.
\<close>

record cpu =
  r_eax :: u32
  r_ecx :: u32
  r_edx :: u32
  r_ebx :: u32
  r_esp :: u32
  r_ebp :: u32
  r_esi :: u32
  r_edi :: u32
  r_eip :: u32
  r_eflags :: u32
  r_cs :: u16
  r_ss :: u16
  r_ds :: u16
  r_es :: u16
  r_fs :: u16
  r_gs :: u16

section \<open>Instructions\<close>

definition push32 :: "'s mem_ops \<Rightarrow> u32 \<Rightarrow> cpu \<times> 's \<Rightarrow> (cpu \<times> 's) option" where
  "push32 ops w st = (case st of (c, m) \<Rightarrow> do {
     m \<leftarrow> mem_store ops (r_esp c - 4) w m;
     Some (c\<lparr>r_esp := r_esp c - 4\<rparr>, m) })"

primrec push_all :: "'s mem_ops \<Rightarrow> u32 list \<Rightarrow> cpu \<times> 's \<Rightarrow> (cpu \<times> 's) option" where
  "push_all ops [] st = Some st"
| "push_all ops (w # ws) st = do { st \<leftarrow> push32 ops w st; push_all ops ws st }"

definition pop32 :: "'s mem_ops \<Rightarrow> cpu \<times> 's \<Rightarrow> (u32 \<times> cpu \<times> 's) option" where
  "pop32 ops st = (case st of (c, m) \<Rightarrow> do {
     w \<leftarrow> mem_load ops (r_esp c) m;
     Some (w, c\<lparr>r_esp := r_esp c + 4\<rparr>, m) })"

definition add_esp :: "u32 \<Rightarrow> cpu \<times> 's \<Rightarrow> cpu \<times> 's" where
  "add_esp k st = (case st of (c, m) \<Rightarrow> (c\<lparr>r_esp := r_esp c + k\<rparr>, m))"

text \<open>\<open>pusha\<close> saves the stack pointer it started with; \<open>popa\<close> skips that word.\<close>

definition pusha :: "'s mem_ops \<Rightarrow> cpu \<times> 's \<Rightarrow> (cpu \<times> 's) option" where
  "pusha ops st = (case st of (c, m) \<Rightarrow>
     push_all ops [r_eax c, r_ecx c, r_edx c, r_ebx c, r_esp c, r_ebp c, r_esi c, r_edi c] (c, m))"

definition popa :: "'s mem_ops \<Rightarrow> cpu \<times> 's \<Rightarrow> (cpu \<times> 's) option" where
  "popa ops st = do {
     (di, st) \<leftarrow> pop32 ops st;
     (si, st) \<leftarrow> pop32 ops st;
     (bp, st) \<leftarrow> pop32 ops st;
     (_, st) \<leftarrow> pop32 ops st;
     (bx, st) \<leftarrow> pop32 ops st;
     (dx, st) \<leftarrow> pop32 ops st;
     (cx, st) \<leftarrow> pop32 ops st;
     (ax, (c, m)) \<leftarrow> pop32 ops st;
     Some (c\<lparr>r_edi := di, r_esi := si, r_ebp := bp, r_ebx := bx, r_edx := dx, r_ecx := cx, r_eax := ax\<rparr>, m) }"

text \<open>\<open>iret\<close> at privilege level 0: the stack of the outer level is popped only when the selector is one of it.\<close>

definition iret :: "'s mem_ops \<Rightarrow> cpu \<times> 's \<Rightarrow> (cpu \<times> 's) option" where
  "iret ops st = do {
     (ip, st) \<leftarrow> pop32 ops st;
     (cs, st) \<leftarrow> pop32 ops st;
     (fl, st) \<leftarrow> pop32 ops st;
     if cs AND 3 \<noteq> 0 then do {
       (sp, st) \<leftarrow> pop32 ops st;
       (ss, (c, m)) \<leftarrow> pop32 ops st;
       Some (c\<lparr>r_eip := ip, r_cs := ucast cs, r_eflags := fl, r_esp := sp, r_ss := ucast ss\<rparr>, m) }
     else case st of (c, m) \<Rightarrow> Some (c\<lparr>r_eip := ip, r_cs := ucast cs, r_eflags := fl\<rparr>, m) }"

text \<open>What the processor does before the stub: it takes the stack of level 0 from the task state segment unless it is
  there already, and pushes the return state and, for some exceptions, an error code.  The flags it changes are those of
  the handler, not the saved ones.\<close>

definition deliver :: "'s mem_ops \<Rightarrow> u32 \<Rightarrow> u16 \<Rightarrow> u32 \<Rightarrow> u32 option \<Rightarrow> cpu \<times> 's \<Rightarrow> (cpu \<times> 's) option" where
  "deliver ops esp0 ss0 flags err st = (case st of (c, m) \<Rightarrow> do {
     (c', m) \<leftarrow> (if r_cs c AND 3 \<noteq> 0 then push_all ops [ucast (r_ss c), r_esp c] (c\<lparr>r_ss := ss0, r_esp := esp0\<rparr>, m) else Some (c, m));
     push_all ops ([r_eflags c, ucast (r_cs c), r_eip c] @ (case err of None \<Rightarrow> [] | Some e \<Rightarrow> [e]))
       (c'\<lparr>r_cs := GDT_KERNEL_CODE_SEL, r_eflags := flags\<rparr>, m) })"

section \<open>interrupts.s\<close>

definition push_segs :: "'s mem_ops \<Rightarrow> cpu \<times> 's \<Rightarrow> (cpu \<times> 's) option" where
  "push_segs ops st = (case st of (c, m) \<Rightarrow>
     push_all ops [ucast (r_ds c), ucast (r_es c), ucast (r_fs c), ucast (r_gs c)] (c, m))"

definition pop_segs :: "'s mem_ops \<Rightarrow> cpu \<times> 's \<Rightarrow> (cpu \<times> 's) option" where
  "pop_segs ops st = do {
     (g, st) \<leftarrow> pop32 ops st;
     (f, st) \<leftarrow> pop32 ops st;
     (e, st) \<leftarrow> pop32 ops st;
     (d, (c, m)) \<leftarrow> pop32 ops st;
     Some (c\<lparr>r_gs := ucast g, r_fs := ucast f, r_es := ucast e, r_ds := ucast d\<rparr>, m) }"

text \<open>The kernel data selector goes through \<open>%ax\<close>.\<close>

definition load_kernel_segs :: "cpu \<times> 's \<Rightarrow> cpu \<times> 's" where
  "load_kernel_segs st = (case st of (c, m) \<Rightarrow>
     (c\<lparr>r_eax := (r_eax c AND 0xFFFF0000) OR 0x10, r_ds := 0x10, r_es := 0x10, r_fs := 0x10, r_gs := 0x10\<rparr>, m))"

text \<open>The common stub.  \<open>handler\<close> is the C function, called with the address of the frame; \<open>ra\<close> is the return address
  the call pushes.\<close>

definition isr_common_stub :: "'s mem_ops \<Rightarrow> (u32 \<Rightarrow> 's \<Rightarrow> 's option) \<Rightarrow> u32 \<Rightarrow> cpu \<times> 's \<Rightarrow> (cpu \<times> 's) option" where
  "isr_common_stub ops handler ra st = do {
     st \<leftarrow> pusha ops st;
     st \<leftarrow> push_segs ops st;
     let (c, m) = load_kernel_segs st;
     st \<leftarrow> push32 ops (r_esp c) (c, m);
     (c', m) \<leftarrow> push32 ops ra st;
     m \<leftarrow> handler (r_esp c) m;
     let st = add_esp 4 (c', m);
     st \<leftarrow> pop_segs ops (add_esp 4 st);
     st \<leftarrow> popa ops st;
     iret ops (add_esp 8 st) }"

definition irq_common_stub :: "'s mem_ops \<Rightarrow> (u32 \<Rightarrow> 's \<Rightarrow> 's option) \<Rightarrow> u32 \<Rightarrow> cpu \<times> 's \<Rightarrow> (cpu \<times> 's) option" where
  "irq_common_stub = isr_common_stub"

definition isr_noerr :: "'s mem_ops \<Rightarrow> (u32 \<Rightarrow> 's \<Rightarrow> 's option) \<Rightarrow> u32 \<Rightarrow> u32 \<Rightarrow> cpu \<times> 's \<Rightarrow> (cpu \<times> 's) option" where
  "isr_noerr ops handler ra n st = do {
     st \<leftarrow> push32 ops 0 st;
     st \<leftarrow> push32 ops n st;
     isr_common_stub ops handler ra st }"

definition isr_err :: "'s mem_ops \<Rightarrow> (u32 \<Rightarrow> 's \<Rightarrow> 's option) \<Rightarrow> u32 \<Rightarrow> u32 \<Rightarrow> cpu \<times> 's \<Rightarrow> (cpu \<times> 's) option" where
  "isr_err ops handler ra n st = do {
     st \<leftarrow> push32 ops n st;
     isr_common_stub ops handler ra st }"

definition irq :: "'s mem_ops \<Rightarrow> (u32 \<Rightarrow> 's \<Rightarrow> 's option) \<Rightarrow> u32 \<Rightarrow> u32 \<Rightarrow> cpu \<times> 's \<Rightarrow> (cpu \<times> 's) option" where
  "irq ops handler ra vec st = do {
     st \<leftarrow> push32 ops 0 st;
     st \<leftarrow> push32 ops vec st;
     irq_common_stub ops handler ra st }"

text \<open>Which of the numbered stubs expects the processor's error code.\<close>

definition isr_entry :: "'s mem_ops \<Rightarrow> (u32 \<Rightarrow> 's \<Rightarrow> 's option) \<Rightarrow> u32 \<Rightarrow> u32 \<Rightarrow> cpu \<times> 's \<Rightarrow> (cpu \<times> 's) option" where
  "isr_entry ops handler ra n st =
     (if n \<in> {8, 10, 11, 12, 13, 14, 17} then isr_err ops handler ra n st else isr_noerr ops handler ra n st)"

section \<open>stack\_switch.s\<close>

text \<open>The saved stack pointer goes to \<open>old_esp\<close>; \<open>None\<close> stands for a variable of the caller that is not read again.  The
  return address comes from the new stack.\<close>

definition switch_to_stack :: "'s mem_ops \<Rightarrow> u32 option \<Rightarrow> u32 \<Rightarrow> cpu \<times> 's \<Rightarrow> (cpu \<times> 's) option" where
  "switch_to_stack ops old_esp new_esp st = (case st of (c, m) \<Rightarrow> do {
     m \<leftarrow> (case old_esp of None \<Rightarrow> Some m | Some a \<Rightarrow> mem_store ops a (r_esp c) m);
     (ip, (c, m)) \<leftarrow> pop32 ops (c\<lparr>r_esp := new_esp\<rparr>, m);
     Some (c\<lparr>r_eip := ip\<rparr>, m) })"

definition fork_ret :: "'s mem_ops \<Rightarrow> cpu \<times> 's \<Rightarrow> (cpu \<times> 's) option" where
  "fork_ret ops st = do {
     st \<leftarrow> pop_segs ops st;
     st \<leftarrow> popa ops st;
     iret ops (add_esp 8 st) }"

section \<open>The frame\<close>

definition frame_words :: "interrupt_frame \<Rightarrow> u32 list" where
  "frame_words f = [f_gs f, f_fs f, f_es f, f_ds f, f_edi f, f_esi f, f_ebp f, f_esp f, f_ebx f, f_edx f, f_ecx f, f_eax f,
     f_int_no f, f_err_code f, f_eip f, f_cs f, f_eflags f, f_useresp f, f_ss f]"

text \<open>The words at an address, and the frame of an interrupted program.\<close>

definition words_at :: "'s mem_ops \<Rightarrow> u32 \<Rightarrow> u32 list \<Rightarrow> 's \<Rightarrow> bool" where
  "words_at ops a ws m \<longleftrightarrow> (\<forall>i < length ws. mem_load ops (a + 4 * of_nat i) m = Some (ws ! i))"

definition frame_of_cpu :: "cpu \<Rightarrow> u32 \<Rightarrow> u32 \<Rightarrow> u32 \<Rightarrow> interrupt_frame" where
  "frame_of_cpu c esp0 n err = \<lparr>f_gs = ucast (r_gs c), f_fs = ucast (r_fs c), f_es = ucast (r_es c), f_ds = ucast (r_ds c),
     f_edi = r_edi c, f_esi = r_esi c, f_ebp = r_ebp c, f_esp = esp0 - 28, f_ebx = r_ebx c, f_edx = r_edx c, f_ecx = r_ecx c,
     f_eax = r_eax c, f_int_no = n, f_err_code = err, f_eip = r_eip c, f_cs = ucast (r_cs c), f_eflags = r_eflags c,
     f_useresp = r_esp c, f_ss = ucast (r_ss c)\<rparr>"

text \<open>The registers \<open>fork_ret\<close> and the end of the stub load from a frame of a user program.\<close>

definition cpu_of_frame :: "interrupt_frame \<Rightarrow> cpu" where
  "cpu_of_frame f = \<lparr>r_eax = f_eax f, r_ecx = f_ecx f, r_edx = f_edx f, r_ebx = f_ebx f, r_esp = f_useresp f, r_ebp = f_ebp f,
     r_esi = f_esi f, r_edi = f_edi f, r_eip = f_eip f, r_eflags = f_eflags f, r_cs = ucast (f_cs f), r_ss = ucast (f_ss f),
     r_ds = ucast (f_ds f), r_es = ucast (f_es f), r_fs = ucast (f_fs f), r_gs = ucast (f_gs f)\<rparr>"

lemma pop_word: "mem_load ops (r_esp c) m = Some w \<Longrightarrow> pop32 ops (c, m) = Some (w, c\<lparr>r_esp := r_esp c + 4\<rparr>, m)"
  by (simp add: pop32_def)

lemma words_at_load: "words_at ops a ws m \<Longrightarrow> i < length ws \<Longrightarrow> mem_load ops (a + 4 * of_nat i) m = Some (ws ! i)"
  by (simp add: words_at_def)

text \<open>Leaving through a frame.\<close>

lemma fork_ret_frame:
  assumes w: "words_at ops (r_esp c) (frame_words f) m" and u: "f_cs f AND 3 \<noteq> 0"
  shows "fork_ret ops (c, m) = Some (cpu_of_frame f, m)"
proof -
  have l: "mem_load ops (r_esp c + 4 * of_nat i) m = Some (frame_words f ! i)" if "i < 19" for i
    using words_at_load [OF w, of i] that by (simp add: frame_words_def)
  note ls = l [of 0, simplified frame_words_def, simplified] l [of 1, simplified frame_words_def, simplified]
    l [of 2, simplified frame_words_def, simplified] l [of 3, simplified frame_words_def, simplified]
    l [of 4, simplified frame_words_def, simplified] l [of 5, simplified frame_words_def, simplified]
    l [of 6, simplified frame_words_def, simplified] l [of 7, simplified frame_words_def, simplified]
    l [of 8, simplified frame_words_def, simplified] l [of 9, simplified frame_words_def, simplified]
    l [of 10, simplified frame_words_def, simplified] l [of 11, simplified frame_words_def, simplified]
    l [of 14, simplified frame_words_def, simplified] l [of 15, simplified frame_words_def, simplified]
    l [of 16, simplified frame_words_def, simplified] l [of 17, simplified frame_words_def, simplified]
    l [of 18, simplified frame_words_def, simplified]
  show ?thesis using u
    by (simp add: fork_ret_def pop_segs_def popa_def iret_def pop32_def add_esp_def ls cpu_of_frame_def add.assoc)
qed

end
