(* ===== verification/Sched.thy ===== *)
theory Sched
  imports Kheap Stub
begin

text \<open>
  Processes and the scheduler: \<open>kernel/scheduler/scheduler.c\<close>.  A \<open>process_t\<close> is six words of kernel memory, named by
  its address: \<open>pid\<close>, \<open>pd_phys\<close>, \<open>kernel_esp\<close>, \<open>kernel_stack_top\<close>, \<open>kernel_stack_base\<close> and \<open>next\<close>.  The state has the
  memory with the heap, the descriptor tables with the task state segment, the variables of the scheduler and the
  registers of the processor; when \<open>switch_to_stack\<close> is called, \<open>r_esp\<close> is the stack pointer of the calling code.  Code
  that does not come back to its caller, because it has switched stacks or halts for good, ends in \<open>Gone\<close>.
\<close>

datatype scheduler_state = SCHED_STATE_OFF | SCHED_STATE_READY | SCHED_STATE_STARTING | SCHED_STATE_RUNNING

record sched =
  sc_heap :: "kern heap"
  sc_gdt :: gdt_state
  sc_cpu :: cpu
  next_pid :: u32
  current_process :: u32
  process_list :: u32
  current_process_ticks :: u32
  sched_state :: scheduler_state

abbreviation (input) PROCESS_MAX_TICKS :: u32 where "PROCESS_MAX_TICKS \<equiv> 1"
abbreviation (input) PROCESS_STACK_TOP :: u32 where "PROCESS_STACK_TOP \<equiv> 0xBFF00000"
abbreviation (input) USER_STACK_PAGES :: nat where "USER_STACK_PAGES \<equiv> 4"

abbreviation (input) p_pid :: "u32 \<Rightarrow> u32" where "p_pid p \<equiv> p"
abbreviation (input) p_pd_phys :: "u32 \<Rightarrow> u32" where "p_pd_phys p \<equiv> p + 4"
abbreviation (input) p_kernel_esp :: "u32 \<Rightarrow> u32" where "p_kernel_esp p \<equiv> p + 8"
abbreviation (input) p_kernel_stack_top :: "u32 \<Rightarrow> u32" where "p_kernel_stack_top p \<equiv> p + 12"
abbreviation (input) p_kernel_stack_base :: "u32 \<Rightarrow> u32" where "p_kernel_stack_base p \<equiv> p + 16"
abbreviation (input) p_next :: "u32 \<Rightarrow> u32" where "p_next p \<equiv> p + 20"

section \<open>Memory, console and address spaces in the larger state\<close>

definition skern :: "sched \<Rightarrow> kern" where
  "skern s = hmem (sc_heap s)"

definition set_skern :: "kern \<Rightarrow> sched \<Rightarrow> sched" where
  "set_skern k s = s\<lparr>sc_heap := (sc_heap s)\<lparr>hmem := k\<rparr>\<rparr>"

definition sload :: "u32 \<Rightarrow> sched \<Rightarrow> u32 option" where
  "sload a s = vload32 a (skern s)"

definition sstore :: "u32 \<Rightarrow> u32 \<Rightarrow> sched \<Rightarrow> sched option" where
  "sstore a w s = do { k \<leftarrow> vstore32 a w (skern s); Some (set_skern k s) }"

primrec sstores :: "(u32 \<times> u32) list \<Rightarrow> sched \<Rightarrow> sched option" where
  "sstores [] s = Some s"
| "sstores (x # xs) s = do { s \<leftarrow> sstore (fst x) (snd x) s; sstores xs s }"

definition sprintf :: "string \<Rightarrow> va list \<Rightarrow> sched \<Rightarrow> sched option" where
  "sprintf format args s = do { k \<leftarrow> kprintf format args (skern s); Some (set_skern k s) }"

definition sspace :: "u32 \<Rightarrow> sched \<Rightarrow> sched" where
  "sspace pd s = set_skern (vmm_switch_address_space pd (skern s)) s"

definition suser_page :: "u32 \<Rightarrow> sched \<Rightarrow> (bool \<times> sched) option" where
  "suser_page a s = do { (b, k) \<leftarrow> vmm_alloc_user_page_at a (skern s); Some (b, set_skern k s) }"

definition smemset :: "u32 \<Rightarrow> u8 \<Rightarrow> u32 \<Rightarrow> sched \<Rightarrow> sched option" where
  "smemset a b n s = do { k \<leftarrow> vmemset a b n (skern s); Some (set_skern k s) }"

definition smemcpy :: "u32 \<Rightarrow> u32 \<Rightarrow> u32 \<Rightarrow> sched \<Rightarrow> sched option" where
  "smemcpy dst src n s = do { k \<leftarrow> vmemcpy dst src n (skern s); Some (set_skern k s) }"

definition smalloc :: "u32 \<Rightarrow> sched \<Rightarrow> (u32 \<times> sched) option" where
  "smalloc sz s = do { (p, h) \<leftarrow> kmalloc kern_mem sz (sc_heap s); Some (p, s\<lparr>sc_heap := h\<rparr>) }"

definition sfree :: "u32 \<Rightarrow> sched \<Rightarrow> sched option" where
  "sfree p s = do { h \<leftarrow> kfree kern_mem p (sc_heap s); Some (s\<lparr>sc_heap := h\<rparr>) }"

definition sswitch :: "u32 option \<Rightarrow> u32 \<Rightarrow> sched \<Rightarrow> sched option" where
  "sswitch old_esp new_esp s = do {
     (c, k) \<leftarrow> switch_to_stack kern_mem old_esp new_esp (sc_cpu s, skern s);
     Some (set_skern k (s\<lparr>sc_cpu := c\<rparr>)) }"

section \<open>Switching\<close>

definition context_switch :: "u32 \<Rightarrow> u32 \<Rightarrow> sched \<Rightarrow> sched option" where
  "context_switch from to s = do {
     let s = s\<lparr>current_process := to\<rparr>;
     top \<leftarrow> sload (p_kernel_stack_top to) s;
     let s = s\<lparr>sc_gdt := tss_set_stack top (sc_gdt s)\<rparr>;
     pd \<leftarrow> sload (p_pd_phys to) s;
     let s = sspace pd s;
     new_esp \<leftarrow> sload (p_kernel_esp to) s;
     sswitch (Some (p_kernel_esp from)) new_esp s }"

text \<open>The same three calls in \<open>schedule\<close> and \<open>process_exit\<close>, which save the stack pointer in a local variable that is never
  read; that store is left out (\<open>None\<close>).\<close>

definition enter_process :: "u32 option \<Rightarrow> u32 \<Rightarrow> sched \<Rightarrow> sched option" where
  "enter_process old_esp p s = do {
     top \<leftarrow> sload (p_kernel_stack_top p) s;
     let s = s\<lparr>sc_gdt := tss_set_stack top (sc_gdt s)\<rparr>;
     pd \<leftarrow> sload (p_pd_phys p) s;
     let s = sspace pd s;
     new_esp \<leftarrow> sload (p_kernel_esp p) s;
     sswitch old_esp new_esp s }"

definition schedule :: "sched \<Rightarrow> (sched, sched) flow option" where
  "schedule s =
     (if sched_state s = SCHED_STATE_STARTING then do {
        let s = s\<lparr>sched_state := SCHED_STATE_RUNNING\<rparr>;
        s \<leftarrow> enter_process None (current_process s) s;
        Some (Gone s) }
      else if sched_state s \<noteq> SCHED_STATE_RUNNING \<or> current_process s = 0 then Some (Returned s)
      else do {
        let s = s\<lparr>current_process_ticks := current_process_ticks s + 1\<rparr>;
        if PROCESS_MAX_TICKS \<le> current_process_ticks s then do {
          let s = s\<lparr>current_process_ticks := 0\<rparr>;
          next_proc \<leftarrow> sload (p_next (current_process s)) s;
          let next_proc = (if next_proc = 0 then process_list s else next_proc);
          s \<leftarrow> context_switch (current_process s) next_proc s;
          Some (Gone s) }
        else Some (Returned s) })"

text \<open>\<open>scheduler_init\<close> installs \<open>schedule\<close>, given as \<open>handler\<close>, and halts between interrupts from then on.\<close>

definition scheduler_init :: "'f \<Rightarrow> ('f, 'h) ints \<times> sched \<Rightarrow> (('f, 'h) ints \<times> sched, ('f, 'h) ints \<times> sched) flow option" where
  "scheduler_init handler st = (case st of (i, s) \<Rightarrow>
     if sched_state s \<noteq> SCHED_STATE_READY then Some (Returned (i, s))
     else do {
       i \<leftarrow> isr_register_handler (irq_to_vector 0) handler i;
       Some (Gone (i, s\<lparr>sched_state := SCHED_STATE_STARTING\<rparr>)) })"

section \<open>The list of processes\<close>

text \<open>The loop of \<open>scheduler_add_process\<close>: the last process of the ring.\<close>

partial_function (option) last_process :: "u32 \<Rightarrow> sched \<Rightarrow> u32 option" where
  "last_process p s = do {
     n \<leftarrow> sload (p_next p) s;
     if n \<noteq> process_list s then last_process n s else Some p }"

definition scheduler_add_process :: "u32 \<Rightarrow> sched \<Rightarrow> sched option" where
  "scheduler_add_process proc s =
     (if process_list s = 0 then do {
        let s = s\<lparr>process_list := proc\<rparr>;
        sstore (p_next proc) proc s }
      else do {
        p \<leftarrow> last_process (process_list s) s;
        s \<leftarrow> sstore (p_next p) proc s;
        sstore (p_next proc) (process_list s) s })"

definition scheduler_start :: "'f \<Rightarrow> ('f, 'h) ints \<times> sched \<Rightarrow> (('f, 'h) ints \<times> sched, ('f, 'h) ints \<times> sched) flow option" where
  "scheduler_start handler st = (case st of (i, s) \<Rightarrow>
     if process_list s = 0 then do {
       s \<leftarrow> sprintf (''scheduler_start: no processes to run'' @ [CHR 0x0A]) [] s;
       Some (Returned (i, s)) }
     else do {
       let s = s\<lparr>current_process := process_list s, sched_state := SCHED_STATE_READY\<rparr>;
       pd \<leftarrow> sload (p_pd_phys (current_process s)) s;
       scheduler_init handler (i, sspace pd s) })"

section \<open>Creating processes\<close>

primrec user_stack :: "nat list \<Rightarrow> sched \<Rightarrow> (bool \<times> sched) option" where
  "user_stack [] s = Some (True, s)"
| "user_stack (i # is) s = do {
     (b, s) \<leftarrow> suser_page (PROCESS_STACK_TOP - (of_nat i + 1) * 4096) s;
     if \<not> b then Some (False, s) else user_stack is s }"

text \<open>The frame at the top of the kernel stack, and \<open>fork_ret\<close> as the return address below it.\<close>

definition prime_stack :: "u32 \<Rightarrow> u32 \<Rightarrow> u32 \<Rightarrow> sched \<Rightarrow> sched option" where
  "prime_stack fork_ret_addr p start s = do {
     top \<leftarrow> sload (p_kernel_stack_top p) s;
     let frame = top - 76;
     s \<leftarrow> smemset frame 0 76 s;
     sstores
       [(frame + 56, start), (frame + 60, ucast GDT_USER_CODE_SEL), (frame + 64, 0x202), (frame + 28, PROCESS_STACK_TOP),
        (frame + 72, ucast GDT_USER_DATA_SEL), (frame, ucast GDT_USER_DATA_SEL), (frame + 4, ucast GDT_USER_DATA_SEL),
        (frame + 8, ucast GDT_USER_DATA_SEL), (frame + 12, ucast GDT_USER_DATA_SEL),
        (frame - 4, fork_ret_addr), (p_kernel_esp p, frame - 4), (p_next p, 0)] s }"

text \<open>The new address space and, inside it, the user stack.\<close>

definition screate_space :: "sched \<Rightarrow> (u32 \<times> sched) option" where
  "screate_space s = do { (pd, k) \<leftarrow> vmm_create_address_space (skern s); Some (pd, set_skern k s) }"

definition process_space :: "u32 \<Rightarrow> sched \<Rightarrow> (bool \<times> sched) option" where
  "process_space p s = do {
     (pd, s) \<leftarrow> screate_space s;
     s \<leftarrow> sstore (p_pd_phys p) pd s;
     let old_cr3 = vmm_read_cr3 (skern s);
     pd \<leftarrow> sload (p_pd_phys p) s;
     (b, s) \<leftarrow> user_stack [0..<USER_STACK_PAGES] (sspace pd s);
     if b then Some (True, sspace old_cr3 s)
     else do {
       s \<leftarrow> sprintf (''process_init: failed to allocate user stack page'' @ [CHR 0x0A]) [] s;
       Some (False, sspace old_cr3 s) } }"

definition process_init :: "u32 \<Rightarrow> u32 \<Rightarrow> u32 \<Rightarrow> sched \<Rightarrow> sched option" where
  "process_init fork_ret_addr p start s = do {
     s \<leftarrow> sstore (p_pid p) (next_pid s) s;
     (kstack, s) \<leftarrow> smalloc (4096 * 2) (s\<lparr>next_pid := next_pid s + 1\<rparr>);
     if kstack = 0 then sprintf (''Failed to allocate kernel stack'' @ [CHR 0x0A]) [] s
     else do {
       s \<leftarrow> sstores [(p_kernel_stack_base p, kstack), (p_kernel_stack_top p, kstack + 4096 * 2)] s;
       (b, s) \<leftarrow> process_space p s;
       if b then prime_stack fork_ret_addr p start s else Some s } }"

partial_function (option) load_pages :: "u32 \<Rightarrow> u32 \<Rightarrow> sched \<Rightarrow> (bool \<times> sched) option" where
  "load_pages a end_addr s =
     (if a < end_addr then do {
        (b, s) \<leftarrow> suser_page a s;
        if \<not> b then Some (False, s) else load_pages (a + 4096) end_addr s }
      else Some (True, s))"

definition process_load_user_memory :: "u32 \<Rightarrow> u32 \<Rightarrow> u32 \<Rightarrow> u32 \<Rightarrow> sched \<Rightarrow> (bool \<times> sched) option" where
  "process_load_user_memory p vaddr src len s =
     (if p = 0 \<or> src = 0 \<or> len = 0 then Some (False, s)
      else do {
        let old_cr3 = vmm_read_cr3 (skern s);
        pd \<leftarrow> sload (p_pd_phys p) s;
        let s = sspace pd s;
        let start = vaddr AND NOT (4096 - 1);
        let end_addr = (vaddr + len + 4096 - 1) AND NOT (4096 - 1);
        (b, s) \<leftarrow> load_pages start end_addr s;
        if \<not> b then Some (False, sspace old_cr3 s)
        else do {
          s \<leftarrow> smemcpy vaddr src len s;
          Some (True, sspace old_cr3 s) } })"

section \<open>Ending processes\<close>

text \<open>The loop of \<open>process_exit\<close>: the process before \<open>proc\<close> in the ring, or the last one.\<close>

partial_function (option) unlink_scan :: "u32 \<Rightarrow> u32 \<Rightarrow> sched \<Rightarrow> u32 option" where
  "unlink_scan proc p s = do {
     n \<leftarrow> sload (p_next p) s;
     if n \<noteq> proc \<and> n \<noteq> process_list s then unlink_scan proc n s else Some p }"

definition process_unlink :: "u32 \<Rightarrow> sched \<Rightarrow> sched option" where
  "process_unlink proc s = do {
     p \<leftarrow> unlink_scan proc (process_list s) s;
     n \<leftarrow> sload (p_next p) s;
     if n = proc then do {
       nn \<leftarrow> sload (p_next proc) s;
       s \<leftarrow> sstore (p_next p) nn s;
       if process_list s = proc then do {
         nn \<leftarrow> sload (p_next proc) s;
         Some (s\<lparr>process_list := nn\<rparr>) }
       else Some s }
     else Some s }"

definition process_exit :: "u32 \<Rightarrow> sched \<Rightarrow> (sched, sched) flow option" where
  "process_exit proc s = do {
     n \<leftarrow> sload (p_next proc) s;
     if n = proc then do {
       s \<leftarrow> sprintf (''process_exit: last process exiting, halting system'' @ [CHR 0x0A]) [] s;
       Some (Gone s) }
     else do {
       s \<leftarrow> process_unlink proc s;
       if proc = current_process s then do {
         let next = process_list s;
         s \<leftarrow> enter_process None next (s\<lparr>current_process := next\<rparr>);
         Some (Gone s) }
       else do {
         pd \<leftarrow> sload (p_pd_phys proc) s;
         k \<leftarrow> vmm_destroy_address_space pd (skern s);
         let s = set_skern k s;
         base \<leftarrow> sload (p_kernel_stack_base proc) s;
         s \<leftarrow> sfree base s;
         s \<leftarrow> sfree proc s;
         Some (Returned s) } } }"

definition get_current_process :: "sched \<Rightarrow> u32" where
  "get_current_process s = current_process s"

end
