(* ===== verification/Sched_Ok.thy ===== *)
theory Sched_Ok
  imports Sched
begin

text \<open>
  The ring of processes.  The directories of all processes share the tables of the kernel region, so the process
  structures read the same in every address space; a timer interrupt switches from one process of the ring to the next
  and adding a process closes the ring again.
\<close>

section \<open>Kernel memory in the state of the scheduler\<close>

lemma skern_simps [simp]:
  "skern (set_skern k s) = k" "skern (s\<lparr>current_process := c\<rparr>) = skern s" "skern (s\<lparr>sc_gdt := g\<rparr>) = skern s"
  "skern (s\<lparr>sc_cpu := u\<rparr>) = skern s" "skern (s\<lparr>process_list := c\<rparr>) = skern s" "skern (s\<lparr>current_process_ticks := c\<rparr>) = skern s"
  "skern (s\<lparr>sched_state := st\<rparr>) = skern s" "skern (s\<lparr>next_pid := c\<rparr>) = skern s"
  by (simp_all add: skern_def set_skern_def)

lemma set_skern_simps [simp]:
  "sc_gdt (set_skern k s) = sc_gdt s" "sc_cpu (set_skern k s) = sc_cpu s" "next_pid (set_skern k s) = next_pid s"
  "current_process (set_skern k s) = current_process s" "process_list (set_skern k s) = process_list s"
  "current_process_ticks (set_skern k s) = current_process_ticks s" "sched_state (set_skern k s) = sched_state s"
  by (simp_all add: set_skern_def)

text \<open>Switching to another directory of the set changes nothing in the kernel region.\<close>

lemma walk_switch:
  assumes "kmem_ok D k" "pd \<in> D" "heap_pde f"
  shows "walk (phys k) pd f j = walk (phys k) (cr3 k) f j"
proof -
  have "entry (phys k) (frame_of pd) f = entry (phys k) (frame_of (cr3 k)) f"
  proof -
    have "tables_ok D (phys k)" "cr3 k \<in> D" using assms(1) by (simp_all add: kmem_ok_def)
    then show ?thesis using assms(2, 3) unfolding tables_ok_def by blast
  qed
  then show ?thesis by (simp add: walk_def)
qed

lemma kmem_switch:
  assumes ok: "kmem_ok D k" and pd: "pd \<in> D"
  shows "kmem_ok D (k\<lparr>cr3 := pd\<rparr>)" "kmem_here (k\<lparr>cr3 := pd\<rparr>) = kmem_here k"
    "kmem_here k a \<Longrightarrow> vload32 a (k\<lparr>cr3 := pd\<rparr>) = vload32 a k"
proof -
  note w = walk_switch [OF ok pd]
  have d: "data_ok D (phys k) pd" using ok w unfolding kmem_ok_def data_ok_def by (metis (no_types))
  have f: "data_frames (phys k) pd = data_frames (phys k) (cr3 k)" using w unfolding data_frames_def by metis
  show "kmem_ok D (k\<lparr>cr3 := pd\<rparr>)" using ok pd d by (simp add: kmem_ok_def f)
  show h: "kmem_here (k\<lparr>cr3 := pd\<rparr>) = kmem_here k" using w by (auto simp: kmem_here_def fun_eq_iff)
  show "vload32 a (k\<lparr>cr3 := pd\<rparr>) = vload32 a k" if a: "kmem_here k a"
  proof -
    have a': "kmem_here (k\<lparr>cr3 := pd\<rparr>) a" using a h by simp
    obtain F n where 1: "walk (phys k) (cr3 k) (pdi a) (pti a) = Some F" "poff a = 4 * n" "vload32 a k = Some (entry (phys k) F n)"
      using here_slot [OF a] by metis
    obtain G m where 2: "walk (phys k) pd (pdi a) (pti a) = Some G" "poff a = 4 * m" "vload32 a (k\<lparr>cr3 := pd\<rparr>) = Some (entry (phys k) G m)"
      using here_slot [OF a'] by simp metis
    show ?thesis using 1 2 w [of "pdi a" "pti a"] a by (simp add: kmem_here_def)
  qed
qed

lemma sspace_eq: "pd \<noteq> 0 \<Longrightarrow> sspace pd s = set_skern ((skern s)\<lparr>cr3 := pd\<rparr>) s"
  by (simp add: sspace_def vmm_switch_address_space_def vmm_flush_cr3_def vmm_write_cr3_def vmm_read_cr3_def)

lemma sload_here: "kmem_here (skern s) a \<Longrightarrow> \<exists>w. sload a s = Some w"
  using kern_load by (simp add: sload_def)

lemma sstore_here:
  assumes "kmem_ok D (skern s)" "kmem_here (skern s) a"
  shows "\<exists>k. sstore a w s = Some (set_skern k s) \<and> kmem_ok D k \<and> kmem_here k = kmem_here (skern s) \<and> cr3 k = cr3 (skern s) \<and>
    (\<forall>b. kmem_here (skern s) b \<longrightarrow> vload32 b k = (if b = a then Some w else sload b s))"
  using kern_store [OF assms, of w] by (auto simp: sstore_def sload_def vstore32_def Option.bind_eq_Some_conv split: if_splits)

section \<open>The ring\<close>

definition pwords :: "u32 \<Rightarrow> u32 set" where
  "pwords p = {p_pid p, p_pd_phys p, p_kernel_esp p, p_kernel_stack_top p, p_kernel_stack_base p, p_next p}"

definition ring_words :: "u32 list \<Rightarrow> u32 set" where
  "ring_words xs = (\<Union>p \<in> set xs. pwords p)"

text \<open>The structures of the processes: mapped and apart from each other.\<close>

definition procs_ok :: "u32 set \<Rightarrow> u32 list \<Rightarrow> sched \<Rightarrow> bool" where
  "procs_ok D xs s \<longleftrightarrow> kmem_ok D (skern s) \<and> distinct xs \<and> 0 \<notin> set xs \<and> (\<forall>a \<in> ring_words xs. kmem_here (skern s) a) \<and>
     (\<forall>p \<in> set xs. \<forall>q \<in> set xs. p \<noteq> q \<longrightarrow> pwords p \<inter> pwords q = {})"

definition linked_ring :: "u32 list \<Rightarrow> sched \<Rightarrow> bool" where
  "linked_ring xs s \<longleftrightarrow> (\<forall>i < length xs. sload (p_next (xs ! i)) s = Some (xs ! (Suc i mod length xs)))"

text \<open>A stack pointer at which a return address can be read, outside the structures.\<close>

definition stack_ok :: "u32 list \<Rightarrow> sched \<Rightarrow> u32 \<Rightarrow> bool" where
  "stack_ok xs s e \<longleftrightarrow> kmem_here (skern s) e \<and> e \<notin> ring_words xs"

definition dispatchable :: "u32 set \<Rightarrow> u32 list \<Rightarrow> sched \<Rightarrow> u32 \<Rightarrow> bool" where
  "dispatchable D xs s p \<longleftrightarrow> (\<exists>pd. sload (p_pd_phys p) s = Some pd \<and> pd \<in> D \<and> pd \<noteq> 0) \<and>
     (\<exists>e. sload (p_kernel_esp p) s = Some e \<and> stack_ok xs s e)"

definition running :: "u32 set \<Rightarrow> u32 list \<Rightarrow> nat \<Rightarrow> sched \<Rightarrow> bool" where
  "running D xs i s \<longleftrightarrow> procs_ok D xs s \<and> linked_ring xs s \<and> (\<forall>p \<in> set xs. dispatchable D xs s p) \<and>
     sched_state s = SCHED_STATE_RUNNING \<and> current_process_ticks s = 0 \<and> i < length xs \<and> current_process s = xs ! i"

lemma pwords_mem [simp]: "p \<in> pwords p" "p + 4 \<in> pwords p" "p + 8 \<in> pwords p" "p + 12 \<in> pwords p" "p + 16 \<in> pwords p" "p + 20 \<in> pwords p"
  by (simp_all add: pwords_def)

lemma ring_wordsI: "p \<in> set xs \<Longrightarrow> a \<in> pwords p \<Longrightarrow> a \<in> ring_words xs"
  by (auto simp: ring_words_def)

text \<open>Fields of two processes of the ring are the same word only if they are the same field of the same process.\<close>

lemma field_eq:
  assumes "procs_ok D xs s" "p \<in> set xs" "q \<in> set xs" "p + a = q + b" "p + a \<in> pwords p" "q + b \<in> pwords q"
  shows "p = q \<and> a = b"
  using assms unfolding procs_ok_def by (metis IntI add_left_cancel empty_iff)

lemma running_here: "running D xs i s \<Longrightarrow> p \<in> set xs \<Longrightarrow> a \<in> pwords p \<Longrightarrow> kmem_here (skern s) a"
  by (auto simp: running_def procs_ok_def intro: ring_wordsI)

lemma next_in_ring: "i < length xs \<Longrightarrow> Suc i mod length xs < length xs"
  by (cases xs) simp_all

section \<open>One switch\<close>

text \<open>The switch itself, in a state with the directory of the next process loaded.\<close>

lemma kern_mem_ops: "mem_store kern_mem = vstore32" "mem_load kern_mem = vload32"
  by (simp_all add: kern_mem_def)

lemma sswitch_ok:
  assumes "kmem_ok D (skern s)" "\<forall>a. old = Some a \<longrightarrow> kmem_here (skern s) a \<and> e \<noteq> a" "kmem_here (skern s) e"
  shows "\<exists>k ip. sswitch old e s = Some (set_skern k (s\<lparr>sc_cpu := (sc_cpu s)\<lparr>r_esp := e + 4, r_eip := ip\<rparr>\<rparr>)) \<and>
    sload e s = Some ip \<and> kmem_ok D k \<and> kmem_here k = kmem_here (skern s) \<and> cr3 k = cr3 (skern s) \<and>
    (\<forall>b. kmem_here (skern s) b \<longrightarrow> vload32 b k = (if old = Some b then Some (r_esp (sc_cpu s)) else sload b s))"
proof -
  obtain k where k: "(case old of None \<Rightarrow> Some (skern s) | Some a \<Rightarrow> vstore32 a (r_esp (sc_cpu s)) (skern s)) = Some k" "kmem_ok D k"
    "kmem_here k = kmem_here (skern s)" "cr3 k = cr3 (skern s)"
    "\<forall>b. kmem_here (skern s) b \<longrightarrow> vload32 b k = (if old = Some b then Some (r_esp (sc_cpu s)) else sload b s)"
  proof (cases old)
    case None
    then show ?thesis using that [of "skern s"] assms(1) by (simp add: sload_def)
  next
    case (Some a)
    from assms(2) Some have a: "kmem_here (skern s) a" by simp
    obtain k where k: "vstore32 a (r_esp (sc_cpu s)) (skern s) = Some k" "kmem_ok D k" "kmem_here k = kmem_here (skern s)"
      "\<forall>b. kmem_here (skern s) b \<longrightarrow> vload32 b k = (if b = a then Some (r_esp (sc_cpu s)) else vload32 b (skern s))"
      using kern_store [OF assms(1) a, of "r_esp (sc_cpu s)"] by (elim exE conjE) (rule that)
    moreover have "cr3 k = cr3 (skern s)" using k(1) by (auto simp: vstore32_def Option.bind_eq_Some_conv split: if_splits)
    ultimately show ?thesis using that [of k] Some by (simp add: sload_def eq_commute)
  qed
  obtain ip where ip: "sload e s = Some ip" using sload_here [OF assms(3)] by auto
  have "old \<noteq> Some e" using assms(2) by auto
  then have "vload32 e k = Some ip" using k(5) assms(3) ip by simp
  then have "sswitch old e s = Some (set_skern k (s\<lparr>sc_cpu := (sc_cpu s)\<lparr>r_esp := e + 4, r_eip := ip\<rparr>\<rparr>))"
    using k(1) by (cases old) (simp_all add: sswitch_def switch_to_stack_def pop32_def kern_mem_ops)
  then show ?thesis using k(2-5) ip by blast
qed

text \<open>A process of the ring is entered, with the stack pointer saved at \<open>old\<close>.\<close>

lemma enter_process_ok:
  assumes ok: "procs_ok D xs s" and old: "\<forall>a. old = Some a \<longrightarrow> a \<in> ring_words xs" and q: "q \<in> set xs" "dispatchable D xs s q"
  shows "\<exists>k top pd e ip. enter_process old q s = Some (set_skern k (s\<lparr>sc_gdt := tss_set_stack top (sc_gdt s),
      sc_cpu := (sc_cpu s)\<lparr>r_esp := e + 4, r_eip := ip\<rparr>\<rparr>)) \<and>
    sload (p_kernel_stack_top q) s = Some top \<and> sload (p_pd_phys q) s = Some pd \<and> sload (p_kernel_esp q) s = Some e \<and>
    sload e s = Some ip \<and> cr3 k = pd \<and> kmem_ok D k \<and> kmem_here k = kmem_here (skern s) \<and>
    (\<forall>b. kmem_here (skern s) b \<longrightarrow> vload32 b k = (if old = Some b then Some (r_esp (sc_cpu s)) else sload b s))"
proof -
  have here: "kmem_here (skern s) a" if "a \<in> ring_words xs" for a using ok that by (simp add: procs_ok_def)
  have km: "kmem_ok D (skern s)" using ok by (simp add: procs_ok_def)
  obtain pd where pd: "sload (p_pd_phys q) s = Some pd" "pd \<in> D" "pd \<noteq> 0" using q(2) by (auto simp: dispatchable_def)
  obtain e where e: "sload (p_kernel_esp q) s = Some e" "kmem_here (skern s) e" "e \<notin> ring_words xs"
    using q(2) by (auto simp: dispatchable_def stack_ok_def)
  have hq: "kmem_here (skern s) (p_kernel_esp q)" "kmem_here (skern s) (p_kernel_stack_top q)" by (rule here, rule ring_wordsI [OF q(1)], simp)+
  obtain top where top: "sload (p_kernel_stack_top q) s = Some top" using sload_here [OF hq(2)] by auto
  define s1 where "s1 = set_skern ((skern s)\<lparr>cr3 := pd\<rparr>) (s\<lparr>sc_gdt := tss_set_stack top (sc_gdt s)\<rparr>)"
  note sw = kmem_switch [OF km pd(2)]
  have k1: "kmem_ok D (skern s1)" "kmem_here (skern s1) = kmem_here (skern s)" "cr3 (skern s1) = pd" "sc_cpu s1 = sc_cpu s"
    using sw(1, 2) by (simp_all add: s1_def)
  have l1: "sload a s1 = sload a s" if "kmem_here (skern s) a" for a using sw(3) [OF that] by (simp add: s1_def sload_def)
  have h1: "\<forall>a. old = Some a \<longrightarrow> kmem_here (skern s1) a \<and> e \<noteq> a" "kmem_here (skern s1) e" using old here e k1(2) by auto
  from sswitch_ok [OF k1(1) h1] obtain k ip where k: "sswitch old e s1 = Some (set_skern k (s1\<lparr>sc_cpu := (sc_cpu s1)\<lparr>r_esp := e + 4, r_eip := ip\<rparr>\<rparr>))"
    "sload e s1 = Some ip" "kmem_ok D k" "kmem_here k = kmem_here (skern s1)" "cr3 k = cr3 (skern s1)"
    "\<forall>b. kmem_here (skern s1) b \<longrightarrow> vload32 b k = (if old = Some b then Some (r_esp (sc_cpu s1)) else sload b s1)"
    by (elim exE conjE) (rule that)
  have "enter_process old q s = sswitch old e s1"
    using pd(1) top e(1) l1 [OF hq(1)] by (simp add: enter_process_def s1_def sload_def sspace_eq [OF pd(3)] Let_def)
  then have "enter_process old q s = Some (set_skern k (s\<lparr>sc_gdt := tss_set_stack top (sc_gdt s),
      sc_cpu := (sc_cpu s)\<lparr>r_esp := e + 4, r_eip := ip\<rparr>\<rparr>))" using k(1) by (simp add: s1_def set_skern_def)
  moreover have "vload32 b k = (if old = Some b then Some (r_esp (sc_cpu s)) else sload b s)" if "kmem_here (skern s) b" for b
    using k(6) that l1 k1(2, 4) by simp
  ultimately show ?thesis using pd(1) top e(1) k(2-5) k1(2, 3) l1 [OF e(2)] by metis
qed

lemma enter_first_ok:
  assumes ok: "procs_ok D xs s" and q: "q \<in> set xs" "dispatchable D xs s q"
  shows "\<exists>k top pd e ip. enter_process None q s = Some (set_skern k (s\<lparr>sc_gdt := tss_set_stack top (sc_gdt s),
      sc_cpu := (sc_cpu s)\<lparr>r_esp := e + 4, r_eip := ip\<rparr>\<rparr>)) \<and>
    sload (p_kernel_stack_top q) s = Some top \<and> sload (p_pd_phys q) s = Some pd \<and> sload (p_kernel_esp q) s = Some e \<and>
    sload e s = Some ip \<and> cr3 k = pd \<and> kmem_ok D k \<and> kmem_here k = kmem_here (skern s) \<and>
    (\<forall>b. kmem_here (skern s) b \<longrightarrow> vload32 b k = sload b s)"
  using enter_process_ok [OF ok _ q, of None] by simp

lemma context_switch_eq: "context_switch p q s = enter_process (Some (p_kernel_esp p)) q (s\<lparr>current_process := q\<rparr>)"
  by (simp add: context_switch_def enter_process_def Let_def)

lemma context_switch_ok:
  assumes ok: "procs_ok D xs s" and p: "p \<in> set xs" and q: "q \<in> set xs" "dispatchable D xs s q"
  shows "\<exists>k top pd e ip. context_switch p q s = Some (set_skern k (s\<lparr>current_process := q, sc_gdt := tss_set_stack top (sc_gdt s),
      sc_cpu := (sc_cpu s)\<lparr>r_esp := e + 4, r_eip := ip\<rparr>\<rparr>)) \<and>
    sload (p_kernel_stack_top q) s = Some top \<and> sload (p_pd_phys q) s = Some pd \<and> sload (p_kernel_esp q) s = Some e \<and>
    sload e s = Some ip \<and> cr3 k = pd \<and> kmem_ok D k \<and> kmem_here k = kmem_here (skern s) \<and>
    (\<forall>b. kmem_here (skern s) b \<longrightarrow> vload32 b k = (if b = p_kernel_esp p then Some (r_esp (sc_cpu s)) else sload b s))"
proof -
  have el: "sload a (s\<lparr>current_process := c\<rparr>) = sload a s" for a c by (simp add: sload_def)
  have eok: "procs_ok D xs (s\<lparr>current_process := q\<rparr>)" "dispatchable D xs (s\<lparr>current_process := q\<rparr>) q"
    using ok q(2) by (simp_all add: procs_ok_def dispatchable_def stack_ok_def el)
  have old: "\<forall>a. Some (p_kernel_esp p) = Some a \<longrightarrow> a \<in> ring_words xs" using ring_wordsI [OF p] by simp
  show ?thesis using enter_process_ok [OF eok(1) old q(1) eok(2)] by (simp add: context_switch_eq el eq_commute [of "p + 8"] cong: if_cong split del: if_split)
qed

lemma schedule_running:
  assumes r: "running D xs i s"
  shows "schedule s = do { s \<leftarrow> context_switch (xs ! i) (xs ! (Suc i mod length xs)) (s\<lparr>current_process_ticks := 0\<rparr>); Some (Gone s) }"
proof -
  have i: "i < length xs" and c: "current_process s = xs ! i" using r by (simp_all add: running_def)
  have nz: "xs ! i \<noteq> 0" "xs ! (Suc i mod length xs) \<noteq> 0"
    using r nth_mem [OF i] nth_mem [OF next_in_ring [OF i]] unfolding running_def procs_ok_def by metis+
  have n: "sload (p_next (xs ! i)) s = Some (xs ! (Suc i mod length xs))" using r i by (simp add: running_def linked_ring_def)
  show ?thesis using r nz n by (simp add: schedule_def running_def c sload_def Let_def)
qed

lemma ring_links_kept: "\<forall>a \<in> ring_words xs. sload a s' = sload a s \<Longrightarrow> linked_ring xs s' = linked_ring xs s"
  using ring_wordsI [OF nth_mem] by (simp add: linked_ring_def)

text \<open>The ring survives the new value of a saved stack pointer.\<close>

lemma ring_saved:
  assumes ok: "procs_ok D xs s" "linked_ring xs s" "\<forall>p \<in> set xs. dispatchable D xs s p" and p: "p \<in> set xs" and e: "stack_ok xs s e"
    and s': "kmem_ok D (skern s')" "kmem_here (skern s') = kmem_here (skern s)"
    and l: "\<And>b. kmem_here (skern s) b \<Longrightarrow> sload b s' = (if b = p_kernel_esp p then Some e else sload b s)"
  shows "procs_ok D xs s'" "linked_ring xs s'" "\<forall>p \<in> set xs. dispatchable D xs s' p"
proof -
  show "procs_ok D xs s'" using ok(1) s' by (simp add: procs_ok_def)
  have here: "kmem_here (skern s) a" if "r \<in> set xs" "a \<in> pwords r" for r a
    using ok(1) ring_wordsI [OF that] by (simp add: procs_ok_def)
  have other: "r + a \<noteq> p_kernel_esp p" if "r \<in> set xs" "r + a \<in> pwords r" "a \<noteq> 8" for r a
    using field_eq [OF ok(1) that(1) p _ that(2), of 8] that(3) by auto
  have so: "stack_ok xs s' a = stack_ok xs s a" for a using s'(2) by (simp add: stack_ok_def)
  have nx: "sload (p_next r) s' = sload (p_next r) s" if "r \<in> set xs" for r
    using l [of "p_next r"] here [OF that] other [OF that, of 20] by simp
  show "linked_ring xs s'" using ok(2) nx nth_mem unfolding linked_ring_def by metis
  show "\<forall>p \<in> set xs. dispatchable D xs s' p"
  proof
    fix r assume r: "r \<in> set xs"
    have "sload (p_pd_phys r) s' = sload (p_pd_phys r) s" using l here other [of r 4] r by simp
    moreover have "\<exists>a. sload (p_kernel_esp r) s' = Some a \<and> stack_ok xs s a"
      using l [of "p_kernel_esp r"] here [OF r, of "p_kernel_esp r"] e ok(3) r by (auto simp: dispatchable_def)
    ultimately show "dispatchable D xs s' r" using ok(3) r so by (simp add: dispatchable_def)
  qed
qed

text \<open>A timer interrupt in the process at position \<open>i\<close>.\<close>

lemma schedule_step:
  assumes r: "running D xs i s" and e: "stack_ok xs s (r_esp (sc_cpu s))"
  defines "q \<equiv> xs ! (Suc i mod length xs)"
  shows "\<exists>s' sp. schedule s = Some (Gone s') \<and> running D xs (Suc i mod length xs) s' \<and>
    sload (p_kernel_esp q) s = Some sp \<and> r_esp (sc_cpu s') = sp + 4 \<and> sload sp s = Some (r_eip (sc_cpu s')) \<and>
    sload (p_kernel_stack_top q) s = Some (t_esp0 (tss (sc_gdt s'))) \<and> sload (p_pd_phys q) s = Some (cr3 (skern s')) \<and>
    kmem_here (skern s') = kmem_here (skern s) \<and> process_list s' = process_list s \<and>
    (\<forall>a. kmem_here (skern s) a \<longrightarrow> sload a s' = (if a = p_kernel_esp (xs ! i) then Some (r_esp (sc_cpu s)) else sload a s))"
proof -
  have i: "i < length xs" "current_process_ticks s = 0" using r by (simp_all add: running_def)
  have p: "xs ! i \<in> set xs" "q \<in> set xs" using nth_mem [OF i(1)] nth_mem [OF next_in_ring [OF i(1)]] by (simp_all add: q_def)
  have ok: "procs_ok D xs s" "linked_ring xs s" "\<forall>p \<in> set xs. dispatchable D xs s p" using r by (simp_all add: running_def)
  have st: "s\<lparr>current_process_ticks := 0\<rparr> = s" using i(2) by simp
  obtain k top pd sp ip where k: "context_switch (xs ! i) q s = Some (set_skern k (s\<lparr>current_process := q,
      sc_gdt := tss_set_stack top (sc_gdt s), sc_cpu := (sc_cpu s)\<lparr>r_esp := sp + 4, r_eip := ip\<rparr>\<rparr>))"
    and f: "sload (p_kernel_stack_top q) s = Some top" "sload (p_pd_phys q) s = Some pd" "sload (p_kernel_esp q) s = Some sp"
      "sload sp s = Some ip"
    and m: "cr3 k = pd" "kmem_ok D k" "kmem_here k = kmem_here (skern s)"
      "\<forall>b. kmem_here (skern s) b \<longrightarrow> vload32 b k = (if b = p_kernel_esp (xs ! i) then Some (r_esp (sc_cpu s)) else sload b s)"
    using context_switch_ok [OF ok(1) p bspec [OF ok(3) p(2)]] by (elim exE conjE) (rule that)
  define s' where "s' = set_skern k (s\<lparr>current_process := q,
      sc_gdt := tss_set_stack top (sc_gdt s), sc_cpu := (sc_cpu s)\<lparr>r_esp := sp + 4, r_eip := ip\<rparr>\<rparr>)"
  have run: "schedule s = Some (Gone s')" using schedule_running [OF r] k by (simp add: s'_def st q_def)
  have sk: "skern s' = k" by (simp add: s'_def)
  have l: "sload b s' = (if b = p_kernel_esp (xs ! i) then Some (r_esp (sc_cpu s)) else sload b s)" if "kmem_here (skern s) b" for b
    using m(4) that sk by (simp add: sload_def)
  note rs = ring_saved [OF ok p(1) e, of s', unfolded sk, OF m(2, 3) l]
  have "running D xs (Suc i mod length xs) s'"
    using rs r next_in_ring [OF i(1)] by (simp add: running_def s'_def q_def)
  then show ?thesis using run f m l sk by (auto simp: s'_def tss_set_stack_def)
qed

section \<open>Round robin\<close>

text \<open>What the running code may do between two timer interrupts: it keeps the structures of the processes and the variables
  of the scheduler, and what is mapped stays mapped.\<close>

definition undisturbed :: "u32 set \<Rightarrow> u32 list \<Rightarrow> sched \<Rightarrow> sched \<Rightarrow> bool" where
  "undisturbed D xs s s' \<longleftrightarrow> kmem_ok D (skern s') \<and> (\<forall>a. kmem_here (skern s) a \<longrightarrow> kmem_here (skern s') a) \<and>
     (\<forall>a \<in> ring_words xs. sload a s' = sload a s) \<and> sched_state s' = sched_state s \<and> current_process s' = current_process s \<and>
     current_process_ticks s' = current_process_ticks s"

text \<open>A run of the system; \<open>es\<close> are the stack pointers at its timer interrupts.\<close>

inductive runs :: "u32 set \<Rightarrow> u32 list \<Rightarrow> sched \<Rightarrow> u32 list \<Rightarrow> sched \<Rightarrow> bool" for D xs s where
  runs_start: "runs D xs s [] s"
| runs_code: "runs D xs s es s' \<Longrightarrow> undisturbed D xs s' s'' \<Longrightarrow> runs D xs s es s''"
| runs_tick: "runs D xs s es s' \<Longrightarrow> stack_ok xs s' (r_esp (sc_cpu s')) \<Longrightarrow> schedule s' = Some (Gone s'')
    \<Longrightarrow> runs D xs s (es @ [r_esp (sc_cpu s')]) s''"

lemma dispatchable_kept:
  assumes "undisturbed D xs s s'" "p \<in> set xs" "dispatchable D xs s p"
  shows "dispatchable D xs s' p"
proof -
  have "sload (p_pd_phys p) s' = sload (p_pd_phys p) s" "sload (p_kernel_esp p) s' = sload (p_kernel_esp p) s"
    using assms(1) ring_wordsI [OF assms(2)] by (simp_all add: undisturbed_def)
  then show ?thesis using assms(1, 3) by (auto simp: dispatchable_def stack_ok_def undisturbed_def)
qed

lemma running_kept:
  assumes u: "undisturbed D xs s s'" and r: "running D xs i s"
  shows "running D xs i s'"
proof -
  have "linked_ring xs s'" using r u ring_links_kept [of xs s' s] by (simp add: running_def undisturbed_def)
  moreover have "procs_ok D xs s'" using r u by (simp add: running_def procs_ok_def undisturbed_def)
  ultimately show ?thesis using r u dispatchable_kept [OF u] by (simp add: running_def undisturbed_def)
qed

lemma mod_ne: "m < n \<Longrightarrow> n < m + N \<Longrightarrow> (i + m) mod N \<noteq> (i + n) mod (N :: nat)"
proof
  assume m: "m < n" "n < m + N" and eq: "(i + m) mod N = (i + n) mod N"
  have "N dvd (i + n) - (i + m)" using eq m(1) mod_eq_dvd_iff_nat [of "i + m" "i + n" N] by simp
  then show False using m nat_dvd_not_less [of "n - m" N] by simp
qed

text \<open>The process at each position has the stack pointer saved that it had when it was last interrupted.\<close>

definition saved_ok :: "u32 list \<Rightarrow> nat \<Rightarrow> u32 list \<Rightarrow> sched \<Rightarrow> bool" where
  "saved_ok xs i es s \<longleftrightarrow> (\<forall>m < length es. length es \<le> m + length xs \<longrightarrow>
     sload (p_kernel_esp (xs ! ((i + m) mod length xs))) s = Some (es ! m))"

lemma esp_word: "xs \<noteq> [] \<Longrightarrow> p_kernel_esp (xs ! (n mod length xs)) \<in> ring_words xs"
  by (rule ring_wordsI [OF nth_mem, of "n mod length xs"]) simp_all

lemma saved_tick:
  assumes sv: "saved_ok xs i es s" and ok: "procs_ok D xs s" "xs \<noteq> []"
    and l: "\<forall>a. kmem_here (skern s) a \<longrightarrow> sload a s' = (if a = p_kernel_esp (xs ! ((i + length es) mod length xs)) then Some e else sload a s)"
  shows "saved_ok xs i (es @ [e]) s'"
  unfolding saved_ok_def
proof (intro allI impI)
  fix m assume m: "m < length (es @ [e])" "length (es @ [e]) \<le> m + length xs"
  have lt: "n mod length xs < length xs" for n using ok(2) by simp
  have here: "kmem_here (skern s) (p_kernel_esp (xs ! (n mod length xs)))" for n
    using ok(1) esp_word [OF ok(2)] by (simp add: procs_ok_def)
  show "sload (p_kernel_esp (xs ! ((i + m) mod length xs))) s' = Some ((es @ [e]) ! m)"
  proof (cases "m = length es")
    case True
    then show ?thesis using l here by simp
  next
    case False
    then have m': "m < length es" using m(1) by simp
    have "xs ! ((i + m) mod length xs) \<noteq> xs ! ((i + length es) mod length xs)"
      using mod_ne [of m "length es" "length xs" i] m' m(2) ok lt by (simp add: procs_ok_def nth_eq_iff_index_eq)
    then show ?thesis using l here sv m' m(2) by (simp add: saved_ok_def nth_append)
  qed
qed

lemma runs_ok:
  assumes "runs D xs s es s'" "running D xs i s"
  shows "running D xs ((i + length es) mod length xs) s' \<and> saved_ok xs i es s'"
  using assms
proof (induction rule: runs.induct)
  case runs_start
  then show ?case by (auto simp: running_def saved_ok_def)
next
  case (runs_code es s' s'')
  have r: "running D xs ((i + length es) mod length xs) s'" and sv: "saved_ok xs i es s'" using runs_code by simp_all
  have "xs \<noteq> []" using r by (auto simp: running_def)
  then have "saved_ok xs i es s''" using sv runs_code.hyps(2) esp_word by (simp add: saved_ok_def undisturbed_def)
  then show ?case using running_kept [OF runs_code.hyps(2) r] by simp
next
  case (runs_tick es s' s'')
  have r: "running D xs ((i + length es) mod length xs) s'" and sv: "saved_ok xs i es s'" using runs_tick by simp_all
  have ok: "procs_ok D xs s'" "xs \<noteq> []" using r by (auto simp: running_def)
  have "running D xs (Suc ((i + length es) mod length xs) mod length xs) s''" and
    l: "\<forall>a. kmem_here (skern s') a \<longrightarrow> sload a s'' = (if a = p_kernel_esp (xs ! ((i + length es) mod length xs)) then Some (r_esp (sc_cpu s')) else sload a s')"
    using schedule_step [OF r runs_tick.hyps(2)] runs_tick.hyps(3) by auto
  then show ?case using saved_tick [OF sv ok l] by (simp add: mod_Suc_eq)
qed

section \<open>Changing the ring\<close>

text \<open>The ring as the variable \<open>process_list\<close> holds it.\<close>

definition ring_ok :: "u32 set \<Rightarrow> u32 list \<Rightarrow> sched \<Rightarrow> bool" where
  "ring_ok D xs s \<longleftrightarrow> procs_ok D xs s \<and> linked_ring xs s \<and> process_list s = (if xs = [] then 0 else hd xs)"

lemma ring_next: "linked_ring xs s \<Longrightarrow> i < length xs \<Longrightarrow> sload (p_next (xs ! i)) s = Some (if Suc i = length xs then hd xs else xs ! Suc i)"
  by (cases xs) (auto simp: linked_ring_def)

lemma last_process_ok:
  assumes "ring_ok D xs s" "i < length xs"
  shows "last_process (xs ! i) s = Some (last xs)"
  using assms(2)
proof (induction "length xs - i" arbitrary: i)
  case (Suc n)
  have r: "linked_ring xs s" "distinct xs" "process_list s = hd xs"
    using assms(1) Suc.prems by (auto simp: ring_ok_def procs_ok_def)
  note nx = ring_next [OF r(1) Suc.prems]
  show ?case
  proof (cases "Suc i = length xs")
    case True
    then have "last xs = xs ! i" by (metis diff_Suc_1 last_conv_nth length_0_conv nat.distinct(1))
    then show ?thesis using nx True r(3) by (simp add: last_process.simps)
  next
    case False
    then have s: "Suc i < length xs" using Suc.prems by simp
    then have "xs ! Suc i \<noteq> hd xs" using r(2) by (metis Zero_not_Suc distinct_conv_nth hd_conv_nth length_greater_0_conv less_trans zero_less_Suc)
    then show ?thesis using nx False r(3) Suc.hyps(1) [OF _ s] Suc.hyps(2) by (subst last_process.simps) simp
  qed
qed simp

lemma pwords_mono: "procs_ok D (xs @ [p]) s \<Longrightarrow> procs_ok D xs s"
  by (auto simp: procs_ok_def ring_words_def)

text \<open>A change to \<open>next\<close> fields only.\<close>

lemma procs_kept: "procs_ok D xs s \<Longrightarrow> kmem_ok D (skern s') \<Longrightarrow> kmem_here (skern s') = kmem_here (skern s) \<Longrightarrow> procs_ok D xs s'"
  by (simp add: procs_ok_def)

lemma linked_snoc:
  assumes l: "linked_ring xs s" "distinct (xs @ [p])"
    and s': "\<And>q. q \<in> set (xs @ [p]) \<Longrightarrow> sload (p_next q) s' =
      (if q = p then Some (hd (xs @ [p])) else if xs \<noteq> [] \<and> q = last xs then Some p else sload (p_next q) s)"
  shows "linked_ring (xs @ [p]) s'"
  unfolding linked_ring_def
proof (intro allI impI)
  fix i assume i: "i < length (xs @ [p])"
  show "sload (p_next ((xs @ [p]) ! i)) s' = Some ((xs @ [p]) ! (Suc i mod length (xs @ [p])))"
  proof (cases "i = length xs")
    case True
    then show ?thesis using s' [of p] by (simp add: hd_conv_nth nth_append)
  next
    case False
    then have ix: "i < length xs" using i by simp
    then have q: "xs ! i \<in> set xs" "xs ! i \<noteq> p" using l(2) nth_mem by fastforce+
    have "xs \<noteq> [] \<and> xs ! i = last xs \<longleftrightarrow> Suc i = length xs"
      using l(2) ix by (cases xs rule: rev_cases) (auto simp: nth_append in_set_conv_nth)
    then show ?thesis using s' [of "xs ! i"] q ix ring_next [OF l(1) ix] by (simp add: nth_append)
  qed
qed

lemma add_process_ok:
  assumes ok: "ring_ok D xs s" "procs_ok D (xs @ [p]) s"
  shows "\<exists>s'. scheduler_add_process p s = Some s' \<and> ring_ok D (xs @ [p]) s' \<and> kmem_here (skern s') = kmem_here (skern s) \<and>
    (\<forall>a. kmem_here (skern s) a \<and> a \<noteq> p_next p \<and> (xs \<noteq> [] \<longrightarrow> a \<noteq> p_next (last xs)) \<longrightarrow> sload a s' = sload a s)"
proof (cases "xs = []")
  case True
  define s0 where "s0 = s\<lparr>process_list := p\<rparr>"
  have h: "kmem_ok D (skern s0)" "kmem_here (skern s0) (p_next p)"
    using ok(2) True by (simp_all add: s0_def procs_ok_def ring_words_def)
  obtain k where k: "sstore (p_next p) p s0 = Some (set_skern k s0)" "kmem_ok D k" "kmem_here k = kmem_here (skern s0)"
    "\<forall>b. kmem_here (skern s0) b \<longrightarrow> vload32 b k = (if b = p_next p then Some p else sload b s0)"
    using sstore_here [OF h, of p] by (elim exE conjE) (rule that)
  have "linked_ring [p] (set_skern k s0)" using k(4) h(2) by (simp add: linked_ring_def sload_def)
  then have "ring_ok D [p] (set_skern k s0)" using procs_kept [OF ok(2), of "set_skern k s0"] k(2, 3) True
    by (simp add: ring_ok_def s0_def)
  moreover have "scheduler_add_process p s = Some (set_skern k s0)"
    using ok(1) True k(1) by (simp add: scheduler_add_process_def ring_ok_def s0_def)
  ultimately show ?thesis using k(3, 4) True by (auto simp: s0_def sload_def)
next
  case False
  have here: "kmem_here (skern s) (p_next q)" if "q \<in> set (xs @ [p])" for q
    using ok(2) ring_wordsI [OF that] by (simp add: procs_ok_def)
  have km: "kmem_ok D (skern s)" and pl: "process_list s = hd xs" "hd xs \<noteq> 0" and d: "distinct (xs @ [p])"
    using ok False hd_in_set [OF False] unfolding procs_ok_def ring_ok_def by (simp, simp, metis, simp)
  have lp: "last_process (hd xs) s = Some (last xs)" using last_process_ok [OF ok(1), of 0] False by (simp add: hd_conv_nth)
  obtain k1 where k1: "sstore (p_next (last xs)) p s = Some (set_skern k1 s)" "kmem_ok D k1" "kmem_here k1 = kmem_here (skern s)"
    "\<forall>b. kmem_here (skern s) b \<longrightarrow> vload32 b k1 = (if b = p_next (last xs) then Some p else sload b s)"
    using sstore_here [OF km here [of "last xs"], of p] False by (auto simp: last_in_set)
  obtain k2 where k2: "sstore (p_next p) (hd xs) (set_skern k1 s) = Some (set_skern k2 (set_skern k1 s))" "kmem_ok D k2" "kmem_here k2 = kmem_here k1"
    "\<forall>b. kmem_here k1 b \<longrightarrow> vload32 b k2 = (if b = p_next p then Some (hd xs) else vload32 b k1)"
    using sstore_here [of D "set_skern k1 s" "p_next p" "hd xs"] k1(2, 3) here [of p] by (auto simp: sload_def)
  have ss: "set_skern k2 (set_skern k1 s) = set_skern k2 s" by (simp add: set_skern_def)
  have l: "sload a (set_skern k2 s) = (if a = p_next p then Some (hd xs) else if a = p_next (last xs) then Some p else sload a s)"
    if "kmem_here (skern s) a" for a using k1(3, 4) k2(4) that by (simp add: sload_def)
  have "linked_ring (xs @ [p]) (set_skern k2 s)"
    by (rule linked_snoc [of xs s]) (use ok(1) d l [OF here] False in \<open>auto simp: ring_ok_def\<close>)
  then have "ring_ok D (xs @ [p]) (set_skern k2 s)"
    using procs_kept [OF ok(2), of "set_skern k2 s"] k1(3) k2(2, 3) False pl by (simp add: ring_ok_def)
  moreover have "scheduler_add_process p s = Some (set_skern k2 s)"
    using pl lp k1(1) k2(1) ss by (simp add: scheduler_add_process_def)
  ultimately show ?thesis using k1(3) k2(3) l False by (auto simp: sload_def)
qed

section \<open>Leaving the ring\<close>

text \<open>\<open>chain s l\<close>: every process of \<open>l\<close> but the last points to the following one.\<close>

fun chain :: "sched \<Rightarrow> u32 list \<Rightarrow> bool" where
  "chain s (p # q # l) \<longleftrightarrow> sload (p_next p) s = Some q \<and> chain s (q # l)"
| "chain s l \<longleftrightarrow> True"

lemma chain_nth: "chain s l \<longleftrightarrow> (\<forall>i. Suc i < length l \<longrightarrow> sload (p_next (l ! i)) s = Some (l ! Suc i))"
  by (induction s l rule: chain.induct) (auto simp: less_Suc_eq_0_disj all_conj_distrib)

lemma chain_append: "chain s (l @ p # r) \<longleftrightarrow> chain s (l @ [p]) \<and> chain s (p # r)"
  by (induction s l rule: chain.induct) (auto simp: neq_Nil_conv)

lemma ring_chain: "xs \<noteq> [] \<Longrightarrow> linked_ring xs s \<longleftrightarrow> chain s (xs @ [hd xs])"
proof -
  assume x: "xs \<noteq> []"
  have "xs ! (Suc i mod length xs) = (xs @ [hd xs]) ! Suc i" if "i < length xs" for i
    using that x by (cases "Suc i = length xs") (auto simp: nth_append hd_conv_nth)
  then show ?thesis by (simp add: linked_ring_def chain_nth nth_append cong: conj_cong)
qed

lemma chain_cong: "(\<And>q. q \<in> set (butlast l) \<Longrightarrow> sload (p_next q) s' = sload (p_next q) s) \<Longrightarrow> chain s' l = chain s l"
  by (induction s l rule: chain.induct) auto

lemma unlink_scan_ok:
  "chain s (y # ys @ [p]) \<Longrightarrow> p \<notin> set ys \<Longrightarrow> process_list s \<notin> set ys \<Longrightarrow> unlink_scan p y s = Some (last (y # ys))"
proof (induction ys arbitrary: y)
  case Nil
  then show ?case by (simp add: unlink_scan.simps)
next
  case (Cons z ys)
  then have "unlink_scan p z s = Some (last (z # ys))" by simp
  then show ?case using Cons.prems by (subst unlink_scan.simps) auto
qed

text \<open>Without \<open>p\<close>, after its predecessor \<open>a\<close> has been given its successor.\<close>

lemma unlink_chain:
  assumes c: "chain s (ys @ p # zs @ [hd (ys @ [p])])" and d: "distinct (ys @ p # zs)" and ne: "ys @ zs \<noteq> []"
  defines "a \<equiv> if ys = [] then last zs else last ys" and "b \<equiv> hd (zs @ ys)"
  assumes s': "\<And>q. q \<in> set (ys @ p # zs) \<Longrightarrow> sload (p_next q) s' = (if q = a then Some b else sload (p_next q) s)"
  shows "sload (p_next a) s = Some p" "sload (p_next p) s = Some b" "chain s' ((ys @ zs) @ [hd (ys @ zs)])"
proof -
  have kept: "sload (p_next q) s' = sload (p_next q) s" if "q \<in> set (ys @ p # zs)" "q \<noteq> a" for q using s' [OF that(1)] that(2) by simp
  have all: "sload (p_next a) s = Some p \<and> sload (p_next p) s = Some b \<and> chain s' ((ys @ zs) @ [hd (ys @ zs)])"
  proof (cases ys rule: rev_cases)
    case Nil
    then obtain l z where z: "zs = l @ [z]" using ne by (cases zs rule: rev_cases) auto
    have ab: "a = z" "b = hd zs" by (simp_all add: a_def b_def Nil z)
    have "chain s (p # zs @ [p])" using c Nil by simp
    then have 1: "sload (p_next p) s = Some b" "chain s (l @ z # [p])" unfolding ab z by (cases l; simp)+
    then have 2: "sload (p_next z) s = Some p" "chain s (l @ [z])" by (simp_all add: chain_append [of s l z "[p]"])
    have "chain s' (l @ [z])" using 2(2) by (subst chain_cong [of _ s' s]) (use kept d in \<open>auto simp: Nil z ab\<close>)
    then show ?thesis using 1 2 s' [of z] by (simp add: Nil z chain_append [of s' l z "[_]"] ab)
  next
    case (snoc l z)
    have a: "a = z" by (simp add: a_def snoc)
    obtain r where r: "zs @ [hd ys] = b # r" by (cases zs) (auto simp: b_def snoc)
    have h: "hd (ys @ [p]) = hd ys" "hd (ys @ zs) = hd ys" by (simp_all add: snoc hd_append)
    have "chain s (l @ z # p # b # r)" using c unfolding h r by (simp add: snoc)
    then have 1: "chain s (l @ [z])" "sload (p_next z) s = Some p" "sload (p_next p) s = Some b" "chain s (b # r)"
      by (simp_all add: chain_append [of s l z "p # b # r"])
    have "butlast (b # r) = zs" using r by (metis butlast_snoc)
    then have "chain s' (b # r)" using 1(4) by (subst chain_cong [of _ s' s]) (use kept d in \<open>auto simp: a snoc simp del: butlast.simps\<close>)
    moreover have "chain s' (l @ [z])" using 1(1) by (subst chain_cong [of _ s' s]) (use kept d in \<open>auto simp: a snoc\<close>)
    moreover have "(ys @ zs) @ [hd (ys @ zs)] = l @ z # b # r" using r unfolding h by (simp add: snoc)
    ultimately show ?thesis using 1 s' [of z] by (simp add: a chain_append [of s' l z "b # r"] snoc)
  qed
  then show "sload (p_next a) s = Some p" "sload (p_next p) s = Some b" "chain s' ((ys @ zs) @ [hd (ys @ zs)])" by simp_all
qed

lemma procs_sublist: "procs_ok D xs s \<Longrightarrow> set ys \<subseteq> set xs \<Longrightarrow> distinct ys \<Longrightarrow> procs_ok D ys s"
  unfolding procs_ok_def ring_words_def by (intro conjI) blast+

lemma unlink_ok:
  assumes ok: "ring_ok D (ys @ p # zs) s" and ne: "ys @ zs \<noteq> []"
  shows "sload (p_next p) s = Some (hd (zs @ ys)) \<and> (\<exists>k. process_unlink p s = Some (set_skern k (s\<lparr>process_list := hd (ys @ zs)\<rparr>)) \<and>
    ring_ok D (ys @ zs) (set_skern k (s\<lparr>process_list := hd (ys @ zs)\<rparr>)) \<and> kmem_here k = kmem_here (skern s) \<and> cr3 k = cr3 (skern s) \<and>
    (\<forall>a. kmem_here (skern s) a \<and> a \<noteq> p_next (if ys = [] then last zs else last ys) \<longrightarrow> vload32 a k = sload a s))"
proof -
  define a where "a = (if ys = [] then last zs else last ys)"
  define b where "b = hd (zs @ ys)"
  have procs: "procs_ok D (ys @ p # zs) s" and pl: "process_list s = hd (ys @ [p])" and c: "chain s (ys @ p # zs @ [hd (ys @ [p])])"
    and d: "distinct (ys @ p # zs)"
    using ok ring_chain [of "ys @ p # zs" s] by (auto simp: ring_ok_def procs_ok_def hd_append)
  have a: "a \<in> set (ys @ p # zs)" "a \<noteq> p" using d ne last_in_set [of ys] last_in_set [of zs] by (auto simp: a_def)
  have here: "kmem_here (skern s) (p_next q)" if "q \<in> set (ys @ p # zs)" for q
    using procs ring_wordsI [OF that] by (simp add: procs_ok_def)
  have km: "kmem_ok D (skern s)" using procs by (simp add: procs_ok_def)
  obtain k where k: "sstore (p_next a) b s = Some (set_skern k s)" "kmem_ok D k" "kmem_here k = kmem_here (skern s)" "cr3 k = cr3 (skern s)"
    "\<forall>q. kmem_here (skern s) q \<longrightarrow> vload32 q k = (if q = p_next a then Some b else sload q s)"
    using sstore_here [OF km here [OF a(1)], of b] by (elim exE conjE) (rule that)
  define s' where "s' = set_skern k (s\<lparr>process_list := hd (ys @ zs)\<rparr>)"
  have l: "sload q s' = (if q = p_next a then Some b else sload q s)" if "kmem_here (skern s) q" for q
    using k(5) that by (simp add: s'_def sload_def)
  have lq: "sload (p_next q) s' = (if q = a then Some b else sload (p_next q) s)" if "q \<in> set (ys @ p # zs)" for q
    using l [OF here [OF that]] by simp
  note u = unlink_chain [OF c d ne, folded a_def b_def, of s', OF lq]
  have pl': "(if process_list s = p then b else process_list s) = hd (ys @ zs)" using d pl by (cases ys) (auto simp: b_def)
  have scan: "unlink_scan p (process_list s) s = Some a"
  proof (cases ys)
    case Nil
    then show ?thesis using unlink_scan_ok [of s p zs p] c d pl ne by (simp add: a_def)
  next
    case (Cons y ys')
    have "chain s (ys @ [p])" using c by (simp only: chain_append [of s ys p "zs @ [hd (ys @ [p])]"])
    then show ?thesis using Cons unlink_scan_ok [of s y ys' p] d pl by (simp add: a_def)
  qed
  have lp: "sload (p_next p) (set_skern k s) = Some b" using lq [of p] a(2) u(2) by (simp add: s'_def sload_def)
  have "process_unlink p s = (if process_list s = p then Some ((set_skern k s)\<lparr>process_list := b\<rparr>) else Some (set_skern k s))"
    by (simp only: process_unlink_def scan u(1, 2) k(1) lp Option.bind.bind_lunit refl if_True set_skern_simps)
  also have "\<dots> = Some (set_skern k (s\<lparr>process_list := if process_list s = p then b else process_list s\<rparr>))"
    by (simp add: set_skern_def)
  finally have "process_unlink p s = Some s'" unfolding pl' s'_def .
  moreover have "ring_ok D (ys @ zs) s'"
  proof -
    have "procs_ok D (ys @ zs) s" using procs_sublist [OF procs, of "ys @ zs"] d by auto
    then have "procs_ok D (ys @ zs) s'" by (rule procs_kept) (simp_all add: s'_def k(2, 3))
    moreover have "linked_ring (ys @ zs) s'" using u(3) ring_chain [OF ne] by blast
    ultimately show ?thesis using ne by (auto simp: ring_ok_def s'_def)
  qed
  ultimately show ?thesis using k(3-5) u(2) unfolding s'_def a_def b_def by auto
qed

end
