(* ===== verification/Sched_Run.thy ===== *)
theory Sched_Run
  imports Sched_Ok
begin

text \<open>
  What the scheduler guarantees: processes are added at the end of the ring, take turns, and leave it.  The example is a
  ring of two processes in one page of the kernel region.
\<close>

section \<open>Leaving\<close>

lemma dispatchable_unlinked:
  assumes ok: "procs_ok D xs s" and a: "a \<in> set xs" "set ys \<subseteq> set xs" and q: "q \<in> set ys" "dispatchable D ys s q"
    and l: "\<And>b. kmem_here (skern s) b \<Longrightarrow> b \<noteq> p_next a \<Longrightarrow> sload b s' = sload b s" and h: "kmem_here (skern s') = kmem_here (skern s)"
  shows "dispatchable D ys s' q" "x \<in> {4, 8, 12} \<Longrightarrow> sload (q + x) s' = sload (q + x) s"
proof -
  have qx: "q \<in> set xs" using q(1) a(2) by blast
  show f: "sload (q + x) s' = sload (q + x) s" if x: "x \<in> {4, 8, 12}" for x
  proof (rule l)
    have w: "q + x \<in> pwords q" using x by (auto simp: pwords_def)
    show "kmem_here (skern s) (q + x)" using ok ring_wordsI [OF qx w] by (simp add: procs_ok_def)
    show "q + x \<noteq> p_next a" using field_eq [OF ok qx a(1) _ w, of 20] x by auto
  qed
  have "stack_ok ys s' e = stack_ok ys s e" for e using h by (simp add: stack_ok_def)
  then show "dispatchable D ys s' q" using q(2) f [of 4] f [of 8] by (simp add: dispatchable_def)
qed

lemma exit_current:
  assumes ok: "ring_ok D (ys @ p # zs) s" and ne: "ys @ zs \<noteq> []" and c: "current_process s = p"
    and d: "dispatchable D (ys @ zs) s (hd (ys @ zs))"
  defines "q \<equiv> hd (ys @ zs)"
  shows "\<exists>s' sp. process_exit p s = Some (Gone s') \<and> ring_ok D (ys @ zs) s' \<and> current_process s' = q \<and>
    sload (p_kernel_esp q) s = Some sp \<and> r_esp (sc_cpu s') = sp + 4 \<and> sload sp s = Some (r_eip (sc_cpu s')) \<and>
    sload (p_kernel_stack_top q) s = Some (t_esp0 (tss (sc_gdt s'))) \<and> sload (p_pd_phys q) s = Some (cr3 (skern s'))"
proof -
  define a where "a = (if ys = [] then last zs else last ys)"
  have procs: "procs_ok D (ys @ p # zs) s" and dist: "distinct (ys @ p # zs)" using ok by (auto simp: ring_ok_def procs_ok_def)
  have a: "a \<in> set (ys @ zs)" using ne last_in_set [of ys] last_in_set [of zs] by (auto simp: a_def)
  obtain k where k: "process_unlink p s = Some (set_skern k (s\<lparr>process_list := q\<rparr>))"
    "ring_ok D (ys @ zs) (set_skern k (s\<lparr>process_list := q\<rparr>))" "kmem_here k = kmem_here (skern s)"
    "\<forall>b. kmem_here (skern s) b \<and> b \<noteq> p_next a \<longrightarrow> vload32 b k = sload b s"
    using unlink_ok [OF ok ne] unfolding a_def q_def by blast
  define s1 where "s1 = set_skern k (s\<lparr>process_list := q, current_process := q\<rparr>)"
  have l: "sload b s1 = sload b s" if "kmem_here (skern s) b" "b \<noteq> p_next a" for b using k(4) that by (simp add: s1_def sload_def)
  have q: "q \<in> set (ys @ zs)" using hd_in_set [OF ne] by (simp add: q_def)
  have h1: "kmem_here (skern s1) = kmem_here (skern s)" using k(3) by (simp add: s1_def)
  note du = dispatchable_unlinked [OF procs _ _ q d [folded q_def] l h1]
  have d1: "dispatchable D (ys @ zs) s1 q" "\<And>x. x \<in> {4, 8, 12} \<Longrightarrow> sload (q + x) s1 = sload (q + x) s"
    using du a by auto
  have r1: "ring_ok D (ys @ zs) s1" using k(2) by (simp add: s1_def ring_ok_def procs_ok_def linked_ring_def sload_def)
  then have p1: "procs_ok D (ys @ zs) s1" by (simp add: ring_ok_def)
  obtain k2 top pd e ip where e: "enter_process None q s1 = Some (set_skern k2 (s1\<lparr>sc_gdt := tss_set_stack top (sc_gdt s1),
      sc_cpu := (sc_cpu s1)\<lparr>r_esp := e + 4, r_eip := ip\<rparr>\<rparr>))"
    and f: "sload (p_kernel_stack_top q) s1 = Some top" "sload (p_pd_phys q) s1 = Some pd" "sload (p_kernel_esp q) s1 = Some e"
      "sload e s1 = Some ip"
    and m: "cr3 k2 = pd" "kmem_ok D k2" "kmem_here k2 = kmem_here (skern s1)"
      "\<forall>b. kmem_here (skern s1) b \<longrightarrow> vload32 b k2 = sload b s1"
    using enter_first_ok [OF p1 q d1(1)] by (elim exE conjE) (rule that)
  define s' where "s' = set_skern k2 (s1\<lparr>sc_gdt := tss_set_stack top (sc_gdt s1), sc_cpu := (sc_cpu s1)\<lparr>r_esp := e + 4, r_eip := ip\<rparr>\<rparr>)"
  have nx: "sload (p_next p) s = Some (hd (zs @ ys))" "hd (zs @ ys) \<noteq> p"
    using unlink_ok [OF ok ne] hd_in_set [of "zs @ ys"] ne dist by auto
  have "process_exit p s = Some (Gone s')"
  proof -
    have "(set_skern k (s\<lparr>process_list := q\<rparr>))\<lparr>current_process := q\<rparr> = s1" by (simp add: s1_def set_skern_def)
    then show ?thesis using nx k(1) e [folded s'_def] c by (simp add: process_exit_def)
  qed
  moreover have "ring_ok D (ys @ zs) s'"
  proof -
    have "\<forall>b \<in> ring_words (ys @ zs). sload b s' = sload b s1" using p1 m(4) by (simp add: procs_ok_def s'_def sload_def)
    then show ?thesis using r1 m(2, 3) ring_links_kept [of "ys @ zs" s' s1] procs_kept [OF p1, of s'] by (simp add: ring_ok_def s'_def)
  qed
  moreover have "e \<noteq> p_next a" "kmem_here (skern s) e"
    using d1(1) f(3) ring_wordsI [OF a, of "p_next a"] h1 by (auto simp: dispatchable_def stack_ok_def)
  then have "sload e s = Some ip" using l f(4) by simp
  ultimately show ?thesis using f d1(2) m(1) by (auto simp: s'_def s1_def tss_set_stack_def)
qed

section \<open>Starting a process\<close>

lemma sstores_ok:
  "kmem_ok D (skern s) \<Longrightarrow> (\<forall>x \<in> set ws. kmem_here (skern s) (fst x)) \<Longrightarrow>
    \<exists>k. sstores ws s = Some (set_skern k s) \<and> kmem_ok D k \<and> kmem_here k = kmem_here (skern s) \<and> cr3 k = cr3 (skern s) \<and>
      (\<forall>a. kmem_here (skern s) a \<longrightarrow> vload32 a k = (case map_of (rev ws) a of Some w \<Rightarrow> Some w | None \<Rightarrow> sload a s))"
proof (induction ws arbitrary: s)
  case Nil
  have "set_skern (skern s) s = s" by (simp add: set_skern_def skern_def)
  then show ?case using Nil by (intro exI [of _ "skern s"]) (simp add: sload_def)
next
  case (Cons x ws)
  obtain k1 where k1: "sstore (fst x) (snd x) s = Some (set_skern k1 s)" "kmem_ok D k1" "kmem_here k1 = kmem_here (skern s)"
    "cr3 k1 = cr3 (skern s)" "\<forall>b. kmem_here (skern s) b \<longrightarrow> vload32 b k1 = (if b = fst x then Some (snd x) else sload b s)"
    using sstore_here [OF Cons.prems(1), of "fst x" "snd x"] Cons.prems(2) by auto
  obtain k where k: "sstores ws (set_skern k1 s) = Some (set_skern k (set_skern k1 s))" "kmem_ok D k" "kmem_here k = kmem_here k1" "cr3 k = cr3 k1"
    "\<forall>a. kmem_here k1 a \<longrightarrow> vload32 a k = (case map_of (rev ws) a of Some w \<Rightarrow> Some w | None \<Rightarrow> vload32 a k1)"
  proof -
    have "kmem_ok D (skern (set_skern k1 s))" "\<forall>x \<in> set ws. kmem_here (skern (set_skern k1 s)) (fst x)" using k1(2, 3) Cons.prems(2) by simp_all
    from Cons.IH [OF this] show thesis unfolding sload_def skern_simps by (elim exE conjE) (rule that)
  qed
  have "set_skern k (set_skern k1 s) = set_skern k s" by (simp add: set_skern_def)
  then have "sstores (x # ws) s = Some (set_skern k s)" using k1(1) k(1) by simp
  moreover have "vload32 a k = (case map_of (rev (x # ws)) a of Some w \<Rightarrow> Some w | None \<Rightarrow> sload a s)" if "kmem_here (skern s) a" for a
    using k(5) k1(3, 5) that by (auto simp: map_add_def split: option.split)
  ultimately show ?case using k k1(3, 4) by auto
qed

text \<open>Clearing whole words byte by byte.\<close>

lemma vfill_append: "vfill (is @ js) va b s = do { s \<leftarrow> vfill is va b s; vfill js va b s }"
  by (induction "is" arbitrary: s) (auto split: bind_splits)

lemma vfill_shift: "vfill (map ((+) n) is) va b s = vfill is (va + of_nat n) b s"
  by (induction "is" arbitrary: s) (simp_all add: add.assoc)

lemma vzero_word:
  assumes "kmem_ok D s" "kmem_here s a"
  shows "vfill [0..<4] a 0 s = vstore32 a 0 s"
proof -
  obtain F k where F: "walk (phys s) (cr3 s) (pdi a) (pti a) = Some F" "poff a = 4 * k" "k < 1024" "is_frame F"
    "vstore32 a 0 s = Some (s\<lparr>phys := st32 (phys s) (slot F k) 0\<rparr>)" using here_slot [OF assms(2)] by metis
  have hp: "heap_pde (pdi a)" using assms(2) by (simp add: kmem_here_def)
  have ok: "tables_ok D (phys s)" "cr3 s \<in> D" "data_ok D (phys s) (cr3 s)" using assms(1) by (simp_all add: kmem_ok_def)
  have fr: "F \<notin> table_frames D (phys s)" using ok(3) hp F(1) Vmm_Walk.index_bounds(2) unfolding data_ok_def by blast
  have "present (pd_entry s (pdi a))" using ok(1, 2) hp unfolding tables_ok_def by blast
  then have ne: "F \<noteq> frame_of (cr3 s)" "F \<noteq> frame_of (pd_entry s (pdi a))"
    using fr directory_frame [OF ok(1, 2)] table_framesI [OF ok(2) Vmm_Walk.index_bounds(1) [of a], where m = "phys s"] by blast+
  have a: "a = mk (pdi a) (pti a) 0 + of_nat (4 * k)" using mk_self [of a] F(2) by (simp add: mk_def)
  have "vfill [0..<4] a 0 s = vfill (map ((+) (4 * k)) [0..<4]) (mk (pdi a) (pti a) 0) 0 s" using a vfill_shift by metis
  also have "\<dots> = Some (s\<lparr>phys := \<lambda>x. if frame_of x = F \<and> poff x \<in> set (map ((+) (4 * k)) [0..<4]) then 0 else phys s x\<rparr>)"
    using F(3) Vmm_Walk.index_bounds [of a] by (intro vfill_page [OF F(1) ne]) auto
  also have "(\<lambda>x. if frame_of x = F \<and> poff x \<in> set (map ((+) (4 * k)) [0..<4]) then 0 else phys s x) = st32 (phys s) (slot F k) 0"
  proof
    fix x
    have b: "x = byte_at F j \<longleftrightarrow> frame_of x = F \<and> poff x = j" if "j < 4096" for j
      using frame_in_frame [OF F(4) that] poff_in_frame [OF F(4) that] frame_split [of x] unfolding byte_at_def by metis
    have "poff x \<in> set (map ((+) (4 * k)) [0..<4]) \<longleftrightarrow> poff x = 4 * k \<or> poff x = 4 * k + 1 \<or> poff x = 4 * k + 2 \<or> poff x = 4 * k + 3"
      by (simp add: upt_rec) linarith
    then show "(if frame_of x = F \<and> poff x \<in> set (map ((+) (4 * k)) [0..<4]) then 0 else phys s x) = st32 (phys s) (slot F k) 0 x"
      using b [of "4 * k"] b [of "4 * k + 1"] b [of "4 * k + 2"] b [of "4 * k + 3"] F(3) unfolding st32_bytes by auto
  qed
  finally show ?thesis using F(5) by simp
qed

lemma set_skern_inj: "set_skern k s = set_skern k' s \<longleftrightarrow> k = k'"
  by (metis skern_simps(1))

lemma set_skern_set: "set_skern k (set_skern k' s) = set_skern k s"
  by (simp add: set_skern_def)

lemma sstores_append: "sstores (xs @ ys) s = do { s \<leftarrow> sstores xs s; sstores ys s }"
  by (induction xs arbitrary: s) (auto split: bind_splits)

lemma vzero_words:
  "kmem_ok D (skern s) \<Longrightarrow> \<forall>i < n. kmem_here (skern s) (a + 4 * of_nat i) \<Longrightarrow>
    do { k \<leftarrow> vfill [0..<4 * n] a 0 (skern s); Some (set_skern k s) } = sstores (map (\<lambda>i. (a + 4 * of_nat i, 0)) [0..<n]) s"
proof (induction n)
  case 0
  then show ?case by (simp add: set_skern_def skern_def)
next
  case (Suc n)
  let ?ws = "map (\<lambda>i. (a + 4 * of_nat i, 0)) [0..<n]"
  obtain k where k: "sstores ?ws s = Some (set_skern k s)" "kmem_ok D k" "kmem_here k = kmem_here (skern s)"
    using sstores_ok [OF Suc.prems(1), of ?ws] Suc.prems(2) by auto
  have f: "vfill [0..<4 * n] a 0 (skern s) = Some k"
    using Suc k(1) by (auto simp: Option.bind_eq_Some_conv set_skern_inj)
  have "[0..<4 * Suc n] = [0..<4 * n] @ map ((+) (4 * n)) [0..<4]" by (simp add: numeral_eq_Suc)
  then have "vfill [0..<4 * Suc n] a 0 (skern s) = vfill [0..<4] (a + 4 * of_nat n) 0 k"
    using f by (simp add: vfill_append vfill_shift)
  also have "\<dots> = vstore32 (a + 4 * of_nat n) 0 k" using vzero_word [OF k(2)] k(3) Suc.prems(2) by simp
  finally show ?case using k(1) by (simp add: sstores_append sstore_def set_skern_set)
qed

text \<open>The frame \<open>process_init\<close> builds.\<close>

definition start_frame :: "u32 \<Rightarrow> interrupt_frame" where
  "start_frame start = \<lparr>f_gs = 0x23, f_fs = 0x23, f_es = 0x23, f_ds = 0x23, f_edi = 0, f_esi = 0, f_ebp = 0, f_esp = PROCESS_STACK_TOP,
     f_ebx = 0, f_edx = 0, f_ecx = 0, f_eax = 0, f_int_no = 0, f_err_code = 0, f_eip = start, f_cs = 0x1B, f_eflags = 0x202,
     f_useresp = 0, f_ss = 0x23\<rparr>"

definition prime_words :: "u32 \<Rightarrow> u32 \<Rightarrow> u32 \<Rightarrow> u32 \<Rightarrow> (u32 \<times> u32) list" where
  "prime_words fork_ret_addr p start frame =
     [(frame + 56, start), (frame + 60, 0x1B), (frame + 64, 0x202), (frame + 28, PROCESS_STACK_TOP), (frame + 72, 0x23),
      (frame, 0x23), (frame + 4, 0x23), (frame + 8, 0x23), (frame + 12, 0x23),
      (frame - 4, fork_ret_addr), (p_kernel_esp p, frame - 4), (p_next p, 0)]"

lemma prime_stack_eq:
  assumes ok: "kmem_ok D (skern s)" and top: "sload (p_kernel_stack_top p) s = Some (frame + 76)"
    and h: "\<forall>i < 19. kmem_here (skern s) (frame + 4 * of_nat i)"
  shows "prime_stack fr p start s = sstores (map (\<lambda>i. (frame + 4 * of_nat i, 0)) [0..<19] @ prime_words fr p start frame) s"
proof -
  have "smemset frame 0 76 s = sstores (map (\<lambda>i. (frame + 4 * of_nat i, 0)) [0..<19]) s"
    using vzero_words [OF ok h] by (simp add: smemset_def vmemset_def del: upt_rec_numeral)
  moreover have "frame + 76 - 76 = frame" "ucast (0x1B :: u16) = (0x1B :: u32)" "ucast (0x23 :: u16) = (0x23 :: u32)" by simp_all
  ultimately show ?thesis using top
    by (simp only: prime_stack_def prime_words_def sstores_append Let_def Option.bind.bind_lunit)
qed

text \<open>The index of a word within the frame.\<close>

lemma frame_index: "i < 19 \<Longrightarrow> j < 19 \<Longrightarrow> frame + 4 * of_nat i = frame + 4 * (of_nat j :: u32) \<longleftrightarrow> i = j"
proof -
  assume ij: "i < 19" "j < 19"
  have "unat (4 * of_nat n :: u32) = 4 * n" if "n < 19" for n
    using that unat_of_nat32 [of "4 * n"] by simp
  then show ?thesis using ij by (metis add_left_cancel mult_left_cancel numeral_neq_zero)
qed

lemma below_frame: "i < 19 \<Longrightarrow> frame + 4 * of_nat i \<noteq> (frame - 4 :: u32)"
proof
  assume i: "i < 19" and eq: "frame + 4 * of_nat i = (frame - 4 :: u32)"
  have "of_nat (4 * Suc i) = (0 :: u32)" using eq by (simp add: algebra_simps)
  then show False using i unat_of_nat32 [of "4 * Suc i"] by (simp del: of_nat_mult)
qed

lemma map_of_frame:
  "\<forall>x \<in> set l. fst x < 19 \<Longrightarrow> i < 19 \<Longrightarrow>
    map_of (map (\<lambda>x. (frame + 4 * of_nat (fst x) :: u32, snd x)) l) (frame + 4 * of_nat i) = map_of l i"
  by (induction l) (auto simp: frame_index simp del: add_left_cancel)

lemma map_of_skip3: "x \<noteq> a \<Longrightarrow> x \<noteq> b \<Longrightarrow> x \<noteq> c \<Longrightarrow> map_of ([(a, u), (b, v), (c, w)] @ l) x = map_of l x"
  by simp

lemma frame_primed:
  assumes i: "i < 19" and ne: "frame + 4 * of_nat i \<noteq> p_kernel_esp p" "frame + 4 * of_nat i \<noteq> p_next p"
  shows "map_of (rev (map (\<lambda>i. (frame + 4 * of_nat i, 0)) [0..<19] @ prime_words fr p start frame)) (frame + 4 * of_nat i) =
    Some (frame_words (start_frame start) ! i)"
proof -
  define l :: "(nat \<times> u32) list" where
    "l = [(3, 0x23), (2, 0x23), (1, 0x23), (0, 0x23), (18, 0x23), (7, PROCESS_STACK_TOP), (16, 0x202), (15, 0x1B), (14, start)]"
  define z :: "(nat \<times> u32) list" where "z = rev (map (\<lambda>i. (i, 0)) [0..<19])"
  let ?g = "map (\<lambda>x. (frame + 4 * of_nat (fst x), snd x))"
  have "rev (map (\<lambda>i. (frame + 4 * of_nat i, 0)) [0..<19] @ prime_words fr p start frame) =
      [(p_next p, 0), (p_kernel_esp p, frame - 4), (frame - 4, fr)] @ ?g (l @ z)"
    by (simp add: prime_words_def l_def z_def rev_map comp_def del: upt_rec_numeral)
  moreover have "map_of (?g (l @ z)) (frame + 4 * of_nat i) = map_of (l @ z) i"
    using i by (intro map_of_frame) (auto simp: l_def z_def)
  moreover have "map_of (l @ z) i = Some (frame_words (start_frame start) ! i)"
  proof -
    have "map_of z i = Some 0" using i by (simp add: z_def map_of_eq_Some_iff distinct_map inj_on_def comp_def)
    moreover have "map (\<lambda>i. case map_of l i of Some w \<Rightarrow> w | None \<Rightarrow> 0) [0..<19] = frame_words (start_frame start)"
    proof -
      have "[0..<19] = [0, 1, 2, 3, 4, 5, 6, 7, 8, 9, 10, 11, 12, 13, 14, 15, 16, 17, 18 :: nat]" by (simp add: upt_conv_Cons)
      then show ?thesis by (simp only:) (simp add: l_def frame_words_def start_frame_def)
    qed
    from arg_cong [OF this, of "\<lambda>xs. xs ! i"] have "(case map_of l i of Some w \<Rightarrow> w | None \<Rightarrow> 0) = frame_words (start_frame start) ! i"
      using i by (simp del: upt_rec_numeral)
    ultimately show ?thesis by (auto simp: map_add_def split: option.splits)
  qed
  ultimately show ?thesis using ne below_frame [OF i, of frame] by (simp only: map_of_skip3 not_False_eq_True)
qed

lemma prime_lookup:
  assumes "frame - 4 \<notin> {p_kernel_esp p, p_next p}"
  shows "map_of (rev (xs @ prime_words fr p start frame)) (frame - 4) = Some fr"
    "map_of (rev (xs @ prime_words fr p start frame)) (p_kernel_esp p) = Some (frame - 4)"
  using assms by (simp_all add: prime_words_def)

lemma prime_keys:
  assumes "a \<in> fst ` set (map (\<lambda>i. (frame + 4 * of_nat i, 0)) [0..<19] @ prime_words fr p start frame)"
  shows "a \<in> {frame - 4, p_kernel_esp p, p_next p} \<or> (\<exists>i < 19. a = frame + 4 * of_nat i)"
proof -
  have "frame + 4 * of_nat 14 = frame + 56" "frame + 4 * of_nat 15 = frame + 60" "frame + 4 * of_nat 16 = frame + 64"
    "frame + 4 * of_nat 7 = frame + 28" "frame + 4 * of_nat 18 = frame + 72" "frame + 4 * of_nat 0 = frame"
    "frame + 4 * of_nat 1 = frame + 4" "frame + 4 * of_nat 2 = frame + 8" "frame + 4 * of_nat 3 = frame + 12" by simp_all
  then have w: "b \<in> {frame + 56, frame + 60, frame + 64, frame + 28, frame + 72, frame, frame + 4, frame + 8, frame + 12} \<Longrightarrow>
      \<exists>i < 19. b = frame + 4 * of_nat i" for b
    by (elim insertE emptyE) (rule exI [of _ 14] exI [of _ 15] exI [of _ 16] exI [of _ 7] exI [of _ 18] exI [of _ 0] exI [of _ 1] exI [of _ 2] exI [of _ 3], simp; fail)+
  show ?thesis using assms w [of a] by (auto simp: prime_words_def)
qed

lemma start_process:
  assumes ok: "procs_ok D [p] s" and top: "sload (p_kernel_stack_top p) s = Some tp"
    and st: "\<forall>i \<in> {1..20}. stack_ok [p] s (tp - 4 * of_nat i)"
    and pd: "sload (p_pd_phys p) s = Some pd" "pd \<in> D" "pd \<noteq> 0"
  shows "\<exists>s1 s2. prime_stack fr p start s = Some s1 \<and> enter_process None p s1 = Some s2 \<and> r_eip (sc_cpu s2) = fr \<and>
    cr3 (skern s2) = pd \<and> t_esp0 (tss (sc_gdt s2)) = tp \<and>
    fork_ret kern_mem (sc_cpu s2, skern s2) = Some (cpu_of_frame (start_frame start), skern s2)"
proof -
  define frame where "frame = tp - 76"
  have tf: "tp = frame + 76" by (simp add: frame_def)
  have km: "kmem_ok D (skern s)" using ok by (simp add: procs_ok_def)
  have so: "stack_ok [p] s (frame - 4)" "\<forall>i < 19. stack_ok [p] s (frame + 4 * of_nat i)"
  proof -
    show "stack_ok [p] s (frame - 4)" using bspec [OF st, of 20] by (simp add: frame_def algebra_simps)
    have "stack_ok [p] s (frame + 4 * of_nat i)" if "i < 19" for i
    proof -
      have "tp - 4 * of_nat (19 - i) = frame + 4 * (of_nat i :: u32)" using that by (simp add: tf of_nat_diff algebra_simps)
      moreover have "19 - i \<in> {1..20}" using that by auto
      from bspec [OF st this] show ?thesis unfolding calculation .
    qed
    then show "\<forall>i < 19. stack_ok [p] s (frame + 4 * of_nat i)" by blast
  qed
  let ?ws = "map (\<lambda>i. (frame + 4 * of_nat i, 0)) [0..<19] @ prime_words fr p start frame"
  have hp: "kmem_here (skern s) a" if "a \<in> pwords p" for a using ok that by (simp add: procs_ok_def ring_words_def)
  have hs: "kmem_here (skern s) (frame - 4)" "\<forall>i < 19. kmem_here (skern s) (frame + 4 * of_nat i)" using so by (simp_all add: stack_ok_def)
  have nf: "\<forall>i < 19. frame + 4 * of_nat i \<notin> pwords p" "frame - 4 \<notin> pwords p" using so by (simp_all add: stack_ok_def ring_words_def)
  have here: "\<forall>x \<in> set ?ws. kmem_here (skern s) (fst x)"
  proof
    fix x assume "x \<in> set ?ws"
    from prime_keys [OF imageI [OF this]] show "kmem_here (skern s) (fst x)" using hs hp by (elim disjE insertE exE conjE emptyE) simp_all
  qed
  obtain k where k: "sstores ?ws s = Some (set_skern k s)" "kmem_ok D k" "kmem_here k = kmem_here (skern s)"
    "\<forall>a. kmem_here (skern s) a \<longrightarrow> vload32 a k = (case map_of (rev ?ws) a of Some w \<Rightarrow> Some w | None \<Rightarrow> sload a s)"
    using sstores_ok [OF km here] by (elim exE conjE) (rule that)
  define s1 where "s1 = set_skern k s"
  have run: "prime_stack fr p start s = Some s1" using prime_stack_eq [OF km top [unfolded tf] hs(2)] k(1) by (simp only: s1_def)
  have w: "\<forall>i < 19. sload (frame + 4 * of_nat i) s1 = Some (frame_words (start_frame start) ! i)"
    using k(4) hs(2) nf(1) frame_primed by (simp add: s1_def sload_def pwords_def)
  have l: "sload (frame - 4) s1 = Some fr" "sload (p_kernel_esp p) s1 = Some (frame - 4)" "sload (p_pd_phys p) s1 = Some pd"
    "sload (p_kernel_stack_top p) s1 = Some tp"
  proof -
    have f: "frame - 4 \<notin> {p_kernel_esp p, p_next p}" using nf(2) by (simp add: pwords_def)
    show "sload (frame - 4) s1 = Some fr" "sload (p_kernel_esp p) s1 = Some (frame - 4)"
      using k(4) hs(1) hp [of "p_kernel_esp p"] prime_lookup [OF f] by (simp_all add: s1_def sload_def del: rev_append)
    have "sload a s1 = sload a s" if a: "a \<in> pwords p" "a \<notin> {p_kernel_esp p, p_next p}" for a
    proof -
      have "a \<notin> fst ` set (rev ?ws)"
      proof
        assume "a \<in> fst ` set (rev ?ws)"
        then have "a \<in> fst ` set ?ws" by (simp only: set_rev)
        from prime_keys [OF this] show False using a nf by auto
      qed
      then have "map_of (rev ?ws) a = None" by (simp only: map_of_eq_None_iff not_False_eq_True)
      then show ?thesis using k(4) hp [OF a(1)] by (simp add: s1_def sload_def del: rev_append)
    qed
    then show "sload (p_pd_phys p) s1 = Some pd" "sload (p_kernel_stack_top p) s1 = Some tp" using pd(1) top by simp_all
  qed
  have kw: "kmem_here (skern s1) = kmem_here (skern s)" "kmem_ok D (skern s1)" using k(2, 3) by (simp_all add: s1_def)
  have p1: "procs_ok D [p] s1" using procs_kept [OF ok kw(2, 1)] .
  have d1: "dispatchable D [p] s1 p" using l(2, 3) pd(2, 3) so(1) kw(1) by (simp add: dispatchable_def stack_ok_def)
  obtain k2 where e: "enter_process None p s1 = Some (set_skern k2 (s1\<lparr>sc_gdt := tss_set_stack tp (sc_gdt s1),
      sc_cpu := (sc_cpu s1)\<lparr>r_esp := frame - 4 + 4, r_eip := fr\<rparr>\<rparr>))"
    and m: "cr3 k2 = pd" "\<forall>b. kmem_here (skern s1) b \<longrightarrow> vload32 b k2 = sload b s1"
    using enter_first_ok [OF p1 _ d1] unfolding l by (auto simp: l(1))
  have "words_at kern_mem frame (frame_words (start_frame start)) k2"
    using m(2) w hs(2) kw(1) by (simp add: words_at_def kern_mem_ops frame_words_def del: One_nat_def)
  then have "fork_ret kern_mem ((sc_cpu s1)\<lparr>r_esp := frame, r_eip := fr\<rparr>, k2) = Some (cpu_of_frame (start_frame start), k2)"
    by (intro fork_ret_frame) (simp_all add: start_frame_def)
  then show ?thesis using run e m(1) by (simp add: tss_set_stack_def)
qed

section \<open>From the start to the turns\<close>

definition starting :: "u32 set \<Rightarrow> u32 list \<Rightarrow> sched \<Rightarrow> bool" where
  "starting D xs s \<longleftrightarrow> ring_ok D xs s \<and> xs \<noteq> [] \<and> (\<forall>p \<in> set xs. dispatchable D xs s p) \<and> current_process_ticks s = 0 \<and>
     sched_state s = SCHED_STATE_STARTING \<and> current_process s = hd xs"

lemma scheduler_start_ok:
  assumes ok: "ring_ok D xs s" "xs \<noteq> []" "\<forall>p \<in> set xs. dispatchable D xs s p" "current_process_ticks s = 0"
    and h: "isr_register_handler (irq_to_vector 0) handler i = Some i'"
  shows "\<exists>s'. scheduler_start handler (i, s) = Some (Gone (i', s')) \<and> starting D xs s'"
proof -
  have hd: "hd xs \<in> set xs" "process_list s = hd xs" "0 \<notin> set xs" using ok by (simp_all add: ring_ok_def procs_ok_def)
  then have nz: "hd xs \<noteq> 0" by metis
  obtain pd where pd: "sload (p_pd_phys (hd xs)) s = Some pd" "pd \<in> D" "pd \<noteq> 0" using ok(3) hd(1) by (auto simp: dispatchable_def)
  have km: "kmem_ok D (skern s)" using ok(1) by (simp add: ring_ok_def procs_ok_def)
  define s' where "s' = set_skern ((skern s)\<lparr>cr3 := pd\<rparr>) (s\<lparr>current_process := hd xs, sched_state := SCHED_STATE_STARTING\<rparr>)"
  note sw = kmem_switch [OF km pd(2)]
  have l: "sload a s' = sload a s" if "kmem_here (skern s) a" for a using sw(3) [OF that] by (simp add: s'_def sload_def)
  have hr: "kmem_here (skern s) a" if "a \<in> ring_words xs" for a using ok(1) that by (simp add: ring_ok_def procs_ok_def)
  have "scheduler_start handler (i, s) = Some (Gone (i', s'))"
    using hd nz pd h by (simp add: scheduler_start_def scheduler_init_def s'_def sload_def sspace_eq set_skern_def Let_def)
  moreover have "ring_ok D xs s'"
    using ok(1) sw(1, 2) ring_links_kept [of xs s' s] l hr procs_kept [of D xs s s'] by (simp add: ring_ok_def s'_def)
  moreover have "dispatchable D xs s' p" if "p \<in> set xs" for p
    using ok(3) that l [OF hr [OF ring_wordsI [OF that]]] sw(2) by (simp add: dispatchable_def stack_ok_def s'_def)
  ultimately show ?thesis using ok(2, 4) by (auto simp: starting_def s'_def)
qed

lemma first_tick:
  assumes "starting D xs s"
  shows "\<exists>s'. schedule s = Some (Gone s') \<and> running D xs 0 s'"
proof -
  have ok: "procs_ok D xs s" "linked_ring xs s" "hd xs \<in> set xs" "\<forall>p \<in> set xs. dispatchable D xs s p" "xs \<noteq> []"
    using assms by (simp_all add: starting_def ring_ok_def)
  define s0 where "s0 = s\<lparr>sched_state := SCHED_STATE_RUNNING\<rparr>"
  have l0: "sload a s0 = sload a s" for a by (simp add: s0_def sload_def)
  have d0: "dispatchable D xs s0 p \<longleftrightarrow> dispatchable D xs s p" for p by (simp add: dispatchable_def stack_ok_def l0) (simp add: s0_def)
  have ok0: "procs_ok D xs s0" "dispatchable D xs s0 (hd xs)" using ok(1, 3, 4) d0 by (simp_all add: procs_ok_def s0_def)
  obtain k top pd e ip where e: "enter_process None (hd xs) s0 = Some (set_skern k (s0\<lparr>sc_gdt := tss_set_stack top (sc_gdt s0),
      sc_cpu := (sc_cpu s0)\<lparr>r_esp := e + 4, r_eip := ip\<rparr>\<rparr>))"
    and m: "kmem_ok D k" "kmem_here k = kmem_here (skern s0)" "\<forall>b. kmem_here (skern s0) b \<longrightarrow> vload32 b k = sload b s0"
    using enter_first_ok [OF ok0(1) ok(3) ok0(2)] by (elim exE conjE) (rule that)
  define s' where "s' = set_skern k (s0\<lparr>sc_gdt := tss_set_stack top (sc_gdt s0), sc_cpu := (sc_cpu s0)\<lparr>r_esp := e + 4, r_eip := ip\<rparr>\<rparr>)"
  have u: "undisturbed D xs s s'" if "sched_state s = SCHED_STATE_RUNNING"
    using that ok(1) m by (simp add: undisturbed_def s'_def s0_def sload_def procs_ok_def)
  have l: "sload a s' = sload a s" if "a \<in> ring_words xs" for a using ok(1) m that by (simp add: procs_ok_def s'_def s0_def sload_def)
  have "dispatchable D xs s' p" if "p \<in> set xs" for p
    using ok(4) that l [OF ring_wordsI [OF that]] m(2) by (simp add: dispatchable_def stack_ok_def s'_def s0_def)
  moreover have "linked_ring xs s'" using ok(2) ring_links_kept [of xs s' s] l by simp
  moreover have "procs_ok D xs s'" using procs_kept [OF ok(1), of s'] m by (simp add: s'_def s0_def)
  moreover have "schedule s = Some (Gone s')"
    using e assms by (simp add: schedule_def starting_def s0_def s'_def)
  ultimately show ?thesis using assms ok(5) by (auto simp: running_def starting_def s'_def s0_def hd_conv_nth)
qed

end
