(* ===== verification/Stub_Ok.thy ===== *)
theory Stub_Ok
  imports Stub Kheap
begin

text \<open>
  What the stubs save and restore: the pushes of an interrupt build the frame of the interrupted program, and the end of
  the stub loads the registers from it.
\<close>

section \<open>Pushes as stores\<close>

primrec stores :: "'s mem_ops \<Rightarrow> u32 \<Rightarrow> u32 list \<Rightarrow> 's \<Rightarrow> 's option" where
  "stores ops a [] m = Some m"
| "stores ops a (w # ws) m = do { m \<leftarrow> mem_store ops (a - 4) w m; stores ops (a - 4) ws m }"

lemma push_all_stores: "push_all ops ws (c, m) =
    map_option (\<lambda>m'. (c\<lparr>r_esp := r_esp c - 4 * of_nat (length ws)\<rparr>, m')) (stores ops (r_esp c) ws m)"
proof (induction ws arbitrary: c m)
  case Nil
  show ?case by simp
next
  case (Cons w ws)
  show ?case
    by (cases "mem_store ops (r_esp c - 4) w m") (simp_all add: push32_def Cons.IH algebra_simps)
qed

lemma stores_append: "stores ops a (xs @ ys) m = do { m \<leftarrow> stores ops a xs m; stores ops (a - 4 * of_nat (length xs)) ys m }"
proof (induction xs arbitrary: a m)
  case Nil
  show ?case by simp
next
  case (Cons x xs)
  show ?case by (cases "mem_store ops (a - 4) x m") (simp_all add: Cons.IH algebra_simps)
qed

text \<open>The words of the frame, from the first pushed to the last.\<close>

lemma rev_frame: "rev (frame_words (frame_of_cpu c esp0 n e)) =
    ([ucast (r_ss c), r_esp c] @ [r_eflags c, ucast (r_cs c), r_eip c]) @ [e] @ [n] @
    [r_eax c, r_ecx c, r_edx c, r_ebx c, esp0 - 28, r_ebp c, r_esi c, r_edi c] @
    [ucast (r_ds c), ucast (r_es c), ucast (r_fs c), ucast (r_gs c)]"
  by (simp add: frame_words_def frame_of_cpu_def)

text \<open>An interrupt: the processor, then the stub of the vector.  \<open>err\<close> is the error code of the exceptions that have one.\<close>

definition interrupt :: "'s mem_ops \<Rightarrow> (u32 \<Rightarrow> 's \<Rightarrow> 's option) \<Rightarrow> u32 \<Rightarrow> u32 \<Rightarrow> u16 \<Rightarrow> u32 \<Rightarrow> u32 \<Rightarrow> u32 \<Rightarrow> cpu \<times> 's \<Rightarrow> (cpu \<times> 's) option" where
  "interrupt ops handler ra esp0 ss0 flags n err st = do {
     st \<leftarrow> deliver ops esp0 ss0 flags (if n \<in> {8, 10, 11, 12, 13, 14, 17} then Some err else None) st;
     isr_entry ops handler ra n st }"

lemma common_stub_stores:
  "isr_common_stub ops handler ra (c, m) = do {
     m \<leftarrow> stores ops (r_esp c) ([r_eax c, r_ecx c, r_edx c, r_ebx c, r_esp c, r_ebp c, r_esi c, r_edi c] @
       [ucast (r_ds c), ucast (r_es c), ucast (r_fs c), ucast (r_gs c)] @ [r_esp c - 48, ra]) m;
     m \<leftarrow> handler (r_esp c - 48) m;
     fork_ret ops (fst (load_kernel_segs (c, m)) \<lparr>r_esp := r_esp c - 48\<rparr>, m) }"
proof -
  have 1: "push32 ops w (c, m) = push_all ops [w] (c, m)" for w c m by (cases "push32 ops w (c, m)") simp_all
  show ?thesis
    by (simp add: isr_common_stub_def pusha_def push_segs_def 1 push_all_stores stores_append load_kernel_segs_def add_esp_def fork_ret_def
        algebra_simps Let_def option.map_comp comp_def map_option_case split: bind_splits option.splits)
qed

lemma interrupt_stores:
  assumes "r_cs c AND 3 \<noteq> 0"
  obtains c2 where "interrupt ops handler ra esp0 ss0 flags n err (c, m) = do {
     m \<leftarrow> stores ops esp0 (rev (frame_words (frame_of_cpu c esp0 n (if n \<in> {8, 10, 11, 12, 13, 14, 17} then err else 0))) @ [esp0 - 76, ra]) m;
     m \<leftarrow> handler (esp0 - 76) m;
     fork_ret ops (c2\<lparr>r_esp := esp0 - 76\<rparr>, m) }"
proof -
  have 1: "push32 ops w (c, m) = push_all ops [w] (c, m)" for w c m by (cases "push32 ops w (c, m)") simp_all
  let ?S = "{8, 10, 11, 12, 13, 14, 17} :: u32 set"
  let ?c = "c\<lparr>r_ss := ss0, r_cs := 8, r_eflags := flags\<rparr>"
  show thesis
  proof (cases "n \<in> ?S")
    case True
    then show thesis
      by (intro that [of "fst (load_kernel_segs (?c, m))"])
        (simp add: interrupt_def deliver_def isr_entry_def isr_err_def 1 push_all_stores stores_append rev_frame common_stub_stores assms
          load_kernel_segs_def algebra_simps option.map_comp comp_def map_option_case split: bind_splits option.splits)
  next
    case False
    then show thesis
      by (intro that [of "fst (load_kernel_segs (?c, m))"])
        (simp add: interrupt_def deliver_def isr_entry_def isr_noerr_def 1 push_all_stores stores_append rev_frame common_stub_stores assms
          load_kernel_segs_def algebra_simps option.map_comp comp_def map_option_case split: bind_splits option.splits)
  qed
qed

context word_memory
begin

lemma stores_ok:
  assumes "4 * length ws < 2 ^ 32" "ok s" "\<forall>i < length ws. here s (a - 4 * (of_nat i + 1))"
  shows "\<exists>s'. stores ops a ws s = Some s' \<and> ok s' \<and> here s' = here s \<and>
    (\<forall>i < length ws. mem_load ops (a - 4 * (of_nat i + 1)) s' = Some (ws ! i)) \<and>
    (\<forall>b. here s b \<and> (\<forall>i < length ws. b \<noteq> a - 4 * (of_nat i + 1)) \<longrightarrow> mem_load ops b s' = mem_load ops b s)"
  using assms
proof (induction ws arbitrary: a s)
  case Nil
  then show ?case by simp
next
  case (Cons w ws)
  have h: "here s (a - 4)" using Cons.prems(3) [rule_format, of 0] by simp
  obtain s1 where s1: "mem_store ops (a - 4) w s = Some s1" "ok s1" "here s1 = here s"
    "\<And>b. here s b \<Longrightarrow> mem_load ops b s1 = (if b = a - 4 then Some w else mem_load ops b s)"
    using store_here [OF Cons.prems(2) h, of w] by blast
  have addr: "a - 4 - 4 * (of_nat i + 1) = a - 4 * (of_nat (Suc i) + 1)" for i by (simp add: algebra_simps)
  have hs: "\<forall>i < length ws. here s1 (a - 4 - 4 * (of_nat i + 1))" 
  proof (intro allI impI)
    fix i assume "i < length ws"
    then show "here s1 (a - 4 - 4 * (of_nat i + 1))" unfolding addr s1(3) using Cons.prems(3) [rule_format, of "Suc i"] by (simp only: length_Cons Suc_less_eq)
  qed
  obtain s2 where s2: "stores ops (a - 4) ws s1 = Some s2" "ok s2" "here s2 = here s1"
    "\<forall>i < length ws. mem_load ops (a - 4 * (of_nat (Suc i) + 1)) s2 = Some (ws ! i)"
    "\<forall>b. here s1 b \<and> (\<forall>i < length ws. b \<noteq> a - 4 * (of_nat (Suc i) + 1)) \<longrightarrow> mem_load ops b s2 = mem_load ops b s1"
    using Cons.IH [OF _ s1(2) hs] Cons.prems(1) unfolding addr by auto
  have ne: "a - 4 \<noteq> a - 4 * (of_nat (Suc i) + 1)" if "i < length ws" for i
  proof
    assume "a - 4 = a - 4 * (of_nat (Suc i) + 1)"
    then have "(of_nat (4 * Suc i) :: u32) = 0" by (simp add: algebra_simps)
    moreover have "unat (of_nat (4 * Suc i) :: u32) = 4 * Suc i" using Cons.prems(1) that by (intro unat_of_nat32) simp
    ultimately show False by simp
  qed
  have "mem_load ops (a - 4) s2 = Some w" using s2(5) s1(3, 4) h ne by simp
  then have "\<forall>i < length (w # ws). mem_load ops (a - 4 * (of_nat i + 1)) s2 = Some ((w # ws) ! i)"
    using s2(4) by (auto simp: less_Suc_eq_0_disj)
  moreover have "mem_load ops b s2 = mem_load ops b s" if b: "here s b" "\<forall>i < length (w # ws). b \<noteq> a - 4 * (of_nat i + 1)" for b
  proof -
    have "b \<noteq> a - 4" using b(2) [rule_format, of 0] by simp
    moreover have "\<forall>i < length ws. b \<noteq> a - 4 * (of_nat (Suc i) + 1)" using b(2) by (metis length_Cons not_less_eq)
    ultimately show ?thesis using s2(5) s1(3, 4) b(1) by simp
  qed
  ultimately show ?case using s1(1, 3) s2(1, 2, 3) by auto
qed

lemma stores_words:
  assumes "4 * (length fw + length xs) < 2 ^ 32" "ok s" "\<forall>i < length fw + length xs. here s (a - 4 * (of_nat i + 1))"
  shows "\<exists>s'. stores ops a (rev fw @ xs) s = Some s' \<and> ok s' \<and> here s' = here s \<and> words_at ops (a - 4 * of_nat (length fw)) fw s'"
proof -
  obtain s' where s': "stores ops a (rev fw @ xs) s = Some s'" "ok s'" "here s' = here s"
    "\<forall>i < length fw + length xs. mem_load ops (a - 4 * (of_nat i + 1)) s' = Some ((rev fw @ xs) ! i)"
    using stores_ok [of "rev fw @ xs" s a] assms by auto
  have "mem_load ops (a - 4 * of_nat (length fw) + 4 * of_nat i) s' = Some (fw ! i)" if i: "i < length fw" for i
  proof -
    let ?j = "length fw - 1 - i"
    have "length fw = Suc (?j + i)" using i by simp
    then have "of_nat (length fw) = (of_nat ?j + of_nat i + 1 :: u32)" by (metis of_nat_Suc of_nat_add add.commute)
    then have "a - 4 * of_nat (length fw) + 4 * of_nat i = a - 4 * (of_nat ?j + 1)" by (simp add: algebra_simps)
    moreover have "(rev fw @ xs) ! ?j = fw ! i" using i by (subst nth_append) (auto simp: rev_nth)
    moreover have "mem_load ops (a - 4 * (of_nat ?j + 1)) s' = Some ((rev fw @ xs) ! ?j)"
      by (rule s'(4) [rule_format]) (use i in simp)
    ultimately show ?thesis by (simp only:)
  qed
  then show ?thesis using s' by (auto simp: words_at_def)
qed

end

section \<open>The round trip\<close>

lemma selector_word: "ucast (ucast (x :: u16) :: u32) = x"
  by (rule bit_word_eqI) (simp add: bit_ucast_iff)

lemma cpu_frame: "cpu_of_frame (frame_of_cpu c esp0 n e) = c"
  by (simp add: cpu_of_frame_def frame_of_cpu_def selector_word)

text \<open>C15. An interrupt of a user program on a kernel stack with 21 words of room: the handler is
  called with the address of a frame that holds the interrupted registers, the vector and the error code (0 where the
  processor pushes none), and whatever frame the handler leaves is what the processor continues with.  In particular a
  handler that leaves the frame alone resumes the program with all its registers.\<close>

theorem interrupt_roundtrip:
  assumes "kmem_ok D s" and "\<forall>i < 21. kmem_here s (esp0 - 4 * (of_nat i + 1))" and "r_cs c AND 3 \<noteq> 0"
    and "e = (if n \<in> {8, 10, 11, 12, 13, 14, 17} then err else 0)" and "f_cs f AND 3 \<noteq> 0"
    and "\<forall>m. kmem_ok D m \<and> words_at kern_mem (esp0 - 76) (frame_words (frame_of_cpu c esp0 n e)) m \<longrightarrow>
      (\<exists>m'. handler (esp0 - 76) m = Some m' \<and> words_at kern_mem (esp0 - 76) (frame_words f) m')"
  shows "(\<exists>s'. interrupt kern_mem handler ra esp0 ss0 flags n err (c, s) = Some (cpu_of_frame f, s')) \<and>
    cpu_of_frame (frame_of_cpu c esp0 n e) = c"
proof -
  let ?fw = "frame_words (frame_of_cpu c esp0 n e)"
  have l: "length ?fw = 19" by (simp add: frame_words_def)
  obtain s1 where s1: "stores kern_mem esp0 (rev ?fw @ [esp0 - 76, ra]) s = Some s1" "kmem_ok D s1" "words_at kern_mem (esp0 - 76) ?fw s1"
    using km.stores_words [of ?fw "[esp0 - 76, ra]" D s esp0] assms(1, 2) l by auto
  obtain s2 where s2: "handler (esp0 - 76) s1 = Some s2" "words_at kern_mem (esp0 - 76) (frame_words f) s2" using assms(6) s1(2, 3) by blast
  obtain c2 where "interrupt kern_mem handler ra esp0 ss0 flags n err (c, s) = do {
     m \<leftarrow> stores kern_mem esp0 (rev ?fw @ [esp0 - 76, ra]) s;
     m \<leftarrow> handler (esp0 - 76) m;
     fork_ret kern_mem (c2\<lparr>r_esp := esp0 - 76\<rparr>, m) }"
    using interrupt_stores [OF assms(3), of kern_mem handler ra esp0 ss0 flags n err s] unfolding assms(4) .
  moreover have "fork_ret kern_mem (c2\<lparr>r_esp := esp0 - 76\<rparr>, s2) = Some (cpu_of_frame f, s2)"
    using s2(2) assms(5) by (intro fork_ret_frame) simp_all
  ultimately show ?thesis using s1(1) s2(1) cpu_frame by simp
qed

text \<open>A user program interrupted by the timer, on the first page of the heap.\<close>

lemma example_page:
  obtains s :: kern where "kmem_ok {0x1000} s" "\<forall>k < 1024. kmem_here s (wa k)"
proof -
  have here: "\<not> kmem_here example_kmem (wa 0)" using example_walk pdi_wa [of 0] by (simp add: kmem_here_def example_kmem_def example_kern_def)
  have "poff (wa 0) = 0" using poff_zero [of "wa 0"] wa_page [of 0] by simp
  have first: "heap_pde (pdi (wa 0))" by (rule pdi_wa) simp
  from kern_page [OF example_kmem_ok first \<open>poff (wa 0) = 0\<close> here] show thesis
  proof (elim exE conjE)
    fix p and s' :: kern assume s': "kmem_ok {0x1000} s'" "\<forall>b. kmem_here s' b \<longleftrightarrow> kmem_here example_kmem b \<or> p \<and> b AND 3 = 0 \<and> frame_of b = wa 0"
      "\<not> p \<longleftrightarrow> kmem_room example_kmem = 0"
    have "kmem_room example_kmem = 32" by (simp add: kmem_room_def example_kmem_def example_kern_def example_free)
    then have "\<forall>k < 1024. kmem_here s' (wa k)" using s'(2, 3) wa_in_page [of _ 0] by auto
    with s'(1) show thesis by (rule that)
  qed
qed

definition example_cpu :: cpu where
  "example_cpu = \<lparr>r_eax = 1, r_ecx = 2, r_edx = 3, r_ebx = 4, r_esp = 0xBFEFFF00, r_ebp = 5, r_esi = 6, r_edi = 7, r_eip = 0x08048000,
     r_eflags = 0x202, r_cs = 0x1B, r_ss = 0x23, r_ds = 0x23, r_es = 0x23, r_fs = 0x23, r_gs = 0x23\<rparr>"

theorem interrupt_roundtrip_witness:
  "\<exists>s s'. interrupt kern_mem (\<lambda>_ m. Some m) 0xC0001234 (wa 1000) 0x10 2 0x20 0 (example_cpu, s) = Some (example_cpu, s' :: kern)"
proof -
  obtain s :: kern where s: "kmem_ok {0x1000} s" "\<forall>k < 1024. kmem_here s (wa k)" using example_page .
  have room: "\<forall>i < 21. kmem_here s (wa 1000 - 4 * (of_nat i + 1))"
  proof (intro allI impI)
    fix i :: nat assume i: "i < 21"
    then have "(1000 :: nat) = (999 - i) + (i + 1)" by simp
    then have "wa 1000 = wa (999 - i) + 4 * (of_nat i + 1)" using wa_add [of "999 - i" "i + 1"] by (simp add: algebra_simps)
    then have "wa 1000 - 4 * (of_nat i + 1) = wa (999 - i)" by (simp add: eq_diff_eq)
    then show "kmem_here s (wa 1000 - 4 * (of_nat i + 1))" using s(2) by simp
  qed
  have u: "r_cs example_cpu AND 3 \<noteq> 0" "f_cs (frame_of_cpu example_cpu (wa 1000) 0x20 0) AND 3 \<noteq> 0"
    by (simp_all add: example_cpu_def frame_of_cpu_def)
  have "0 = (if (0x20 :: u32) \<in> {8, 10, 11, 12, 13, 14, 17} then 0 else (0 :: u32))" by simp
  from interrupt_roundtrip [OF s(1) room u(1) this u(2), where handler = "\<lambda>_ m. Some m" and ra = "0xC0001234" and ?ss0.0 = "0x10" and flags = 2]
  show ?thesis unfolding cpu_frame by blast
qed

end
