(* ===== verification/Sched_Props.thy ===== *)
theory Sched_Props
  imports Sched_Run Stub_Ok Clock
begin

text \<open>
  The guarantees of the scheduler as they hold for its callers, with a ring of two processes in the first page of the
  kernel region as the example.
\<close>

section \<open>An example\<close>

definition example_procs :: "(u32 \<times> u32) list" where
  "example_procs =
     [(0xC1000004, 0x1000), (0xC1000008, 0xC1000100), (0xC100000C, 0xC1000400), (0xC1000014, 0xC1000020),
      (0xC1000024, 0x1000), (0xC1000028, 0xC1000200), (0xC100002C, 0xC1000800), (0xC1000034, 0xC1000000)]"

definition example_sched :: "kern \<Rightarrow> sched" where
  "example_sched k = \<lparr>sc_heap = \<lparr>hmem = k, free_list_head = 0, heap_max = KHEAP_START\<rparr>, sc_gdt = example_gdt,
     sc_cpu = example_cpu\<lparr>r_esp := 0xC1000180\<rparr>, next_pid = 3, current_process = 0xC1000000, process_list = 0xC1000000,
     current_process_ticks = 0, sched_state = SCHED_STATE_OFF\<rparr>"

definition page_here :: "sched \<Rightarrow> bool" where
  "page_here s \<longleftrightarrow> (\<forall>k < 1024. kmem_here (skern s) (0xC1000000 + 4 * of_nat k))"

lemma page_hereD: "page_here s \<Longrightarrow> k < 1024 \<Longrightarrow> a = 0xC1000000 + 4 * of_nat k \<Longrightarrow> kmem_here (skern s) a"
  by (simp add: page_here_def)

lemma example_base:
  obtains k where "kmem_ok {0x1000} k" "page_here (example_sched k)"
proof -
  obtain k :: kern where k: "kmem_ok {0x1000} k" "\<forall>i < 1024. kmem_here k (wa i)" using example_page .
  then have "page_here (example_sched k)" by (simp add: page_here_def example_sched_def skern_def wa_def)
  then show thesis using that k(1) by blast
qed

lemma page_words:
  assumes "page_here s"
  shows "\<forall>a \<in> pwords 0xC1000000 \<union> pwords 0xC1000020 \<union> {0xC1000100, 0xC1000180, 0xC1000200}. kmem_here (skern s) a"
  using page_hereD [OF assms, of 0] page_hereD [OF assms, of 1] page_hereD [OF assms, of 2] page_hereD [OF assms, of 3]
    page_hereD [OF assms, of 4] page_hereD [OF assms, of 5] page_hereD [OF assms, of 8] page_hereD [OF assms, of 9]
    page_hereD [OF assms, of 10] page_hereD [OF assms, of 11] page_hereD [OF assms, of 12] page_hereD [OF assms, of 13]
    page_hereD [OF assms, of 64] page_hereD [OF assms, of 96] page_hereD [OF assms, of 128]
  by (simp add: pwords_def)

text \<open>Two processes, linked into a ring.\<close>

lemma example_ring:
  "\<exists>s. ring_ok {0x1000} [0xC1000000, 0xC1000020] s \<and> page_here s \<and>
    (\<forall>p \<in> set [0xC1000000, 0xC1000020]. dispatchable {0x1000} [0xC1000000, 0xC1000020] s p) \<and>
    current_process s = 0xC1000000 \<and> current_process_ticks s = 0 \<and> r_esp (sc_cpu s) = 0xC1000180 \<and>
    sload 0xC1000004 s = Some 0x1000 \<and> sload 0xC100000C s = Some 0xC1000400"
proof -
  obtain k0 where k0: "kmem_ok {0x1000} k0" "page_here (example_sched k0)" using example_base .
  let ?s = "example_sched k0"
  have km: "kmem_ok {0x1000} (skern ?s)" using k0(1) by (simp add: example_sched_def skern_def)
  note pw = page_words [OF k0(2)]
  have here: "\<forall>x \<in> set example_procs. kmem_here (skern ?s) (fst x)" using pw by (simp add: example_procs_def pwords_def)
  obtain k where "sstores example_procs ?s = Some (set_skern k ?s)" and k: "kmem_ok {0x1000} k" "kmem_here k = kmem_here (skern ?s)"
    "\<forall>a. kmem_here (skern ?s) a \<longrightarrow> vload32 a k = (case map_of (rev example_procs) a of Some w \<Rightarrow> Some w | None \<Rightarrow> sload a ?s)"
    using sstores_ok [OF km here] by (elim exE conjE) (rule that)
  define s where "s = set_skern k ?s"
  have l: "sload a s = (case map_of (rev example_procs) a of Some w \<Rightarrow> Some w | None \<Rightarrow> sload a ?s)" if "kmem_here (skern ?s) a" for a
    using k(3) that by (simp add: s_def sload_def)
  have f: "sload 0xC1000004 s = Some 0x1000" "sload 0xC1000008 s = Some 0xC1000100" "sload 0xC1000014 s = Some 0xC1000020"
    "sload 0xC1000024 s = Some 0x1000" "sload 0xC1000028 s = Some 0xC1000200" "sload 0xC1000034 s = Some 0xC1000000"
    "sload 0xC100000C s = Some 0xC1000400"
    using l pw by (simp_all add: pwords_def example_procs_def)
  have "linked_ring [0xC1000000, 0xC1000020] s" using f by (auto simp: linked_ring_def less_Suc_eq)
  moreover have "procs_ok {0x1000} [0xC1000000, 0xC1000020] s"
    using k pw by (simp add: procs_ok_def ring_words_def s_def ball_Un) (simp add: pwords_def)
  ultimately have "ring_ok {0x1000} [0xC1000000, 0xC1000020] s" by (simp add: ring_ok_def s_def example_sched_def)
  moreover have "page_here s" using k0(2) k(2) by (simp add: page_here_def s_def)
  moreover have "stack_ok [0xC1000000, 0xC1000020] s 0xC1000100" "stack_ok [0xC1000000, 0xC1000020] s 0xC1000200"
    using pw k(2) by (simp_all add: stack_ok_def ring_words_def s_def) (simp_all add: pwords_def)
  then have "\<forall>p \<in> set [0xC1000000, 0xC1000020]. dispatchable {0x1000} [0xC1000000, 0xC1000020] s p"
    using f by (simp add: dispatchable_def)
  moreover have "current_process s = 0xC1000000" "current_process_ticks s = 0" "r_esp (sc_cpu s) = 0xC1000180"
    by (simp_all add: s_def example_sched_def)
  ultimately show ?thesis using f(1, 7) by (intro exI [of _ s]) blast
qed

section \<open>Properties\<close>



text \<open>C38. Adding a process ends.  For a ring of any length, the search of \<open>scheduler_add_process\<close> for the last
  process ends, the new process follows it and points to the first one, and no word but those two links changes.\<close>

theorem add_process:
  assumes "ring_ok D xs s" "procs_ok D (xs @ [p]) s"
  shows "\<exists>s'. scheduler_add_process p s = Some s' \<and> ring_ok D (xs @ [p]) s' \<and>
    (\<forall>a. kmem_here (skern s) a \<and> a \<noteq> p_next p \<and> (xs \<noteq> [] \<longrightarrow> a \<noteq> p_next (last xs)) \<longrightarrow> sload a s' = sload a s)"
  using add_process_ok [OF assms] by blast

theorem add_process_witness:
  "\<exists>s s'. ring_ok {0x1000} [0xC1000000, 0xC1000020] s \<and> scheduler_add_process 0xC1000040 s = Some s' \<and>
    ring_ok {0x1000} [0xC1000000, 0xC1000020, 0xC1000040] s'"
proof -
  obtain s where s: "ring_ok {0x1000} [0xC1000000, 0xC1000020] s" "page_here s" using example_ring by (elim exE conjE) (rule that)
  have "\<forall>a \<in> pwords 0xC1000040. kmem_here (skern s) a"
    using page_hereD [OF s(2), of 16] page_hereD [OF s(2), of 17] page_hereD [OF s(2), of 18] page_hereD [OF s(2), of 19]
      page_hereD [OF s(2), of 20] page_hereD [OF s(2), of 21] by (simp add: pwords_def)
  then have "procs_ok {0x1000} ([0xC1000000, 0xC1000020] @ [0xC1000040]) s"
    using s(1) by (simp add: ring_ok_def procs_ok_def ring_words_def ball_Un) (simp add: pwords_def)
  from add_process [OF s(1) this] s(1) show ?thesis by auto
qed

text \<open>C39. A process that exits.  When the running process of a ring of at least two exits, whatever its
  position, the others form the ring in the same order, and the first of them runs on its own kernel stack, in its own
  address space, from the stack pointer saved for it.\<close>

theorem exit_process:
  assumes "ring_ok D (ys @ p # zs) s" "ys @ zs \<noteq> []" "current_process s = p" "dispatchable D (ys @ zs) s (hd (ys @ zs))"
  shows "\<exists>s' sp. process_exit p s = Some (Gone s') \<and> ring_ok D (ys @ zs) s' \<and> current_process s' = hd (ys @ zs) \<and>
    sload (p_kernel_esp (hd (ys @ zs))) s = Some sp \<and> r_esp (sc_cpu s') = sp + 4 \<and> sload sp s = Some (r_eip (sc_cpu s')) \<and>
    sload (p_kernel_stack_top (hd (ys @ zs))) s = Some (t_esp0 (tss (sc_gdt s'))) \<and>
    sload (p_pd_phys (hd (ys @ zs))) s = Some (cr3 (skern s'))"
  by (rule exit_current [OF assms])

theorem exit_process_witness:
  "\<exists>s s'. ring_ok {0x1000} [0xC1000000, 0xC1000020] s \<and> process_exit 0xC1000000 s = Some (Gone s') \<and> ring_ok {0x1000} [0xC1000020] s'"
proof -
  obtain s where s: "ring_ok {0x1000} [0xC1000000, 0xC1000020] s"
    "\<forall>p \<in> set [0xC1000000, 0xC1000020]. dispatchable {0x1000} [0xC1000000, 0xC1000020] s p" "current_process s = 0xC1000000"
    using example_ring by (elim exE conjE) (rule that)
  have "dispatchable {0x1000} ([] @ [0xC1000020]) s (hd ([] @ [0xC1000020]))" using s(2) by (auto simp: dispatchable_def stack_ok_def ring_words_def)
  from exit_process [OF _ _ s(3) this] s(1) show ?thesis by auto
qed

text \<open>C40. The first entry into a process.  The stack \<open>process_init\<close> primes takes the first dispatch through
  \<open>fork_ret\<close> to the entry point in user mode, with the user selectors, interrupts enabled and all general registers
  zero, in the address space of the process and with its kernel stack in the task state segment.  The stack pointer of
  the program is 0: \<open>PROCESS_STACK_TOP\<close> has gone to the word that \<open>popa\<close> skips.\<close>

theorem first_entry:
  assumes "procs_ok D [p] s" "sload (p_kernel_stack_top p) s = Some tp"
    "\<forall>i \<in> {1..20}. stack_ok [p] s (tp - 4 * of_nat i)"
    "sload (p_pd_phys p) s = Some pd" "pd \<in> D" "pd \<noteq> 0"
  shows "\<exists>s1 s2. prime_stack fr p start s = Some s1 \<and> enter_process None p s1 = Some s2 \<and> r_eip (sc_cpu s2) = fr \<and>
    cr3 (skern s2) = pd \<and> t_esp0 (tss (sc_gdt s2)) = tp \<and>
    fork_ret kern_mem (sc_cpu s2, skern s2) = Some (\<lparr>r_eax = 0, r_ecx = 0, r_edx = 0, r_ebx = 0, r_esp = 0, r_ebp = 0, r_esi = 0,
      r_edi = 0, r_eip = start, r_eflags = 0x202, r_cs = 0x1B, r_ss = 0x23, r_ds = 0x23, r_es = 0x23, r_fs = 0x23, r_gs = 0x23\<rparr>, skern s2)"
  using start_process [OF assms, of fr start] by (simp add: cpu_of_frame_def start_frame_def)

theorem first_entry_witness:
  "\<exists>s s1 s2 c. prime_stack 0xC0105000 0xC1000000 0x08048000 s = Some s1 \<and> enter_process None 0xC1000000 s1 = Some s2 \<and>
    fork_ret kern_mem (sc_cpu s2, skern s2) = Some (c, skern s2) \<and> r_eip c = 0x08048000 \<and> r_cs c = 0x1B \<and> r_esp c = 0"
proof -
  obtain s where s: "ring_ok {0x1000} [0xC1000000, 0xC1000020] s" "page_here s"
    "sload 0xC1000004 s = Some 0x1000" "sload 0xC100000C s = Some 0xC1000400"
    using example_ring by (elim exE conjE) (rule that)
  have p: "procs_ok {0x1000} [0xC1000000] s" using s(1) procs_sublist [of _ _ s "[0xC1000000]"] by (auto simp: ring_ok_def)
  have st: "stack_ok [0xC1000000] s (0xC1000400 - 4 * of_nat i)" if "i \<in> {1..20}" for i
  proof -
    have l: "[1..<21] = [1, 2, 3, 4, 5, 6, 7, 8, 9, 10, 11, 12, 13, 14, 15, 16, 17, 18, 19, 20 :: nat]" by code_simp
    have "i \<in> set [1..<21]" using that by auto
    then show ?thesis using page_hereD [OF s(2), of "256 - i" "0xC1000400 - 4 * of_nat i"]
      unfolding l by (auto simp: stack_ok_def ring_words_def pwords_def)
  qed
  have st': "\<forall>i \<in> {1..20}. stack_ok [0xC1000000] s (0xC1000400 - 4 * of_nat i)" using st by blast
  have f: "sload (0xC1000000 + 12) s = Some 0xC1000400" "sload (0xC1000000 + 4) s = Some 0x1000" using s(3, 4) by simp_all
  have "(0x1000 :: u32) \<in> {0x1000}" "(0x1000 :: u32) \<noteq> 0" by simp_all
  from first_entry [OF p f(1) st' f(2) this, of "0xC0105000" "0x08048000"]
  show ?thesis by (elim exE conjE) (intro exI conjI, assumption+, simp_all)
qed

end
