(* ===== verification/Spec2Isabelle.thy ===== *)
theory Spec2Isabelle
  imports Pmm Cstring Ext2_Ata Boot_Fs Stdio Clock Sched_Props
begin

text \<open>
  DvivonOS is a 32-bit kernel for the PC: memory management, interrupts, drivers for disk, keyboard and screen, a file
  system, and processes.  This development models it in the order in which its parts rest on each other.  All paths
  below are relative to \<open>src/src\<close>.

  \<^bold>\<open>Conventions.\<close>  Machine integers are words of their width and wrap around.  A structure is a record, a state of the
  program is passed explicitly, and \<open>None\<close> is a call that does not return: a page fault, a division by zero, an access
  outside an array or buffer, undefined behaviour, or a loop that does not end.  Error returns are values.  Loops with
  a bound are structural recursions over their indices, all others are \<open>partial_function (option)\<close>; there is no fuel, so a
  theorem that gives \<open>Some\<close> also shows that the loop ends.

  \<^bold>\<open>Shared theories.\<close>
  \<^item> \<open>Prelude\<close>: the types of the model and generic facts on words, lists and options.
  \<^item> \<open>Buffer\<close>: little-endian fields and slices of byte buffers.
  \<^item> \<open>Ports\<close>: port input and output as an interface; the hardware behind the ports is a parameter of every driver.

  \<^bold>\<open>Physical memory\<close> (\<open>kernel/memory/pmm.c\<close>; theory \<open>Pmm\<close>).  The bitmap with \<open>pmm_init\<close>, \<open>pmm_alloc_page\<close>, \<open>pmm_free_page\<close>.
  The lemmas show which pages are free after the initialisation, that allocation is a next-fit search which hands out no
  page twice, and that freeing undoes it.

  \<^bold>\<open>Virtual memory\<close> (\<open>kernel/memory/vmm.c\<close>; theories \<open>Vmm\<close>, \<open>Vmm_Walk\<close>, \<open>Vmm_Map\<close>, \<open>Vmm_Space\<close>).  Page tables are bytes of physical
  memory which the code reaches through the recursive entry of the directory; every access goes through the translation
  of the processor, \<open>translate\<close>.  \<open>Vmm_Walk\<close> has the windows, \<open>Vmm_Map\<close> the mapping of pages, \<open>Vmm_Space\<close> the creation and
  the destruction of address spaces.

  \<^bold>\<open>Kernel heap\<close> (\<open>kernel/memory/heap-allocator.c\<close>; theories \<open>Memory\<close>, \<open>Heap\<close>, \<open>Heap_Inv\<close>, \<open>Heap_Tile\<close>, \<open>Heap_Step\<close>, \<open>Heap_Ok\<close>,
  \<open>Kmalloc\<close>, \<open>Kmem\<close>, \<open>Kheap\<close>).  The allocator works on the words of an abstract memory with locale \<open>word_memory\<close> and its
  extensions; \<open>Kmem\<close> interprets them on paged kernel memory.  The invariant says that blocks tile the region and that the
  free list holds the free ones; \<open>kmalloc\<close> and \<open>kfree\<close> keep it and leave allocated blocks alone.

  \<^bold>\<open>Strings\<close> (\<open>lib/string.c\<close>; theory \<open>Cstring\<close>).  Every routine on a flat byte memory, overlapping areas included.

  \<^bold>\<open>Segments, interrupts, timer\<close> (\<open>arch/i686/cpu\<close>, \<open>include/arch/i686/pic.h\<close>, \<open>kernel/time/time.c\<close>; theories \<open>Gdt\<close>, \<open>Pic\<close>, \<open>Idt\<close>,
  \<open>Clock\<close>, \<open>Stub\<close>, \<open>Stub_Ok\<close>).  The descriptor tables decoded as the processor does, the 8259 controllers, the handler table
  and its dispatcher, the callbacks of the timer, and the assembly of the entry stubs and of the stack switch,
  instruction by instruction.

  \<^bold>\<open>Keyboard, screen, output\<close> (\<open>drivers/keyboard.c\<close>, \<open>drivers/vga.c\<close>, \<open>lib/stdio.c\<close>, \<open>prog/terminal.c\<close>; theories \<open>Keyboard\<close>, \<open>Vga\<close>,
  \<open>Stdio\<close>).  The keyboard refines a queue of events while there is room, and its events carry the characters of the US
  layout; the screen refines a console of lines; \<open>printf\<close> is typed by its format.

  \<^bold>\<open>Disk\<close> (\<open>drivers/block_device.c\<close>, \<open>drivers/disk/ata.c\<close>; theories \<open>Device\<close>, \<open>Ata\<close>, \<open>Ata_Drive\<close>).  \<open>Device\<close> has the registry and
  the locale \<open>block_storage\<close>, the contract between the file system and a driver.  \<open>Ata_Drive\<close> runs the driver against a
  model of a drive and interprets the locale for the block sizes 1024, 2048 and 4096.

  \<^bold>\<open>File system\<close> (\<open>fs/ext2\<close>, \<open>fs/vfs\<close>, \<open>lib/fs.c\<close>; theories \<open>Ext2_Types\<close>, \<open>Ext2_Block\<close>, \<open>Ext2_Inode\<close>, \<open>Ext2_Dir\<close>, \<open>Ext2_Super\<close>,
  \<open>Ext2_Ops\<close>, \<open>Vfs\<close>, \<open>Fs\<close>, \<open>Boot_Fs\<close> for the operations; \<open>Ext2_Map\<close>, \<open>Ext2_Read\<close>, \<open>Ext2_Itable\<close> for the lemmas, inside
  \<open>block_storage\<close>; \<open>Ext2_Ata\<close> for the same on the ATA driver).  The block map, reading a file and the inode table are
  compared with reference definitions, for every pattern of failures of \<open>kmalloc\<close>.

  \<^bold>\<open>Processes\<close> (\<open>kernel/scheduler\<close>; theories \<open>Sched\<close>, \<open>Sched_Ok\<close>, \<open>Sched_Run\<close>, \<open>Sched_Props\<close>).  The scheduler on the words of the
  process structures in kernel memory: round robin over the ring, adding and removing processes, the first entry.

  \<^bold>\<open>Assumptions on the environment.\<close>
  \<^item> The drive of \<open>Ata_Drive\<close> answers at once and without errors.  The theorems on reading and writing, and those of the
    file system on top of them, need that IRQ 14 is taken only while the processor is halted (\<open>\<not> dr_eager\<close>); with prompt
    interrupts a read of more than one sector hangs, which is a theorem of its own.
  \<^item> The file system sees the heap through its answers: \<open>heap_answers\<close> says for every call of \<open>kmalloc\<close> whether it fails and
    what the new memory holds.  Nothing is assumed about them.
  \<^item> The chips of \<open>Pic\<close> do not look at the third and fourth initialisation word.  Loading a segment register never faults.
    Cached translations of the processor are always up to date.
  \<^item> The counter \<open>printf\<close> returns wraps around instead of overflowing.
  \<^item> Between two timer interrupts, the code that runs keeps the process structures and the variables of the scheduler.

  \<^bold>\<open>Not modelled.\<close>  System calls, the ELF loader, the shell, \<open>kernel/main.c\<close>, \<open>boot/loader.c\<close> and the boot assembly; of the ATA
  driver \<open>ata_init\<close>, which sets up interrupt lines, and the handler of the secondary channel.  In ext2, the tests for NULL arguments at the entry of operations and
  the messages printed on errors.  In the scheduler, the store of a stack pointer that is never read (\<open>dead_esp\<close>).  Directory
  operations, writing files and the virtual file system are modelled, but have no theorems yet.
\<close>

end
